(* ===== verification/Llarp_Prelude.thy ===== *)
theory Llarp_Prelude
  imports Main "HOL-Library.Word"
begin

unbundle bit_operations_syntax

text \<open>
  Shared vocabulary of the development: the machine types of the C++ sources, the
  values a C++ operation can end with, big-endian byte strings (the wire format that
  \<open>oxenc::write_host_as_big\<close> and \<open>oxenc::load_big_to_host\<close> produce and read), and the
  generic facts on lists that the components share.
\<close>

section \<open>Machine types\<close>

type_synonym byte = "8 word"
type_synonym u16 = "16 word"
type_synonym u32 = "32 word"
type_synonym u64 = "64 word"

text \<open>
  \<open>llarp_time_t\<close> is a signed 64 bit count of milliseconds.  The clocks of the program
  stay far below \<open>2 ^ 63\<close>, so times are integers here.
\<close>

type_synonym llarp_time_t = int

section \<open>How an operation ends\<close>

text \<open>
  Besides returning, a C++ operation can touch memory outside the region it was given
  (\<open>Out_Of_Bounds\<close>), throw an exception (\<open>Cxx_Throw\<close>, with the exception type) or,
  in a model whose loop is cut off, not have ended yet (\<open>Out_Of_Fuel\<close>).
\<close>

datatype fault = Out_Of_Bounds | Cxx_Throw string | Out_Of_Fuel

type_synonym 'a result = "fault + 'a"

definition bindE :: "'a result \<Rightarrow> ('a \<Rightarrow> 'b result) \<Rightarrow> 'b result" where
  "bindE m f = (case m of Inl e \<Rightarrow> Inl e | Inr x \<Rightarrow> f x)"

lemma bindE_Inl [simp]: "bindE (Inl e) f = Inl e"
  by (simp add: bindE_def)

lemma bindE_Inr [simp]: "bindE (Inr x) f = f x"
  by (simp add: bindE_def)

lemma bindE_cong [fundef_cong]:
  assumes "m = m'" and "\<And>x. m' = Inr x \<Longrightarrow> f x = f' x"
  shows "bindE m f = bindE m' f'"
  using assms by (cases m') auto

lemma bindE_eq_Inr:
  "bindE m f = Inr y \<longleftrightarrow> (\<exists>x. m = Inr x \<and> f x = Inr y)"
  by (cases m) auto

lemma bindE_eq_Inl:
  "bindE m f = Inl e \<longleftrightarrow> m = Inl e \<or> (\<exists>x. m = Inr x \<and> f x = Inl e)"
  by (cases m) auto

lemma bindE_split:
  "P (bindE m f) \<longleftrightarrow> (\<forall>e. m = Inl e \<longrightarrow> P (Inl e)) \<and> (\<forall>x. m = Inr x \<longrightarrow> P (f x))"
  by (cases m) auto

lemma bindE_split_asm:
  "P (bindE m f) \<longleftrightarrow> \<not> ((\<exists>e. m = Inl e \<and> \<not> P (Inl e)) \<or> (\<exists>x. m = Inr x \<and> \<not> P (f x)))"
  by (cases m) auto

lemmas bindE_splits = bindE_split bindE_split_asm

section \<open>Words as numbers\<close>

lemma unat_bound: "unat (x :: 'a::len word) < 2 ^ LENGTH('a)"
  by (rule unsigned_less)

lemma unat_byte_bound: "unat (x :: byte) < 256"
  using unat_bound [of x] by simp

section \<open>Big-endian byte strings\<close>

primrec be_bytes :: "nat \<Rightarrow> nat \<Rightarrow> byte list" where
  "be_bytes 0 v = []"
| "be_bytes (Suc n) v = be_bytes n (v div 256) @ [of_nat (v mod 256)]"

definition be_val :: "byte list \<Rightarrow> nat" where
  "be_val bs = foldl (\<lambda>a b. a * 256 + unat b) 0 bs"

lemma be_val_Nil [simp]: "be_val [] = 0"
  by (simp add: be_val_def)

lemma be_val_snoc [simp]: "be_val (bs @ [b]) = be_val bs * 256 + unat b"
  by (simp add: be_val_def)

lemma length_be_bytes [simp]: "length (be_bytes n v) = n"
  by (induction n arbitrary: v) auto

lemma unat_of_nat_byte [simp]: "unat (of_nat (v mod 256) :: byte) = v mod 256"
  by (simp add: unat_of_nat)

lemma be_val_be_bytes: "be_val (be_bytes n v) = v mod 256 ^ n"
proof (induction n arbitrary: v)
  case 0
  then show ?case by simp
next
  case (Suc n)
  have "(v div 256) mod 256 ^ n * 256 + v mod 256 = v mod 256 ^ Suc n"
    by (simp add: mod_mult2_eq mult.commute)
  with Suc show ?case by simp
qed

lemma be_val_less: "be_val bs < 256 ^ length bs"
proof (induction bs rule: rev_induct)
  case Nil
  then show ?case by simp
next
  case (snoc b bs)
  have "unat b < 256"
    by (rule unat_byte_bound)
  moreover have "be_val bs * 256 + 256 \<le> 256 ^ length bs * 256"
    using snoc by (metis Suc_leI add.commute mult_Suc mult_le_mono1)
  ultimately show ?case by (simp add: mult.commute)
qed

lemma be_bytes_be_val: "be_bytes (length bs) (be_val bs) = bs"
proof (induction bs rule: rev_induct)
  case Nil
  then show ?case by simp
next
  case (snoc b bs)
  have "unat b < 256"
    by (rule unat_byte_bound)
  then have "(be_val bs * 256 + unat b) div 256 = be_val bs"
    and "(be_val bs * 256 + unat b) mod 256 = unat b"
    by simp_all
  with snoc show ?case by simp
qed

lemma be_val_be_bytes_unat:
  "LENGTH('a) = 8 * n \<Longrightarrow> be_val (be_bytes n (unat (x :: 'a::len word))) = unat x"
  using unat_bound [of x] by (simp add: be_val_be_bytes power_mult)

section \<open>Lists\<close>

lemma take_drop_append_eq:
  "drop n xs = ys @ zs \<Longrightarrow> take (length ys) (drop n xs) = ys"
  by simp

lemma nth_drop_append_Cons:
  "drop n xs = y # ys \<Longrightarrow> n < length xs \<and> xs ! n = y"
  by (metis drop_eq_Nil2 hd_drop_conv_nth linorder_not_less list.sel(1) list.simps(3))

lemma drop_Suc_Cons_eq: "drop n xs = y # ys \<Longrightarrow> drop (Suc n) xs = ys"
  by (metis drop_Suc list.sel(3) tl_drop)

lemma drop_plus_append: "drop n xs = ys @ zs \<Longrightarrow> drop (n + length ys) xs = zs"
  by (metis add.commute append_eq_conv_conj drop_drop)

lemma foldl_insert: "foldl (\<lambda>a x. insert x a) acc ys = acc \<union> set ys"
  by (induction ys arbitrary: acc) simp_all

lemma foldl_snoc: "foldl (\<lambda>a x. a @ [x]) acc ys = acc @ ys"
  by (induction ys arbitrary: acc) simp_all

lemma nth_not_in_take: "distinct xs \<Longrightarrow> i < length xs \<Longrightarrow> xs ! i \<notin> set (take i xs)"
  by (auto simp: in_set_conv_nth nth_eq_iff_index_eq)


section \<open>Simulation of an abstract machine\<close>

text \<open>
  A component with an abstract specification is shown to implement it by simulating every operation:
  the component does not fault, gives the same output, and stays related to the abstract state, on
  every operation whose arguments are admissible.  The consequence for whole sequences of calls is proved once, in the locale.
\<close>

fun run_ops :: "('op \<Rightarrow> 'c \<Rightarrow> ('o \<times> 'c) result) \<Rightarrow> 'op list \<Rightarrow> 'c \<Rightarrow> ('o list \<times> 'c) result" where
  "run_ops step [] c = Inr ([], c)"
| "run_ops step (op # ops) c =
     bindE (step op c) (\<lambda>(out, c'). bindE (run_ops step ops c') (\<lambda>(outs, c''). Inr (out # outs, c'')))"

fun run_spec :: "('op \<Rightarrow> 's \<Rightarrow> 'o \<times> 's) \<Rightarrow> 'op list \<Rightarrow> 's \<Rightarrow> 'o list \<times> 's" where
  "run_spec step [] s = ([], s)"
| "run_spec step (op # ops) s =
     (let (out, s') = step op s; (outs, s'') = run_spec step ops s' in (out # outs, s''))"

locale simulation =
  fixes cstep :: "'op \<Rightarrow> 'c \<Rightarrow> ('o \<times> 'c) result"
    and astep :: "'op \<Rightarrow> 's \<Rightarrow> 'o \<times> 's"
    and rel :: "'c \<Rightarrow> 's \<Rightarrow> bool"
    and admissible :: "'op \<Rightarrow> bool"
  assumes simulates:
    "rel c s \<Longrightarrow> admissible op \<Longrightarrow> \<exists>c'. cstep op c = Inr (fst (astep op s), c') \<and> rel c' (snd (astep op s))"
begin

lemma run_simulates:
  assumes "rel c s" and "list_all admissible ops"
  shows "\<exists>c'. run_ops cstep ops c = Inr (fst (run_spec astep ops s), c') \<and>
              rel c' (snd (run_spec astep ops s))"
  using assms
proof (induction ops arbitrary: c s)
  case Nil
  then show ?case by simp
next
  case (Cons op ops)
  obtain c1 where c1: "cstep op c = Inr (fst (astep op s), c1)" "rel c1 (snd (astep op s))"
    using simulates[OF Cons.prems(1), of op] Cons.prems(2) by auto
  obtain c2 where "run_ops cstep ops c1 = Inr (fst (run_spec astep ops (snd (astep op s))), c2)"
    "rel c2 (snd (run_spec astep ops (snd (astep op s))))"
    using Cons.IH[OF c1(2)] Cons.prems(2) by auto
  then show ?case using c1(1) by (simp add: case_prod_beta Let_def)
qed

end

end
