(* ===== verification/CLib.thy ===== *)
theory CLib
  imports Llarp_Prelude
begin

text \<open>
  The parts of the C library that the sources call on text: printing an unsigned
  number in decimal (the conversions \<open>%zu\<close> and \<open>PRIu64\<close> of \<open>vsnprintf\<close>), and reading one
  back (\<open>strtoull\<close>, \<open>atoi\<close>).  Text is a list of bytes, since that is what the buffers of
  the program hold.
\<close>

section \<open>Characters\<close>

abbreviation (input) ch_0 :: byte where "ch_0 \<equiv> 48"
abbreviation (input) ch_9 :: byte where "ch_9 \<equiv> 57"
abbreviation (input) ch_colon :: byte where "ch_colon \<equiv> 58"
abbreviation (input) ch_d :: byte where "ch_d \<equiv> 100"
abbreviation (input) ch_e :: byte where "ch_e \<equiv> 101"
abbreviation (input) ch_i :: byte where "ch_i \<equiv> 105"
abbreviation (input) ch_l :: byte where "ch_l \<equiv> 108"
abbreviation (input) ch_dot :: byte where "ch_dot \<equiv> 46"

definition isdigit :: "byte \<Rightarrow> bool" where
  "isdigit c \<longleftrightarrow> 48 \<le> c \<and> c \<le> 57"

definition isspace :: "byte \<Rightarrow> bool" where
  "isspace c \<longleftrightarrow> c = 32 \<or> 9 \<le> c \<and> c \<le> 13"

section \<open>Printing in decimal\<close>

fun dec_digits :: "nat \<Rightarrow> byte list" where
  "dec_digits n =
     (if n < 10 then [48 + of_nat n] else dec_digits (n div 10) @ [48 + of_nat (n mod 10)])"

declare dec_digits.simps [simp del]

section \<open>Reading decimal numbers\<close>

definition digits_val :: "byte list \<Rightarrow> nat" where
  "digits_val bs = foldl (\<lambda>a c. a * 10 + (unat c - 48)) 0 bs"

text \<open>
  \<open>strtoull\<close> and \<open>strtol\<close> skip white space, take an optional sign and then the longest run
  of digits; text without digits reads as 0.
\<close>

definition strto_parts :: "byte list \<Rightarrow> bool \<times> nat" where
  "strto_parts bs =
     (let t = dropWhile isspace bs;
          neg = (t \<noteq> [] \<and> hd t = 45);
          u = (if t \<noteq> [] \<and> (hd t = 43 \<or> hd t = 45) then tl t else t)
      in (neg, digits_val (takeWhile isdigit u)))"

text \<open>A value that does not fit is \<open>ULLONG_MAX\<close>; a minus sign negates modulo \<open>2 ^ 64\<close>.\<close>

definition strtoull :: "byte list \<Rightarrow> u64" where
  "strtoull bs =
     (let (neg, v) = strto_parts bs
      in if v \<ge> 2 ^ 64 then - 1 else if neg then - of_nat v else of_nat v)"

text \<open>\<open>atoi\<close>, on text whose number fits an \<open>int\<close> (the callers pass at most nine characters).\<close>

definition atoi :: "byte list \<Rightarrow> int" where
  "atoi bs = (let (neg, v) = strto_parts bs in if neg then - int v else int v)"

section \<open>Reading back what was printed\<close>

lemma digit_char:
  assumes "d < 10"
  shows "isdigit (48 + of_nat d)" and "unat (48 + of_nat d :: byte) = 48 + d"
proof -
  show u: "unat (48 + of_nat d :: byte) = 48 + d"
    using assms by (simp add: unat_word_ariths unat_of_nat)
  show "isdigit (48 + of_nat d)"
    using assms u by (simp add: isdigit_def word_le_nat_alt)
qed

lemma dec_digits_ne [simp]: "dec_digits n \<noteq> []"
  by (subst dec_digits.simps) simp

lemma dec_digits_isdigit: "c \<in> set (dec_digits n) \<Longrightarrow> isdigit c"
proof (induction n rule: dec_digits.induct)
  case (1 n)
  then show ?case
    by (cases "n < 10") (auto simp: dec_digits.simps [of n] digit_char)
qed

lemma digits_val_snoc [simp]: "digits_val (bs @ [c]) = digits_val bs * 10 + (unat c - 48)"
  by (simp add: digits_val_def)

lemma digits_val_dec_digits [simp]: "digits_val (dec_digits n) = n"
proof (induction n rule: dec_digits.induct)
  case (1 n)
  show ?case
  proof (cases "n < 10")
    case True
    then show ?thesis
      by (simp add: dec_digits.simps [of n] digits_val_def digit_char)
  next
    case False
    then show ?thesis
      using 1 by (simp add: dec_digits.simps [of n] digit_char)
  qed
qed

lemma length_dec_digits_le: "n < 10 ^ k \<Longrightarrow> 0 < k \<Longrightarrow> length (dec_digits n) \<le> k"
proof (induction k arbitrary: n)
  case 0
  then show ?case by simp
next
  case (Suc k)
  show ?case
  proof (cases "n < 10")
    case True
    then show ?thesis by (simp add: dec_digits.simps [of n])
  next
    case False
    with Suc.prems have "n div 10 < 10 ^ k" and "0 < k"
      by (auto simp: less_mult_imp_div_less mult.commute intro: ccontr)
    with Suc.IH False show ?thesis by (simp add: dec_digits.simps [of n])
  qed
qed

lemma isdigit_not_space: "isdigit c \<Longrightarrow> \<not> isspace c"
  by (auto simp: isdigit_def isspace_def word_le_nat_alt)

lemma isdigit_not_sign: "isdigit c \<Longrightarrow> c \<noteq> 43 \<and> c \<noteq> 45"
  by (auto simp: isdigit_def)

lemma isdigit_not_delim:
  "isdigit c \<Longrightarrow> c \<noteq> ch_e \<and> c \<noteq> ch_colon \<and> c \<noteq> ch_i \<and> c \<noteq> ch_l \<and> c \<noteq> ch_d"
  by (auto simp: isdigit_def)

lemma strto_parts_digits:
  assumes "bs \<noteq> []" and "\<And>c. c \<in> set bs \<Longrightarrow> isdigit c"
  shows "strto_parts bs = (False, digits_val bs)"
proof -
  obtain c cs where bs: "bs = c # cs" using assms(1) by (cases bs) auto
  then have "isdigit c" using assms(2) by simp
  moreover have tw: "takeWhile isdigit cs = cs"
    using assms(2) bs by (simp only: takeWhile_eq_all_conv) simp
  ultimately show ?thesis
    using isdigit_not_space [of c] isdigit_not_sign [of c] by (simp add: strto_parts_def bs tw)
qed

lemma strtoull_dec_digits [simp]: "strtoull (dec_digits (unat x)) = x"
  using strto_parts_digits [of "dec_digits (unat x)"] dec_digits_isdigit unat_bound [of x]
  by (simp add: strtoull_def)

lemma atoi_dec_digits [simp]: "atoi (dec_digits n) = int n"
  using strto_parts_digits [of "dec_digits n"] dec_digits_isdigit by (simp add: atoi_def)

end
