(* ===== verification/Buffer.thy ===== *)
theory Buffer
  imports CLib
begin

text \<open>
  \<open>llarp_buffer_t\<close> (\<open>llarp/util/buffer.hpp\<close>, \<open>buffer.cpp\<close>): a cursor over a region of
  memory.  The record keeps the region's bytes and the cursor as an offset from the
  base, so \<open>sz\<close> is the length of the region.  Reading or writing outside the region is the
  fault \<open>Out_Of_Bounds\<close>; an operation that reports failure still leaves the cursor and the
  memory where the code leaves them.
\<close>

record buf =
  mem :: "byte list"
  cur :: nat

abbreviation sz :: "buf \<Rightarrow> nat" where
  "sz b \<equiv> length (mem b)"

text \<open>Construction over a byte container: the cursor is at the base.\<close>

definition mk_buf :: "byte list \<Rightarrow> buf" where
  "mk_buf bs = \<lparr>mem = bs, cur = 0\<rparr>"

text \<open>The well-formed buffers: the condition the \<open>assert\<close> in \<open>size_left\<close> states.\<close>

definition buf_ok :: "buf \<Rightarrow> bool" where
  "buf_ok b \<longleftrightarrow> cur b \<le> sz b"

definition size_left :: "buf \<Rightarrow> nat" where
  "size_left b = (if cur b > sz b then 0 else sz b - cur b)"

definition view_remaining :: "buf \<Rightarrow> byte list" where
  "view_remaining b = take (size_left b) (drop (cur b) (mem b))"

definition startswith :: "buf \<Rightarrow> byte list \<Rightarrow> bool" where
  "startswith b prefix \<longleftrightarrow> take (length prefix) (view_remaining b) = prefix"

text \<open>\<open>*cur\<close> and \<open>cur += n\<close>.\<close>

definition deref :: "buf \<Rightarrow> byte result" where
  "deref b = (if cur b < sz b then Inr (mem b ! cur b) else Inl Out_Of_Bounds)"

definition advance :: "nat \<Rightarrow> buf \<Rightarrow> buf" where
  "advance n b = b\<lparr>cur := cur b + n\<rparr>"

text \<open>\<open>memcpy\<close> to the cursor, without moving it.\<close>

definition store :: "byte list \<Rightarrow> buf \<Rightarrow> buf" where
  "store bs b = b\<lparr>mem := take (cur b) (mem b) @ bs @ drop (cur b + length bs) (mem b)\<rparr>"

definition buf_write :: "byte list \<Rightarrow> buf \<Rightarrow> bool \<times> buf" where
  "buf_write bs b =
     (if size_left b \<ge> length bs then (True, advance (length bs) (store bs b)) else (False, b))"

definition read_into :: "nat \<Rightarrow> buf \<Rightarrow> byte list option \<times> buf" where
  "read_into n b =
     (if size_left b \<ge> n then (Some (take n (drop (cur b) (mem b))), advance n b)
      else (None, b))"

text \<open>
  \<open>writef\<close>: \<open>vsnprintf\<close> is given the space that is left; it stores at most that many bytes
  less one and ends them with a zero byte, and returns the length the whole text has.
\<close>

definition vsnprintf :: "byte list \<Rightarrow> buf \<Rightarrow> buf" where
  "vsnprintf text b =
     (if size_left b = 0 then b else store (take (size_left b - 1) text @ [0]) b)"

definition writef :: "byte list \<Rightarrow> buf \<Rightarrow> bool \<times> buf" where
  "writef text b =
     (let toWrite = size_left b; b1 = vsnprintf text b; written = length text
      in if written = 0 then (False, b1)
         else if toWrite < written then (False, b1)
         else (True, advance written b1))"

text \<open>The fixed-width big-endian accessors, for a width of \<open>n\<close> bytes.\<close>

definition put_uint :: "nat \<Rightarrow> nat \<Rightarrow> buf \<Rightarrow> bool \<times> buf" where
  "put_uint n v b =
     (if size_left b < n then (False, b) else (True, advance n (store (be_bytes n v) b)))"

definition read_uint :: "nat \<Rightarrow> buf \<Rightarrow> nat option \<times> buf" where
  "read_uint n b =
     (if size_left b < n then (None, b)
      else (Some (be_val (take n (drop (cur b) (mem b)))), advance n b))"

definition put_uint16 :: "u16 \<Rightarrow> buf \<Rightarrow> bool \<times> buf" where
  "put_uint16 i = put_uint 2 (unat i)"

definition put_uint32 :: "u32 \<Rightarrow> buf \<Rightarrow> bool \<times> buf" where
  "put_uint32 i = put_uint 4 (unat i)"

definition put_uint64 :: "u64 \<Rightarrow> buf \<Rightarrow> bool \<times> buf" where
  "put_uint64 i = put_uint 8 (unat i)"

definition read_uint16 :: "buf \<Rightarrow> u16 option \<times> buf" where
  "read_uint16 b = map_prod (map_option of_nat) id (read_uint 2 b)"

definition read_uint32 :: "buf \<Rightarrow> u32 option \<times> buf" where
  "read_uint32 b = map_prod (map_option of_nat) id (read_uint 4 b)"

definition read_uint64 :: "buf \<Rightarrow> u64 option \<times> buf" where
  "read_uint64 b = map_prod (map_option of_nat) id (read_uint 8 b)"

text \<open>
  \<open>read_until\<close>: copies bytes up to the delimiter, the end of the buffer or the size of
  the result; the count is 0 when that used the buffer up.
\<close>

fun read_until_loop :: "byte \<Rightarrow> nat \<Rightarrow> buf \<Rightarrow> byte list \<Rightarrow> (byte list \<times> buf) result" where
  "read_until_loop delim resultsize b acc =
     (if cur b = sz b then Inr (acc, b)
      else bindE (deref b) (\<lambda>c.
        if c = delim then Inr (acc, b)
        else case resultsize of
          0 \<Rightarrow> Inr (acc, b)
        | Suc n \<Rightarrow> read_until_loop delim n (advance 1 b) (acc @ [c])))"

declare read_until_loop.simps [simp del]

definition read_until :: "byte \<Rightarrow> nat \<Rightarrow> buf \<Rightarrow> (nat \<times> byte list \<times> buf) result" where
  "read_until delim resultsize b =
     bindE (read_until_loop delim resultsize b []) (\<lambda>(acc, b').
       Inr (if size_left b' > 0 then length acc else 0, acc, b'))"

text \<open>\<open>copy\<close>, \<open>OwnedBuffer::copy_from\<close> and \<open>OwnedBuffer::copy_used\<close>.\<close>

definition copy :: "buf \<Rightarrow> byte list" where
  "copy b = mem b"

definition copy_used :: "buf \<Rightarrow> byte list" where
  "copy_used b = take (cur b) (mem b)"

section \<open>Facts on the accessors\<close>

lemma sz_advance [simp]: "mem (advance n b) = mem b" "cur (advance n b) = cur b + n"
  by (simp_all add: advance_def)

lemma cur_store [simp]: "cur (store bs b) = cur b"
  by (simp add: store_def)

lemma sz_store: "cur b + length bs \<le> sz b \<Longrightarrow> sz (store bs b) = sz b"
  by (simp add: store_def)

lemma size_left_ok: "buf_ok b \<Longrightarrow> size_left b = sz b - cur b"
  by (simp add: buf_ok_def size_left_def)

lemma buf_ok_mk_buf [simp]: "buf_ok (mk_buf bs)" "size_left (mk_buf bs) = length bs"
  "cur (mk_buf bs) = 0" "mem (mk_buf bs) = bs"
  by (simp_all add: buf_ok_def mk_buf_def size_left_def)

lemma size_left_pos: "0 < size_left b \<longleftrightarrow> cur b < sz b"
  by (auto simp: size_left_def)

lemma deref_ok: "0 < size_left b \<Longrightarrow> deref b = Inr (mem b ! cur b)"
  by (simp add: deref_def size_left_pos)

text \<open>
  \<open>at b bs\<close>: the bytes from the cursor on begin with \<open>bs\<close>.  It is how the properties of the
  readers name their input.
\<close>

definition at :: "buf \<Rightarrow> byte list \<Rightarrow> bool" where
  "at b bs \<longleftrightarrow> buf_ok b \<and> (\<exists>rest. drop (cur b) (mem b) = bs @ rest)"

lemma at_mk_buf: "at (mk_buf (bs @ rest)) bs"
  by (simp add: at_def buf_ok_def mk_buf_def)

lemma at_Nil [simp]: "at b [] \<longleftrightarrow> buf_ok b"
  by (auto simp: at_def)

lemma at_buf_ok: "at b bs \<Longrightarrow> buf_ok b"
  by (simp add: at_def)

lemma at_length: "at b bs \<Longrightarrow> length bs \<le> size_left b"
proof -
  assume "at b bs"
  then obtain rest where "drop (cur b) (mem b) = bs @ rest" and "buf_ok b"
    by (auto simp: at_def)
  then have "sz b - cur b = length bs + length rest"
    by (metis length_append length_drop)
  with \<open>buf_ok b\<close> show ?thesis by (simp add: size_left_ok)
qed

lemma at_ConsD:
  assumes "at b (c # bs)"
  shows "deref b = Inr c" and "0 < size_left b" and "at (advance 1 b) bs"
proof -
  obtain rest where d: "drop (cur b) (mem b) = c # (bs @ rest)"
    using assms by (auto simp: at_def)
  show "deref b = Inr c"
    using nth_drop_append_Cons [OF d] by (simp add: deref_def)
  show "0 < size_left b"
    using nth_drop_append_Cons [OF d] by (simp add: size_left_pos)
  show "at (advance 1 b) bs"
    using d nth_drop_append_Cons [OF d] drop_Suc_Cons_eq [OF d]
    by (auto simp: at_def buf_ok_def)
qed

lemma at_appendD: "at b (xs @ ys) \<Longrightarrow> at b xs \<and> at (advance (length xs) b) ys"
proof -
  assume a: "at b (xs @ ys)"
  then obtain rest where d: "drop (cur b) (mem b) = xs @ (ys @ rest)"
    by (auto simp: at_def)
  from at_length [OF a] at_buf_ok [OF a] have "cur b + length xs \<le> sz b"
    by (simp add: size_left_ok) (simp add: buf_ok_def)
  then show ?thesis
    using a d drop_plus_append [OF d] by (auto simp: at_def buf_ok_def)
qed

lemma at_take: "at b bs \<Longrightarrow> take (length bs) (drop (cur b) (mem b)) = bs"
  by (auto simp: at_def)

lemma advance_advance [simp]: "advance m (advance n b) = advance (n + m) b"
  by (simp add: advance_def)

lemma advance_0 [simp]: "advance 0 b = b"
  by (simp add: advance_def)

text \<open>
  \<open>wrote bs b b'\<close>: \<open>b'\<close> is \<open>b\<close> after \<open>bs\<close> was written at the cursor.  What lies beyond
  the new cursor is not fixed: \<open>vsnprintf\<close> leaves a zero byte there.
\<close>

definition wrote :: "byte list \<Rightarrow> buf \<Rightarrow> buf \<Rightarrow> bool" where
  "wrote bs b b' \<longleftrightarrow>
     buf_ok b \<and> sz b' = sz b \<and> cur b' = cur b + length bs \<and> cur b' \<le> sz b \<and>
     take (cur b') (mem b') = take (cur b) (mem b) @ bs"

lemma wrote_ok: "wrote bs b b' \<Longrightarrow> buf_ok b'"
  by (simp add: wrote_def buf_ok_def)

lemma wrote_refl: "buf_ok b \<Longrightarrow> wrote [] b b"
  by (simp add: wrote_def buf_ok_def)

lemma wrote_trans: "wrote xs b b1 \<Longrightarrow> wrote ys b1 b2 \<Longrightarrow> wrote (xs @ ys) b b2"
  by (auto simp: wrote_def)

lemma wrote_store:
  assumes "buf_ok b" and "length bs \<le> size_left b"
  shows "wrote bs b (advance (length bs) (store bs b))"
  using assms by (auto simp: wrote_def store_def size_left_ok buf_ok_def)

text \<open>Reading back from where the writer started sees what was written.\<close>

definition rewind_to :: "nat \<Rightarrow> buf \<Rightarrow> buf" where
  "rewind_to n b = b\<lparr>cur := n\<rparr>"

lemma wrote_at:
  assumes "wrote bs b b'"
  shows "at (rewind_to (cur b) b') bs"
proof -
  have m: "mem b' = (take (cur b) (mem b) @ bs) @ drop (cur b') (mem b')"
    using assms by (metis append_take_drop_id wrote_def)
  have l: "length (take (cur b) (mem b)) = cur b"
    using assms by (simp add: wrote_def buf_ok_def)
  have "drop (cur b) (mem b') = bs @ drop (cur b') (mem b')"
    by (subst m) (simp add: l del: length_take)
  moreover have "cur b \<le> sz b'"
    using assms by (simp add: wrote_def buf_ok_def)
  ultimately show ?thesis
    by (auto simp: at_def rewind_to_def buf_ok_def)
qed

lemma wrote_advance: "wrote bs b b' \<Longrightarrow> advance (length bs) (rewind_to (cur b) b') = b'"
  by (simp add: wrote_def rewind_to_def advance_def)

section \<open>Behaviour of the operations\<close>

lemma buf_write_spec:
  assumes "buf_ok b"
  shows "buf_write bs b = (True, b') \<Longrightarrow> wrote bs b b'"
    and "fst (buf_write bs b) \<longleftrightarrow> length bs \<le> size_left b"
    and "buf_write bs b = (False, b') \<Longrightarrow> b' = b"
  using assms wrote_store by (auto simp: buf_write_def split: if_splits)

text \<open>
  \<open>writef\<close> is right when a byte is left for the terminating zero.  At an exact fit it still
  reports success, with the last character replaced by the zero byte.
\<close>

lemma writef_wrote:
  assumes "buf_ok b" and "text \<noteq> []" and "length text < size_left b"
  shows "\<exists>b'. writef text b = (True, b') \<and> wrote text b b'"
proof -
  let ?s = "store (text @ [0]) b"
  have "writef text b = (True, advance (length text) ?s)"
    using assms by (simp add: writef_def vsnprintf_def)
  moreover have "wrote text b (advance (length text) ?s)"
    using assms by (auto simp: wrote_def store_def size_left_ok buf_ok_def)
  ultimately show ?thesis by blast
qed

lemma writef_exact_fit:
  assumes "buf_ok b" and "text \<noteq> []" and "length text = size_left b"
  shows "\<exists>b'. writef text b = (True, b') \<and> wrote (butlast text @ [0]) b b'"
proof -
  let ?bs = "butlast text @ [0]"
  have l: "length ?bs = length text" using assms(2) by (simp add: Suc_le_eq)
  have "writef text b = (True, advance (length ?bs) (store ?bs b))"
    using assms l by (simp add: writef_def vsnprintf_def butlast_conv_take Let_def)
  moreover have "wrote ?bs b (advance (length ?bs) (store ?bs b))"
    using wrote_store [of b ?bs] assms l by simp
  ultimately show ?thesis by blast
qed

lemma writef_too_long:
  "size_left b < length text \<Longrightarrow> \<exists>b'. writef text b = (False, b') \<and> cur b' = cur b"
  by (auto simp: writef_def vsnprintf_def Let_def)

lemma put_uint_spec:
  assumes "buf_ok b"
  shows "put_uint n v b = (True, b') \<Longrightarrow> wrote (be_bytes n v) b b'"
    and "fst (put_uint n v b) \<longleftrightarrow> n \<le> size_left b"
  using assms wrote_store [of b "be_bytes n v"] by (auto simp: put_uint_def split: if_splits)

lemma read_uint_at: "at b bs \<Longrightarrow> n = length bs \<Longrightarrow> read_uint n b = (Some (be_val bs), advance n b)"
  using at_length [of b bs] at_take [of b bs] by (simp add: read_uint_def)

lemma read_uint16_at: "at b (be_bytes 2 (unat (x :: u16))) \<Longrightarrow> read_uint16 b = (Some x, advance 2 b)"
  by (simp add: read_uint16_def read_uint_at be_val_be_bytes_unat)

lemma read_uint32_at: "at b (be_bytes 4 (unat (x :: u32))) \<Longrightarrow> read_uint32 b = (Some x, advance 4 b)"
  by (simp add: read_uint32_def read_uint_at be_val_be_bytes_unat)

lemma read_uint64_at: "at b (be_bytes 8 (unat (x :: u64))) \<Longrightarrow> read_uint64 b = (Some x, advance 8 b)"
  by (simp add: read_uint64_def read_uint_at be_val_be_bytes_unat)

text \<open>\<open>read_until\<close> in a well-formed buffer never leaves it, and moves by what it copied.\<close>

lemma read_until_loop_ok:
  "buf_ok b \<Longrightarrow> \<exists>k \<le> n. k \<le> size_left b \<and>
     read_until_loop d n b acc = Inr (acc @ take k (drop (cur b) (mem b)), advance k b)"
proof (induction n arbitrary: b acc)
  case 0
  then show ?case
    by (intro exI [of _ 0]) (auto simp: read_until_loop.simps [of d 0] deref_def buf_ok_def)
next
  case (Suc n)
  show ?case
  proof (cases "cur b = sz b \<or> mem b ! cur b = d")
    case True
    then show ?thesis
      using Suc.prems
      by (intro exI [of _ 0]) (auto simp: read_until_loop.simps [of d "Suc n"] deref_def buf_ok_def)
  next
    case False
    with Suc.prems have lt: "cur b < sz b" by (simp add: buf_ok_def)
    then have "buf_ok (advance 1 b)" by (simp add: buf_ok_def)
    from Suc.IH [OF this, of "acc @ [mem b ! cur b]"] obtain k where k: "k \<le> n"
      "k \<le> size_left (advance 1 b)"
      "read_until_loop d n (advance 1 b) (acc @ [mem b ! cur b]) =
         Inr (acc @ [mem b ! cur b] @ take k (drop (Suc (cur b)) (mem b)), advance (Suc k) b)"
      by auto
    have "drop (cur b) (mem b) = mem b ! cur b # drop (Suc (cur b)) (mem b)"
      using lt by (simp add: Cons_nth_drop_Suc)
    with k False lt show ?thesis
      by (intro exI [of _ "Suc k"])
        (auto simp: read_until_loop.simps [of d "Suc n"] deref_def size_left_def)
  qed
qed

lemma read_until_ok:
  assumes "buf_ok b"
  obtains k where "k \<le> n" "k \<le> size_left b"
    "read_until d n b =
       Inr (if k < size_left b then k else 0, take k (drop (cur b) (mem b)), advance k b)"
proof -
  from read_until_loop_ok [OF assms, of n d "[]"] obtain k where k: "k \<le> n" "k \<le> size_left b"
    "read_until_loop d n b [] = Inr (take k (drop (cur b) (mem b)), advance k b)"
    by auto
  have "(0 < size_left (advance k b)) = (k < size_left b)"
    using k(2) assms by (auto simp: size_left_def buf_ok_def)
  with k assms show ?thesis
    by (intro that [of k]) (auto simp: read_until_def size_left_ok buf_ok_def)
qed

lemma read_until_loop_at:
  assumes "at b (xs @ [d])" and "d \<notin> set xs" and "length xs \<le> n"
  shows "read_until_loop d n b acc = Inr (acc @ xs, advance (length xs) b)"
  using assms
proof (induction xs arbitrary: n b acc)
  case Nil
  then show ?case
    using at_ConsD(1,2) [of b d "[]"]
    by (auto simp: read_until_loop.simps [of d n] size_left_pos)
next
  case (Cons x xs)
  from Cons.prems(3) obtain m where n: "n = Suc m" "length xs \<le> m" by (cases n) auto
  from Cons.prems(1) have x: "deref b = Inr x" "0 < size_left b" "at (advance 1 b) (xs @ [d])"
    using at_ConsD [of b x "xs @ [d]"] by auto
  from Cons.IH [OF x(3) _ n(2)] Cons.prems(2) x n show ?case
    by (auto simp: read_until_loop.simps [of d "Suc m"] size_left_pos)
qed

lemma read_until_at:
  assumes "at b (xs @ [d])" and "d \<notin> set xs" and "length xs \<le> n"
  shows "read_until d n b = Inr (length xs, xs, advance (length xs) b)"
proof -
  have "at (advance (length xs) b) [d]"
    using at_appendD [OF assms(1)] by simp
  then have "0 < size_left (advance (length xs) b)"
    by (rule at_ConsD(2))
  then show ?thesis
    using read_until_loop_at [OF assms, of "[]"] by (simp add: read_until_def)
qed

end
