(* ===== verification/Bencode.thy ===== *)
theory Bencode
  imports Buffer
begin

text \<open>
  The bencode reader and writer of \<open>llarp/util/bencode.cpp\<close> and \<open>bencode.hpp\<close>.  Every message
  of the program goes through it.  A reader returns \<open>None\<close> (or \<open>False\<close>) where the code
  returns \<open>false\<close>, together with the buffer as it is then; the sinks that
  \<open>bencode_read_dict\<close> and \<open>bencode_read_list\<close> call are functions on the state the C++
  lambda captures.
\<close>

section \<open>Integers and strings\<close>

definition bencode_read_integer :: "buf \<Rightarrow> (u64 option \<times> buf) result" where
  "bencode_read_integer b =
     bindE (deref b) (\<lambda>c.
       if c \<noteq> ch_i then Inr (None, b)
       else bindE (read_until ch_e 31 (advance 1 b)) (\<lambda>(len, numbuf, b').
         if len = 0 then Inr (None, b')
         else Inr (Some (strtoull numbuf), advance 1 b')))"

definition bencode_read_string :: "buf \<Rightarrow> (buf option \<times> buf) result" where
  "bencode_read_string b =
     bindE (read_until ch_colon 9 b) (\<lambda>(len, numbuf, b').
       if len = 0 then Inr (None, b')
       else
         let num = atoi numbuf in
         if num < 0 then Inr (None, b')
         else
           let slen = nat num; b2 = advance 1 b' in
           if size_left b2 < slen then Inr (None, b2)
           else Inr (Some (mk_buf (take slen (drop (cur b2) (mem b2)))), advance slen b2))"

definition bencode_write_bytestring :: "byte list \<Rightarrow> buf \<Rightarrow> bool \<times> buf" where
  "bencode_write_bytestring data b =
     (let (ok, b1) = writef (dec_digits (length data) @ [ch_colon]) b
      in if ok then buf_write data b1 else (False, b1))"

definition bencode_write_uint64 :: "u64 \<Rightarrow> buf \<Rightarrow> bool \<times> buf" where
  "bencode_write_uint64 i b =
     (let (ok, b1) = writef (ch_i # dec_digits (unat i)) b
      in if ok then buf_write [ch_e] b1 else (False, b1))"

definition bencode_write_uint64_entry :: "byte list \<Rightarrow> u64 \<Rightarrow> buf \<Rightarrow> bool \<times> buf" where
  "bencode_write_uint64_entry name i b =
     (let (ok, b1) = bencode_write_bytestring name b
      in if ok then bencode_write_uint64 i b1 else (False, b1))"

definition bencode_start_list :: "buf \<Rightarrow> bool \<times> buf" where
  "bencode_start_list = buf_write [ch_l]"

definition bencode_start_dict :: "buf \<Rightarrow> bool \<times> buf" where
  "bencode_start_dict = buf_write [ch_d]"

definition bencode_end :: "buf \<Rightarrow> bool \<times> buf" where
  "bencode_end = buf_write [ch_e]"

section \<open>Dictionaries and lists\<close>

type_synonym 's dict_sink = "'s \<Rightarrow> buf \<Rightarrow> buf option \<Rightarrow> (bool \<times> 's \<times> buf) result"
type_synonym 's list_sink = "'s \<Rightarrow> buf \<Rightarrow> bool \<Rightarrow> (bool \<times> 's \<times> buf) result"

text \<open>
  The loops of the code run until the closing letter.  A sink could move the cursor back,
  so the loops carry fuel; \<open>bencode_read_dict\<close> and \<open>bencode_read_list\<close> start with more fuel
  than there are bytes, which is enough for every sink that does not move back
  (lemmas \<open>read_dict_loop_fuel\<close> and \<open>read_list_loop_fuel\<close>).
\<close>

definition read_dict_end :: "'s dict_sink \<Rightarrow> 's \<Rightarrow> buf \<Rightarrow> (bool \<times> 's \<times> buf) result" where
  "read_dict_end sink s b =
     bindE (deref b) (\<lambda>c. if c \<noteq> ch_e then Inr (False, s, b) else sink s (advance 1 b) None)"

fun read_dict_loop :: "nat \<Rightarrow> 's dict_sink \<Rightarrow> 's \<Rightarrow> buf \<Rightarrow> (bool \<times> 's \<times> buf) result" where
  "read_dict_loop 0 sink s b = Inl Out_Of_Fuel"
| "read_dict_loop (Suc fuel) sink s b =
     (if size_left b = 0 then read_dict_end sink s b
      else bindE (deref b) (\<lambda>c.
        if c = ch_e then read_dict_end sink s b
        else bindE (bencode_read_string b) (\<lambda>(key, b1).
          case key of
            None \<Rightarrow> Inr (False, s, b1)
          | Some k \<Rightarrow> bindE (sink s b1 (Some k)) (\<lambda>(ok, s2, b2).
              if ok then read_dict_loop fuel sink s2 b2 else Inr (False, s2, b2)))))"

definition read_dict_fuel :: "nat \<Rightarrow> 's dict_sink \<Rightarrow> 's \<Rightarrow> buf \<Rightarrow> (bool \<times> 's \<times> buf) result" where
  "read_dict_fuel fuel sink s b =
     (if size_left b < 2 then Inr (False, s, b)
      else bindE (deref b) (\<lambda>c.
        if c \<noteq> ch_d then Inr (False, s, b) else read_dict_loop fuel sink s (advance 1 b)))"

definition bencode_read_dict :: "'s dict_sink \<Rightarrow> 's \<Rightarrow> buf \<Rightarrow> (bool \<times> 's \<times> buf) result" where
  "bencode_read_dict sink s b = read_dict_fuel (Suc (size_left b)) sink s b"

definition read_list_end :: "'s list_sink \<Rightarrow> 's \<Rightarrow> buf \<Rightarrow> (bool \<times> 's \<times> buf) result" where
  "read_list_end sink s b =
     bindE (deref b) (\<lambda>c. if c \<noteq> ch_e then Inr (False, s, b) else sink s (advance 1 b) False)"

fun read_list_loop :: "nat \<Rightarrow> 's list_sink \<Rightarrow> 's \<Rightarrow> buf \<Rightarrow> (bool \<times> 's \<times> buf) result" where
  "read_list_loop 0 sink s b = Inl Out_Of_Fuel"
| "read_list_loop (Suc fuel) sink s b =
     (if size_left b = 0 then read_list_end sink s b
      else bindE (deref b) (\<lambda>c.
        if c = ch_e then read_list_end sink s b
        else bindE (sink s b True) (\<lambda>(ok, s2, b2).
          if ok then read_list_loop fuel sink s2 b2 else Inr (False, s2, b2))))"

definition read_list_fuel :: "nat \<Rightarrow> 's list_sink \<Rightarrow> 's \<Rightarrow> buf \<Rightarrow> (bool \<times> 's \<times> buf) result" where
  "read_list_fuel fuel sink s b =
     (if size_left b < 2 then Inr (False, s, b)
      else bindE (deref b) (\<lambda>c.
        if c \<noteq> ch_l then Inr (False, s, b) else read_list_loop fuel sink s (advance 1 b)))"

definition bencode_read_list :: "'s list_sink \<Rightarrow> 's \<Rightarrow> buf \<Rightarrow> (bool \<times> 's \<times> buf) result" where
  "bencode_read_list sink s b = read_list_fuel (Suc (size_left b)) sink s b"

text \<open>\<open>bencode_decode_dict\<close>: the object's \<open>DecodeKey\<close> handles every key.\<close>

definition bencode_decode_dict ::
  "('s \<Rightarrow> buf \<Rightarrow> buf \<Rightarrow> (bool \<times> 's \<times> buf) result) \<Rightarrow> 's \<Rightarrow> buf \<Rightarrow> (bool \<times> 's \<times> buf) result" where
  "bencode_decode_dict DecodeKey s b =
     bencode_read_dict (\<lambda>s b key. case key of
         None \<Rightarrow> Inr (True, s, b)
       | Some k \<Rightarrow> DecodeKey s k b) s b"

section \<open>Skipping a value\<close>

fun discard_fuel :: "nat \<Rightarrow> buf \<Rightarrow> (bool \<times> buf) result" where
  "discard_fuel 0 b = Inl Out_Of_Fuel"
| "discard_fuel (Suc fuel) b =
     (if size_left b = 0 then Inr (True, b)
      else bindE (deref b) (\<lambda>c.
        if c = ch_l then
          bindE (read_list_fuel fuel
                   (\<lambda>_ b more. if more
                      then bindE (discard_fuel fuel b) (\<lambda>(ok, b'). Inr (ok, (), b'))
                      else Inr (True, (), b)) () b)
            (\<lambda>(ok, _, b'). Inr (ok, b'))
        else if c = ch_i then
          bindE (bencode_read_integer b) (\<lambda>(r, b'). Inr (r \<noteq> None, b'))
        else if c = ch_d then
          bindE (read_dict_fuel fuel
                   (\<lambda>_ b key. if key \<noteq> None
                      then bindE (discard_fuel fuel b) (\<lambda>(ok, b'). Inr (ok, (), b'))
                      else Inr (True, (), b)) () b)
            (\<lambda>(ok, _, b'). Inr (ok, b'))
        else if isdigit c then
          bindE (bencode_read_string b) (\<lambda>(r, b'). Inr (r \<noteq> None, b'))
        else Inr (False, b)))"

definition bencode_discard :: "buf \<Rightarrow> (bool \<times> buf) result" where
  "bencode_discard b = discard_fuel (Suc (size_left b)) b"

section \<open>Entries of a dictionary\<close>

definition BEncodeWriteDictMsgType :: "byte \<Rightarrow> byte \<Rightarrow> buf \<Rightarrow> bool \<times> buf" where
  "BEncodeWriteDictMsgType k t b =
     (let (ok, b1) = bencode_write_bytestring [k] b
      in if ok then bencode_write_bytestring [t] b1 else (False, b1))"

definition BEncodeWriteDictString :: "byte \<Rightarrow> byte list \<Rightarrow> buf \<Rightarrow> bool \<times> buf" where
  "BEncodeWriteDictString k str b =
     (let (ok, b1) = bencode_write_bytestring [k] b
      in if ok then bencode_write_bytestring str b1 else (False, b1))"

definition BEncodeWriteDictEntry :: "byte \<Rightarrow> (buf \<Rightarrow> bool \<times> buf) \<Rightarrow> buf \<Rightarrow> bool \<times> buf" where
  "BEncodeWriteDictEntry k enc b =
     (let (ok, b1) = bencode_write_bytestring [k] b in if ok then enc b1 else (False, b1))"

definition BEncodeWriteDictInt :: "byte \<Rightarrow> u64 \<Rightarrow> buf \<Rightarrow> bool \<times> buf" where
  "BEncodeWriteDictInt k i b =
     (let (ok, b1) = bencode_write_bytestring [k] b
      in if ok then bencode_write_uint64 i b1 else (False, b1))"

text \<open>
  The \<open>BEncodeMaybeRead\<close> family: \<open>read\<close> becomes true when the key begins with \<open>k\<close> and the
  value decodes; a value that does not decode makes the whole call fail.  \<open>cast\<close> is the
  conversion to the integer type of the field.
\<close>

definition BEncodeMaybeReadDictInt ::
  "(u64 \<Rightarrow> 'i) \<Rightarrow> byte list \<Rightarrow> 'i \<Rightarrow> bool \<Rightarrow> buf \<Rightarrow> buf \<Rightarrow> (bool \<times> 'i \<times> bool \<times> buf) result" where
  "BEncodeMaybeReadDictInt cast k i rd key b =
     (if startswith key k
      then bindE (bencode_read_integer b) (\<lambda>(r, b'). case r of
          None \<Rightarrow> Inr (False, i, rd, b')
        | Some v \<Rightarrow> Inr (True, cast v, True, b'))
      else Inr (True, i, rd, b))"

definition BEncodeMaybeReadDictEntry ::
  "(buf \<Rightarrow> ('a option \<times> buf) result) \<Rightarrow> byte list \<Rightarrow> 'a \<Rightarrow> bool \<Rightarrow> buf \<Rightarrow> buf
     \<Rightarrow> (bool \<times> 'a \<times> bool \<times> buf) result" where
  "BEncodeMaybeReadDictEntry BDecode k item rd key b =
     (if startswith key k
      then bindE (BDecode b) (\<lambda>(r, b'). case r of
          None \<Rightarrow> Inr (False, item, rd, b')
        | Some v \<Rightarrow> Inr (True, v, True, b'))
      else Inr (True, item, rd, b))"

definition BEncodeMaybeVerifyVersion ::
  "byte list \<Rightarrow> u64 \<Rightarrow> u64 \<Rightarrow> bool \<Rightarrow> buf \<Rightarrow> buf \<Rightarrow> (bool \<times> u64 \<times> bool \<times> buf) result" where
  "BEncodeMaybeVerifyVersion k item expect rd key b =
     (if startswith key k
      then bindE (bencode_read_integer b) (\<lambda>(r, b'). case r of
          None \<Rightarrow> Inr (False, item, rd, b')
        | Some v \<Rightarrow> Inr (True, v, v = expect, b'))
      else Inr (True, item, rd, b))"

text \<open>
  \<open>BEncodeSeekDictVersion\<close>: looks for the one-byte key \<open>k\<close>, skips the other values, and
  puts the cursor back to the base whatever happened.
\<close>

definition seek_version_sink :: "byte \<Rightarrow> u64 dict_sink" where
  "seek_version_sink k v b key =
     (case key of
        None \<Rightarrow> Inr (True, v, b)
      | Some ky \<Rightarrow>
          if sz ky = 1 \<and> mem ky ! cur ky = k
          then bindE (bencode_read_integer b) (\<lambda>(r, b'). case r of
              None \<Rightarrow> Inr (False, v, b')
            | Some v' \<Rightarrow> Inr (True, v', b'))
          else bindE (bencode_discard b) (\<lambda>(ok, b'). Inr (ok, v, b')))"

definition BEncodeSeekDictVersion :: "u64 \<Rightarrow> byte \<Rightarrow> buf \<Rightarrow> (bool \<times> u64 \<times> buf) result" where
  "BEncodeSeekDictVersion v k b =
     bindE (bencode_read_dict (seek_version_sink k) v b)
       (\<lambda>(ok, v, b'). Inr (ok, v, b'\<lparr>cur := 0\<rparr>))"

section \<open>Lists of items\<close>

fun write_items :: "('a \<Rightarrow> buf \<Rightarrow> bool \<times> buf) \<Rightarrow> 'a list \<Rightarrow> buf \<Rightarrow> bool \<times> buf" where
  "write_items enc [] b = (True, b)"
| "write_items enc (x # xs) b =
     (let (ok, b1) = enc x b in if ok then write_items enc xs b1 else (False, b1))"

definition BEncodeWriteList ::
  "('a \<Rightarrow> buf \<Rightarrow> bool \<times> buf) \<Rightarrow> 'a list \<Rightarrow> buf \<Rightarrow> bool \<times> buf" where
  "BEncodeWriteList enc xs b =
     (let (ok, b1) = bencode_start_list b in
      if \<not> ok then (False, b1)
      else let (ok2, b2) = write_items enc xs b1 in if ok2 then bencode_end b2 else (False, b2))"

definition BEncodeWriteDictList ::
  "byte \<Rightarrow> ('a \<Rightarrow> buf \<Rightarrow> bool \<times> buf) \<Rightarrow> 'a list \<Rightarrow> buf \<Rightarrow> bool \<times> buf" where
  "BEncodeWriteDictList k enc xs b =
     (let (ok, b1) = bencode_write_bytestring [k] b
      in if ok then BEncodeWriteList enc xs b1 else (False, b1))"

text \<open>
  The other list writers of the header have the same body: \<open>BEncodeWriteDictArray\<close> and
  \<open>BEncodeWriteDictBEncodeList\<close> over an array and a list of pointers, \<open>BEncodeWriteSet\<close>
  over the elements of a set in iteration order.
\<close>

definition BEncodeWriteDictArray ::
  "byte \<Rightarrow> ('a \<Rightarrow> buf \<Rightarrow> bool \<times> buf) \<Rightarrow> 'a list \<Rightarrow> buf \<Rightarrow> bool \<times> buf" where
  "BEncodeWriteDictArray k enc array b =
     (let (ok, b1) = bencode_write_bytestring [k] b in
      if \<not> ok then (False, b1)
      else let (ok2, b2) = bencode_start_list b1 in
      if \<not> ok2 then (False, b2)
      else let (ok3, b3) = write_items enc array b2 in if ok3 then bencode_end b3 else (False, b3))"

definition BEncodeWriteDictBEncodeList ::
  "byte \<Rightarrow> ('a \<Rightarrow> buf \<Rightarrow> bool \<times> buf) \<Rightarrow> 'a list \<Rightarrow> buf \<Rightarrow> bool \<times> buf" where
  "BEncodeWriteDictBEncodeList = BEncodeWriteDictArray"

definition BEncodeWriteSet ::
  "('a \<Rightarrow> buf \<Rightarrow> bool \<times> buf) \<Rightarrow> 'a list \<Rightarrow> buf \<Rightarrow> bool \<times> buf" where
  "BEncodeWriteSet enc items b =
     (let (ok, b1) = bencode_start_list b in
      if \<not> ok then (False, b1)
      else let (ok2, b2) = write_items enc items b1 in if ok2 then bencode_end b2 else (False, b2))"

text \<open>
  \<open>BEncodeReadList\<close> appends a default item before it decodes into it; what a failed decode
  leaves in that item is not visible to a caller that fails with it, so it is dropped here.
\<close>

definition BEncodeReadList ::
  "(buf \<Rightarrow> ('a option \<times> buf) result) \<Rightarrow> 'a list \<Rightarrow> buf \<Rightarrow> (bool \<times> 'a list \<times> buf) result" where
  "BEncodeReadList BDecode acc b =
     bencode_read_list (\<lambda>acc b has.
       if has then bindE (BDecode b) (\<lambda>(r, b'). case r of
           None \<Rightarrow> Inr (False, acc, b')
         | Some x \<Rightarrow> Inr (True, acc @ [x], b'))
       else Inr (True, acc, b)) acc b"

definition BEncodeMaybeReadDictList ::
  "(buf \<Rightarrow> ('a option \<times> buf) result) \<Rightarrow> byte list \<Rightarrow> 'a list \<Rightarrow> bool \<Rightarrow> buf \<Rightarrow> buf
     \<Rightarrow> (bool \<times> 'a list \<times> bool \<times> buf) result" where
  "BEncodeMaybeReadDictList BDecode k item rd key b =
     (if startswith key k
      then bindE (BEncodeReadList BDecode item b) (\<lambda>(ok, item', b').
        if ok then Inr (True, item', True, b') else Inr (False, item', rd, b'))
      else Inr (True, item, rd, b))"

definition BEncodeReadSet ::
  "(buf \<Rightarrow> ('a option \<times> buf) result) \<Rightarrow> 'a set \<Rightarrow> buf \<Rightarrow> (bool \<times> 'a set \<times> buf) result" where
  "BEncodeReadSet BDecode acc b =
     bencode_read_list (\<lambda>acc b more.
       if more then bindE (BDecode b) (\<lambda>(r, b'). case r of
           None \<Rightarrow> Inr (False, acc, b')
         | Some x \<Rightarrow> Inr (x \<notin> acc, insert x acc, b'))
       else Inr (True, acc, b)) acc b"

definition BEncodeReadArray ::
  "nat \<Rightarrow> (buf \<Rightarrow> ('a option \<times> buf) result) \<Rightarrow> buf \<Rightarrow> (bool \<times> 'a list \<times> buf) result" where
  "BEncodeReadArray N BDecode b =
     bencode_read_list (\<lambda>acc b has.
       if has then
         if length acc \<ge> N then Inr (False, acc, b)
         else bindE (BDecode b) (\<lambda>(r, b'). case r of
             None \<Rightarrow> Inr (False, acc, b')
           | Some x \<Rightarrow> Inr (True, acc @ [x], b'))
       else Inr (True, acc, b)) [] b"

section \<open>Fixed-size byte arrays\<close>

text \<open>
  \<open>BEncode\<close> and \<open>BDecode\<close> of the aligned buffers (\<open>llarp/util/aligned.hpp\<close>), for the size
  \<open>n\<close>: keys, identities, nonces and hashes are all of this kind.
\<close>

definition aligned_BEncode :: "byte list \<Rightarrow> buf \<Rightarrow> bool \<times> buf" where
  "aligned_BEncode bs = bencode_write_bytestring bs"

definition aligned_BDecode :: "nat \<Rightarrow> buf \<Rightarrow> (byte list option \<times> buf) result" where
  "aligned_BDecode n b =
     bindE (bencode_read_string b) (\<lambda>(r, b'). case r of
         None \<Rightarrow> Inr (None, b')
       | Some str \<Rightarrow> if sz str \<noteq> n then Inr (None, b') else Inr (Some (mem str), b'))"

end
