(* ===== verification/Bencode_Facts.thy ===== *)
theory Bencode_Facts
  imports Bencode
begin

text \<open>
  What the bencode reader and writer do: the bytes each writer leaves, what each reader
  makes of them, where the cursor ends, and that the loops end.  The contract of an
  encodable item is the locale \<open>bencodable\<close>; lists of items are handled once, inside it.
\<close>

section \<open>Wire formats\<close>

definition wire_uint64 :: "u64 \<Rightarrow> byte list" where
  "wire_uint64 i = ch_i # dec_digits (unat i) @ [ch_e]"

definition wire_bytestring :: "byte list \<Rightarrow> byte list" where
  "wire_bytestring bs = dec_digits (length bs) @ ch_colon # bs"

text \<open>The longest string whose length the nine-character number buffer of the reader takes.\<close>

definition str_ok :: "byte list \<Rightarrow> bool" where
  "str_ok bs \<longleftrightarrow> length bs < 10 ^ 9"

section \<open>Writers\<close>

lemma writef_then_write:
  assumes "buf_ok b" and "txt_bytes \<noteq> []" and "data \<noteq> []"
    and "(let (ok, b1) = writef txt_bytes b in if ok then buf_write data b1 else (False, b1)) = (True, b')"
  shows "wrote (txt_bytes @ data) b b'"
proof (cases "length txt_bytes < size_left b")
  case True
  then obtain b1 where b1: "writef txt_bytes b = (True, b1)" "wrote txt_bytes b b1"
    using writef_wrote assms(1,2) by blast
  then have "buf_write data b1 = (True, b')" using assms(4) by simp
  then show ?thesis
    using b1 buf_write_spec(1) wrote_ok wrote_trans by blast
next
  case False
  have "False"
  proof (cases "length txt_bytes = size_left b")
    case True
    then obtain b1 where b1: "writef txt_bytes b = (True, b1)" "wrote (butlast txt_bytes @ [0]) b b1"
      using writef_exact_fit assms(1,2) by blast
    then have "size_left b1 = 0"
      using assms(1,2) True by (auto simp: wrote_def size_left_def buf_ok_def Suc_le_eq)
    then show False using assms(3,4) b1(1) by (simp add: buf_write_def)
  next
    case F: False
    then show False
      using False assms(4) writef_too_long [of b txt_bytes] by auto
  qed
  then show ?thesis by simp
qed

lemma writef_then_write_fits:
  assumes "buf_ok b" and "txt_bytes \<noteq> []" and "data \<noteq> []" and "length txt_bytes + length data \<le> size_left b"
  shows "\<exists>b'. (let (ok, b1) = writef txt_bytes b in if ok then buf_write data b1 else (False, b1)) = (True, b')"
proof -
  have "length txt_bytes < size_left b" using assms(3,4) by (cases data) auto
  then obtain b1 where b1: "writef txt_bytes b = (True, b1)" "wrote txt_bytes b b1"
    using writef_wrote assms(1,2) by blast
  then have "length data \<le> size_left b1"
    using assms(1,4) by (auto simp: wrote_def size_left_def buf_ok_def)
  with b1 show ?thesis by (simp add: buf_write_def)
qed

lemma bencode_write_uint64_wrote:
  "buf_ok b \<Longrightarrow> bencode_write_uint64 i b = (True, b') \<Longrightarrow> wrote (wire_uint64 i) b b'"
  using writef_then_write [of b "ch_i # dec_digits (unat i)" "[ch_e]" b']
  by (simp add: bencode_write_uint64_def wire_uint64_def)

lemma bencode_write_uint64_fits:
  "buf_ok b \<Longrightarrow> length (wire_uint64 i) \<le> size_left b \<Longrightarrow> \<exists>b'. bencode_write_uint64 i b = (True, b')"
  using writef_then_write_fits [of b "ch_i # dec_digits (unat i)" "[ch_e]"]
  by (simp add: bencode_write_uint64_def wire_uint64_def)

lemma bencode_write_bytestring_wrote:
  "buf_ok b \<Longrightarrow> bs \<noteq> [] \<Longrightarrow> bencode_write_bytestring bs b = (True, b')
     \<Longrightarrow> wrote (wire_bytestring bs) b b'"
  using writef_then_write [of b "dec_digits (length bs) @ [ch_colon]" bs b']
  by (simp add: bencode_write_bytestring_def wire_bytestring_def)

lemma bencode_write_bytestring_fits:
  "buf_ok b \<Longrightarrow> bs \<noteq> [] \<Longrightarrow> length (wire_bytestring bs) \<le> size_left b
     \<Longrightarrow> \<exists>b'. bencode_write_bytestring bs b = (True, b')"
  using writef_then_write_fits [of b "dec_digits (length bs) @ [ch_colon]" bs]
  by (simp add: bencode_write_bytestring_def wire_bytestring_def)

text \<open>The empty string needs a byte more than it writes.\<close>

lemma bencode_write_empty_wrote:
  "buf_ok b \<Longrightarrow> 2 < size_left b \<Longrightarrow> bencode_write_bytestring [] b = (True, b')
     \<Longrightarrow> wrote (wire_bytestring []) b b'"
  using writef_wrote [of b "dec_digits 0 @ [ch_colon]"] wrote_ok
  by (auto simp: bencode_write_bytestring_def wire_bytestring_def dec_digits.simps [of 0]
      buf_write_def store_def split: if_splits)

lemma single_wrote:
  assumes "buf_ok b"
  shows "bencode_start_list b = (True, b') \<Longrightarrow> wrote [ch_l] b b'"
    and "bencode_start_dict b = (True, b') \<Longrightarrow> wrote [ch_d] b b'"
    and "bencode_end b = (True, b') \<Longrightarrow> wrote [ch_e] b b'"
  using assms buf_write_spec(1)
  by (auto simp: bencode_start_list_def bencode_start_dict_def bencode_end_def)

section \<open>Readers\<close>

lemma unat_less_10_pow_31: "unat (i :: u64) < 10 ^ 20"
  using unat_bound [of i] by simp

lemma bencode_read_integer_at:
  assumes "at b (wire_uint64 i)"
  shows "bencode_read_integer b = Inr (Some i, advance (length (wire_uint64 i)) b)"
proof -
  let ?ds = "dec_digits (unat i)"
  have a: "at b (ch_i # (?ds @ [ch_e]))" using assms by (simp add: wire_uint64_def)
  have "length ?ds \<le> 31"
    using length_dec_digits_le [OF unat_less_10_pow_31 [of i]] by simp
  moreover have "ch_e \<notin> set ?ds"
    using dec_digits_isdigit [of _ "unat i"] isdigit_not_delim by blast
  ultimately have "read_until ch_e 31 (advance 1 b) = Inr (length ?ds, ?ds, advance (Suc (length ?ds)) b)"
    using read_until_at [OF at_ConsD(3) [OF a]] by simp
  then show ?thesis
    using at_ConsD(1) [OF a] by (simp add: bencode_read_integer_def wire_uint64_def)
qed

lemma bencode_read_string_at:
  assumes "at b (wire_bytestring bs)" and "str_ok bs"
  shows "bencode_read_string b = Inr (Some (mk_buf bs), advance (length (wire_bytestring bs)) b)"
proof -
  let ?ds = "dec_digits (length bs)"
  have a: "at b ((?ds @ [ch_colon]) @ bs)" using assms(1) by (simp add: wire_bytestring_def)
  have "length ?ds \<le> 9"
    using assms(2) length_dec_digits_le [of "length bs" 9] by (simp add: str_ok_def)
  moreover have "ch_colon \<notin> set ?ds"
    using dec_digits_isdigit [of _ "length bs"] isdigit_not_delim by blast
  ultimately have r: "read_until ch_colon 9 b = Inr (length ?ds, ?ds, advance (length ?ds) b)"
    using read_until_at at_appendD [OF a] by blast
  have d: "at (advance (Suc (length ?ds)) b) bs"
    using at_appendD [OF a] by simp
  show ?thesis
    using r at_length [OF d] at_take [OF d]
    by (simp add: bencode_read_string_def wire_bytestring_def Let_def)
qed

text \<open>A reader moves forward inside the buffer.\<close>

definition fwd :: "buf \<Rightarrow> buf \<Rightarrow> bool" where
  "fwd b b' \<longleftrightarrow> mem b' = mem b \<and> cur b \<le> cur b' \<and> cur b' \<le> sz b"

lemma fwd_refl: "buf_ok b \<Longrightarrow> fwd b b"
  by (simp add: fwd_def buf_ok_def)

lemma fwd_trans: "fwd a b \<Longrightarrow> fwd b c \<Longrightarrow> fwd a c"
  by (auto simp: fwd_def)

lemma fwd_ok: "fwd b b' \<Longrightarrow> buf_ok b'"
  by (simp add: fwd_def buf_ok_def)

lemma fwd_advance: "buf_ok b \<Longrightarrow> n \<le> size_left b \<Longrightarrow> fwd b (advance n b)"
  by (auto simp: fwd_def buf_ok_def size_left_def)

lemma fwd_size_left: "fwd b b' \<Longrightarrow> size_left b' = size_left b - (cur b' - cur b)"
  by (auto simp: fwd_def size_left_def)

lemma bencode_read_string_safe:
  assumes "buf_ok b"
  shows "\<exists>r b'. bencode_read_string b = Inr (r, b') \<and> fwd b b' \<and> (r \<noteq> None \<longrightarrow> cur b < cur b')"
proof -
  from read_until_ok [OF assms, of 9 ch_colon] obtain k where k: "k \<le> size_left b"
    "read_until ch_colon 9 b =
       Inr (if k < size_left b then k else 0, take k (drop (cur b) (mem b)), advance k b)"
    by blast
  show ?thesis
  proof (cases "k = 0 \<or> \<not> k < size_left b")
    case True
    then show ?thesis
      using k fwd_advance [OF assms k(1)] by (auto simp: bencode_read_string_def)
  next
    case False
    let ?num = "atoi (take k (drop (cur b) (mem b)))" and ?b2 = "advance (Suc k) b"
    have f1: "fwd b (advance k b)" and f2: "fwd b ?b2"
      using False assms by (auto intro: fwd_advance)
    have f3: "fwd b (advance n ?b2)" if "n \<le> size_left ?b2" for n
      using fwd_trans [OF f2 fwd_advance [OF fwd_ok [OF f2] that]] by simp
    show ?thesis
      using k False f1 f2 f3 [of "nat ?num"] by (auto simp: bencode_read_string_def Let_def)
  qed
qed

lemma bencode_read_integer_safe:
  assumes "buf_ok b" and "0 < size_left b"
  shows "\<exists>r b'. bencode_read_integer b = Inr (r, b') \<and> fwd b b' \<and> (r \<noteq> None \<longrightarrow> cur b < cur b')"
proof (cases "mem b ! cur b = ch_i")
  case False
  then show ?thesis
    using assms by (auto simp: bencode_read_integer_def deref_ok fwd_refl)
next
  case True
  let ?b1 = "advance 1 b"
  have f: "fwd b ?b1" using assms by (intro fwd_advance) auto
  from read_until_ok [OF fwd_ok [OF f], of 31 ch_e] obtain k where k: "k \<le> size_left ?b1"
    "read_until ch_e 31 ?b1 =
       Inr (if k < size_left ?b1 then k else 0, take k (drop (cur ?b1) (mem ?b1)), advance k ?b1)"
    by blast
  have f1: "fwd b (advance (Suc k) b)"
    using fwd_trans [OF f fwd_advance [OF fwd_ok [OF f] k(1)]] by simp
  have f2: "fwd b (advance (Suc (Suc k)) b)" if "k < size_left ?b1"
    using fwd_trans [OF f fwd_advance [OF fwd_ok [OF f], of "Suc k"]] that by simp
  show ?thesis
    using True assms k f1 f2 by (auto simp: bencode_read_integer_def deref_ok)
qed

section \<open>Loops over encoded items\<close>

lemma hd_dec_digits: "isdigit (hd (dec_digits n))"
  by (rule dec_digits_isdigit [of _ n]) simp

lemma hd_wire_bytestring: "isdigit (hd (wire_bytestring bs))"
  using hd_dec_digits by (simp add: wire_bytestring_def)

lemma at_chunk:
  assumes "at b (w @ ys)" and "w \<noteq> []"
  shows "0 < size_left b" and "deref b = Inr (hd w)" and "at b w" and "at (advance (length w) b) ys"
proof -
  obtain c cs where w: "w = c # cs" using assms(2) by (cases w) auto
  with assms(1) have "at b (c # (cs @ ys))" by simp
  from at_ConsD(1,2) [OF this] show "0 < size_left b" and "deref b = Inr (hd w)"
    by (simp_all add: w)
  show "at b w" and "at (advance (length w) b) ys"
    using at_appendD [OF assms(1)] by auto
qed

lemma size_left_advance: "size_left (advance n b) \<le> size_left b"
  by (auto simp: size_left_def)

lemma step_hyp:
  assumes "\<forall>i < length (x # xs). ok (foldl upd acc (take i (x # xs))) ((x # xs) ! i)"
  shows "ok acc x" and "\<forall>i < length xs. ok (foldl upd (upd acc x) (take i xs)) (xs ! i)"
  using assms [rule_format, of 0] assms [rule_format, of "Suc i" for i] by auto

text \<open>
  A list loop over the encodings of \<open>xs\<close>, when the sink takes each item in state \<open>acc\<close>
  with \<open>ok acc x\<close> to \<open>upd acc x\<close>.
\<close>

lemma read_list_loop_items:
  assumes item: "\<And>acc b x. x \<in> A \<Longrightarrow> at b (wire x) \<Longrightarrow> size_left b \<le> n \<Longrightarrow> ok acc x
      \<Longrightarrow> sink acc b True = Inr (True, upd acc x, advance (length (wire x)) b)"
    and start: "\<And>x. x \<in> A \<Longrightarrow> wire x \<noteq> [] \<and> hd (wire x) \<noteq> ch_e"
    and fin: "\<And>acc b. sink acc b False = Inr (True, acc, b)"
  shows "set xs \<subseteq> A \<Longrightarrow> at b (concat (map wire xs) @ [ch_e]) \<Longrightarrow> size_left b \<le> n \<Longrightarrow>
     length xs < fuel \<Longrightarrow>
     \<forall>i < length xs. ok (foldl upd acc (take i xs)) (xs ! i) \<Longrightarrow>
     read_list_loop fuel sink acc b =
       Inr (True, foldl upd acc xs, advance (Suc (length (concat (map wire xs)))) b)"
proof (induction xs arbitrary: fuel b acc)
  case Nil
  then obtain f where "fuel = Suc f" by (cases fuel) auto
  with Nil show ?case
    using at_ConsD(1,2) [of b ch_e "[]"] by (simp add: read_list_end_def fin)
next
  case (Cons x xs)
  then obtain f where f: "fuel = Suc f" "length xs < f" by (cases fuel) auto
  have x: "x \<in> A" and a: "at b (wire x @ (concat (map wire xs) @ [ch_e]))"
    using Cons.prems by simp_all
  note c = at_chunk [OF a conjunct1 [OF start [OF x]]]
  note h = step_hyp [OF Cons.prems(5)]
  have s: "sink acc b True = Inr (True, upd acc x, advance (length (wire x)) b)"
    using item [OF x c(3) Cons.prems(3) h(1)] .
  have "size_left (advance (length (wire x)) b) \<le> n"
    using size_left_advance Cons.prems(3) by (rule order_trans)
  from Cons.IH [OF _ c(4) this f(2) h(2)] Cons.prems(1)
  show ?case using c(1,2) start [OF x] s f by simp
qed

lemma read_dict_loop_items:
  assumes item: "\<And>acc b k v. (k, v) \<in> A \<Longrightarrow> at b (wire v) \<Longrightarrow> size_left b \<le> n \<Longrightarrow> ok acc (k, v)
      \<Longrightarrow> sink acc b (Some (mk_buf k)) = Inr (True, upd acc (k, v), advance (length (wire v)) b)"
    and key: "\<And>k v. (k, v) \<in> A \<Longrightarrow> str_ok k"
    and fin: "\<And>acc b. sink acc b None = Inr (True, acc, b)"
  shows "set kvs \<subseteq> A \<Longrightarrow>
     at b (concat (map (\<lambda>(k, v). wire_bytestring k @ wire v) kvs) @ [ch_e]) \<Longrightarrow> size_left b \<le> n \<Longrightarrow>
     length kvs < fuel \<Longrightarrow>
     \<forall>i < length kvs. ok (foldl upd acc (take i kvs)) (kvs ! i) \<Longrightarrow>
     read_dict_loop fuel sink acc b =
       Inr (True, foldl upd acc kvs,
         advance (Suc (length (concat (map (\<lambda>(k, v). wire_bytestring k @ wire v) kvs)))) b)"
proof (induction kvs arbitrary: fuel b acc)
  case Nil
  then obtain f where "fuel = Suc f" by (cases fuel) auto
  with Nil show ?case
    using at_ConsD(1,2) [of b ch_e "[]"] by (simp add: read_dict_end_def fin)
next
  case (Cons kv kvs)
  obtain k v where kv: "kv = (k, v)" by (cases kv)
  obtain f where f: "fuel = Suc f" "length kvs < f" using Cons.prems(4) by (cases fuel) auto
  let ?w = "wire_bytestring k"
  let ?rest = "concat (map (\<lambda>(k, v). wire_bytestring k @ wire v) kvs) @ [ch_e]"
  have x: "(k, v) \<in> A" and a: "at b (?w @ (wire v @ ?rest))"
    using Cons.prems(1,2) kv by simp_all
  have "?w \<noteq> []" by (simp add: wire_bytestring_def)
  note c = at_chunk [OF a this]
  have e: "hd ?w \<noteq> ch_e" using hd_wire_bytestring [of k] isdigit_not_delim by blast
  note r = bencode_read_string_at [OF c(3) key [OF x]]
  let ?b1 = "advance (length ?w) b"
  note h = step_hyp [OF Cons.prems(5) [unfolded kv]]
  have n: "size_left ?b1 \<le> n"
    using size_left_advance Cons.prems(3) by (rule order_trans)
  have v: "at ?b1 (wire v)" "at (advance (length (wire v)) ?b1) ?rest"
    using at_appendD [OF c(4)] by auto
  note s = item [OF x v(1) n h(1)]
  have "size_left (advance (length (wire v)) ?b1) \<le> n"
    using size_left_advance n by (rule order_trans)
  from Cons.IH [OF _ v(2) this f(2) h(2)] Cons.prems(1)
  show ?case using c(1,2) e r s f kv by (simp add: add.assoc)
qed

lemma length_concat_ge:
  "(\<And>x. x \<in> set xs \<Longrightarrow> wire x \<noteq> []) \<Longrightarrow> length xs \<le> length (concat (map wire xs))"
proof (induction xs)
  case (Cons x xs)
  then have "1 \<le> length (wire x)" by (simp add: Suc_le_eq)
  moreover have "length xs \<le> length (concat (map wire xs))" using Cons by simp
  ultimately have "1 + length xs \<le> length (wire x) + length (concat (map wire xs))"
    by (rule add_mono)
  then show ?case by simp
qed simp

definition wire_list :: "('a \<Rightarrow> byte list) \<Rightarrow> 'a list \<Rightarrow> byte list" where
  "wire_list wire xs = ch_l # concat (map wire xs) @ [ch_e]"

definition wire_dict :: "('a \<Rightarrow> byte list) \<Rightarrow> (byte list \<times> 'a) list \<Rightarrow> byte list" where
  "wire_dict wire kvs = ch_d # concat (map (\<lambda>(k, v). wire_bytestring k @ wire v) kvs) @ [ch_e]"

lemma wire_list_cong [fundef_cong]:
  "xs = ys \<Longrightarrow> (\<And>x. x \<in> set ys \<Longrightarrow> f x = g x) \<Longrightarrow> wire_list f xs = wire_list g ys"
  by (simp add: wire_list_def cong: map_cong)

lemma wire_dict_cong [fundef_cong]:
  assumes "xs = ys" and "\<And>k v. (k, v) \<in> set ys \<Longrightarrow> f v = g v"
  shows "wire_dict f xs = wire_dict g ys"
proof -
  have e: "map (\<lambda>(k, v). wire_bytestring k @ f v) ys = map (\<lambda>(k, v). wire_bytestring k @ g v) ys"
    using assms(2) by (auto intro: map_cong)
  show ?thesis unfolding wire_dict_def assms(1) e ..
qed

lemma read_list_fuel_at:
  assumes item: "\<And>acc b' x. x \<in> set xs \<Longrightarrow> at b' (wire x) \<Longrightarrow> size_left b' < size_left b \<Longrightarrow> ok acc x
      \<Longrightarrow> sink acc b' True = Inr (True, upd acc x, advance (length (wire x)) b')"
    and start: "\<And>x. x \<in> set xs \<Longrightarrow> wire x \<noteq> [] \<and> hd (wire x) \<noteq> ch_e"
    and fin: "\<And>acc b. sink acc b False = Inr (True, acc, b)"
    and a: "at b (wire_list wire xs)" and fuel: "size_left b \<le> fuel"
    and ok: "\<forall>i < length xs. ok (foldl upd acc (take i xs)) (xs ! i)"
  shows "read_list_fuel fuel sink acc b =
    Inr (True, foldl upd acc xs, advance (length (wire_list wire xs)) b)"
proof -
  have l: "at b (ch_l # (concat (map wire xs) @ [ch_e]))" using a by (simp add: wire_list_def)
  note c = at_ConsD [OF l]
  have len: "length xs + 2 \<le> size_left b"
    using at_length [OF l] length_concat_ge [of xs wire] start by force
  have sl: "size_left (advance 1 b) \<le> size_left b - 1" by (auto simp: size_left_def)
  have "read_list_loop fuel sink acc (advance 1 b) =
      Inr (True, foldl upd acc xs, advance (Suc (length (concat (map wire xs)))) (advance 1 b))"
    by (rule read_list_loop_items [where A = "set xs" and ok = ok and n = "size_left b - 1",
          OF item start fin _ c(3) sl _ ok])
      (use len fuel in auto)
  then show ?thesis
    using c(1) len by (simp add: read_list_fuel_def wire_list_def)
qed

lemma read_dict_fuel_at:
  assumes item: "\<And>acc b' k v. (k, v) \<in> set kvs \<Longrightarrow> at b' (wire v) \<Longrightarrow> size_left b' < size_left b \<Longrightarrow>
      ok acc (k, v)
      \<Longrightarrow> sink acc b' (Some (mk_buf k)) = Inr (True, upd acc (k, v), advance (length (wire v)) b')"
    and key: "\<And>k v. (k, v) \<in> set kvs \<Longrightarrow> str_ok k"
    and fin: "\<And>acc b. sink acc b None = Inr (True, acc, b)"
    and a: "at b (wire_dict wire kvs)" and fuel: "size_left b \<le> fuel"
    and ok: "\<forall>i < length kvs. ok (foldl upd acc (take i kvs)) (kvs ! i)"
  shows "read_dict_fuel fuel sink acc b =
    Inr (True, foldl upd acc kvs, advance (length (wire_dict wire kvs)) b)"
proof -
  let ?ws = "concat (map (\<lambda>(k, v). wire_bytestring k @ wire v) kvs)"
  have l: "at b (ch_d # (?ws @ [ch_e]))" using a by (simp add: wire_dict_def)
  note c = at_ConsD [OF l]
  have "length kvs \<le> length ?ws"
    by (rule length_concat_ge) (auto simp: wire_bytestring_def)
  then have len: "length kvs + 2 \<le> size_left b" using at_length [OF l] by simp
  have sl: "size_left (advance 1 b) \<le> size_left b - 1" by (auto simp: size_left_def)
  have "read_dict_loop fuel sink acc (advance 1 b) =
      Inr (True, foldl upd acc kvs, advance (Suc (length ?ws)) (advance 1 b))"
    by (rule read_dict_loop_items [where A = "set kvs" and ok = ok and n = "size_left b - 1",
          OF item key fin _ c(3) sl _ ok])
      (use len fuel in auto)
  then show ?thesis
    using c(1) len by (simp add: read_dict_fuel_def wire_dict_def)
qed

section \<open>The contract of an encodable item\<close>

locale bencodable =
  fixes enc :: "'a \<Rightarrow> buf \<Rightarrow> bool \<times> buf"
    and dec :: "buf \<Rightarrow> ('a option \<times> buf) result"
    and wire :: "'a \<Rightarrow> byte list"
    and valid :: "'a \<Rightarrow> bool"
  assumes enc_wrote: "buf_ok b \<Longrightarrow> valid x \<Longrightarrow> enc x b = (True, b') \<Longrightarrow> wrote (wire x) b b'"
    and enc_fits: "buf_ok b \<Longrightarrow> valid x \<Longrightarrow> length (wire x) \<le> size_left b \<Longrightarrow> \<exists>b'. enc x b = (True, b')"
    and dec_at: "valid x \<Longrightarrow> at b (wire x) \<Longrightarrow> dec b = Inr (Some x, advance (length (wire x)) b)"
    and wire_start: "valid x \<Longrightarrow> wire x \<noteq> [] \<and> hd (wire x) \<noteq> ch_e"
begin

lemma item_roundtrip:
  assumes "buf_ok b" and "valid x" and "enc x b = (True, b')"
  shows "dec (rewind_to (cur b) b') = Inr (Some x, b')"
proof -
  have w: "wrote (wire x) b b'" by (rule enc_wrote [OF assms])
  show ?thesis
    using dec_at [OF assms(2) wrote_at [OF w]] wrote_advance [OF w] by simp
qed

lemma write_items_wrote:
  "buf_ok b \<Longrightarrow> list_all valid xs \<Longrightarrow> write_items enc xs b = (True, b')
     \<Longrightarrow> wrote (concat (map wire xs)) b b'"
proof (induction xs arbitrary: b)
  case Nil
  then show ?case by (simp add: wrote_refl)
next
  case (Cons x xs)
  from Cons.prems(3) obtain b1 where b1: "enc x b = (True, b1)" "write_items enc xs b1 = (True, b')"
    by (auto split: prod.splits if_splits)
  have w: "wrote (wire x) b b1"
    using enc_wrote Cons.prems b1 by simp
  then have "wrote (concat (map wire xs)) b1 b'"
    using Cons.IH [OF wrote_ok [OF w]] Cons.prems b1 by simp
  with w show ?case by (auto intro: wrote_trans)
qed

lemma write_list_wrote:
  assumes "buf_ok b" and "list_all valid xs" and "BEncodeWriteList enc xs b = (True, b')"
  shows "wrote (wire_list wire xs) b b'"
proof -
  from assms(3) obtain b1 b2 where s: "bencode_start_list b = (True, b1)"
    "write_items enc xs b1 = (True, b2)" "bencode_end b2 = (True, b')"
    by (auto simp: BEncodeWriteList_def split: prod.splits if_splits)
  have w1: "wrote [ch_l] b b1" using single_wrote(1) assms(1) s(1) by blast
  have w2: "wrote (concat (map wire xs)) b1 b2"
    using write_items_wrote [OF wrote_ok [OF w1] assms(2) s(2)] .
  have w3: "wrote [ch_e] b2 b'" using single_wrote(3) wrote_ok [OF w2] s(3) by blast
  show ?thesis
    using wrote_trans [OF wrote_trans [OF w1 w2] w3] by (simp add: wire_list_def)
qed

lemma read_list_at:
  assumes "\<And>acc b x. valid x \<Longrightarrow> dec b = Inr (Some x, advance (length (wire x)) b)
      \<Longrightarrow> ok acc x \<Longrightarrow> sink acc b True = Inr (True, upd acc x, advance (length (wire x)) b)"
    and "\<And>acc b. sink acc b False = Inr (True, acc, b)"
    and v: "list_all valid xs" and "at b (wire_list wire xs)"
    and "\<forall>i < length xs. ok (foldl upd acc (take i xs)) (xs ! i)"
  shows "bencode_read_list sink acc b =
    Inr (True, foldl upd acc xs, advance (length (wire_list wire xs)) b)"
  unfolding bencode_read_list_def
  by (rule read_list_fuel_at [where ok = ok and sink = sink and upd = upd and wire = wire,
        OF _ _ assms(2,4) _ assms(5)])
    (use assms(1) dec_at wire_start v in \<open>auto simp: list_all_iff\<close>)

lemma BEncodeReadList_at:
  assumes "list_all valid xs" and "at b (wire_list wire xs)"
  shows "BEncodeReadList dec acc b = Inr (True, acc @ xs, advance (length (wire_list wire xs)) b)"
proof -
  have "BEncodeReadList dec acc b =
      Inr (True, foldl (\<lambda>a x. a @ [x]) acc xs, advance (length (wire_list wire xs)) b)"
    unfolding BEncodeReadList_def
    by (rule read_list_at [where ok = "\<lambda>_ _. True"]) (use assms in simp_all)
  then show ?thesis by (simp add: foldl_snoc)
qed

lemma BEncodeReadSet_at:
  assumes "list_all valid xs" and "at b (wire_list wire xs)"
    and "distinct xs" and "set xs \<inter> acc = {}"
  shows "BEncodeReadSet dec acc b =
    Inr (True, acc \<union> set xs, advance (length (wire_list wire xs)) b)"
proof -
  have fresh: "\<forall>i < length xs. xs ! i \<notin> foldl (\<lambda>a x. insert x a) acc (take i xs)"
    unfolding foldl_insert using assms(3,4) nth_not_in_take nth_mem by fastforce
  have "BEncodeReadSet dec acc b =
      Inr (True, foldl (\<lambda>a x. insert x a) acc xs, advance (length (wire_list wire xs)) b)"
    unfolding BEncodeReadSet_def
    by (rule read_list_at [where ok = "\<lambda>a x. x \<notin> a", OF _ _ assms(1,2) fresh]) simp_all
  then show ?thesis by (simp add: foldl_insert)
qed

lemma list_roundtrip:
  assumes "buf_ok b" and "list_all valid xs" and "BEncodeWriteList enc xs b = (True, b')"
  shows "BEncodeReadList dec [] (rewind_to (cur b) b') = Inr (True, xs, b')"
  using BEncodeReadList_at [OF assms(2) wrote_at [OF write_list_wrote [OF assms]], of "[]"]
    wrote_advance [OF write_list_wrote [OF assms]] by simp

end

section \<open>The items of the program\<close>

interpretation uint64_item: bencodable bencode_write_uint64 bencode_read_integer wire_uint64 "\<lambda>_. True"
proof unfold_locales
  fix b b' x
  show "buf_ok b \<Longrightarrow> bencode_write_uint64 x b = (True, b') \<Longrightarrow> wrote (wire_uint64 x) b b'"
    by (rule bencode_write_uint64_wrote)
  show "buf_ok b \<Longrightarrow> length (wire_uint64 x) \<le> size_left b \<Longrightarrow> \<exists>b'. bencode_write_uint64 x b = (True, b')"
    by (rule bencode_write_uint64_fits)
  show "at b (wire_uint64 x) \<Longrightarrow> bencode_read_integer b = Inr (Some x, advance (length (wire_uint64 x)) b)"
    by (rule bencode_read_integer_at)
  show "wire_uint64 x \<noteq> [] \<and> hd (wire_uint64 x) \<noteq> ch_e"
    by (simp add: wire_uint64_def)
qed

lemma aligned_BDecode_at:
  "str_ok bs \<Longrightarrow> at b (wire_bytestring bs)
     \<Longrightarrow> aligned_BDecode (length bs) b = Inr (Some bs, advance (length (wire_bytestring bs)) b)"
  by (simp add: aligned_BDecode_def bencode_read_string_at)

interpretation aligned32: bencodable aligned_BEncode "aligned_BDecode 32" wire_bytestring
  "\<lambda>bs. length bs = 32"
proof unfold_locales
  fix b b' and x :: "byte list"
  assume x: "length x = 32"
  then have ne: "x \<noteq> []" and ok: "str_ok x" by (auto simp: str_ok_def)
  show "buf_ok b \<Longrightarrow> aligned_BEncode x b = (True, b') \<Longrightarrow> wrote (wire_bytestring x) b b'"
    using bencode_write_bytestring_wrote ne by (simp add: aligned_BEncode_def)
  show "buf_ok b \<Longrightarrow> length (wire_bytestring x) \<le> size_left b \<Longrightarrow> \<exists>b'. aligned_BEncode x b = (True, b')"
    using bencode_write_bytestring_fits ne by (simp add: aligned_BEncode_def)
  show "at b (wire_bytestring x) \<Longrightarrow>
      aligned_BDecode 32 b = Inr (Some x, advance (length (wire_bytestring x)) b)"
    using aligned_BDecode_at [OF ok] x by simp
  show "wire_bytestring x \<noteq> [] \<and> hd (wire_bytestring x) \<noteq> ch_e"
    using hd_wire_bytestring [of x] isdigit_not_delim by (auto simp: wire_bytestring_def)
qed

section \<open>The loops end\<close>

text \<open>
  \<open>ends F b r\<close>: \<open>r\<close>, started in \<open>b\<close>, either returned further on in the same buffer or
  stopped with one of the faults \<open>F\<close>.
\<close>

definition ends :: "fault set \<Rightarrow> buf \<Rightarrow> (bool \<times> 's \<times> buf) result \<Rightarrow> bool" where
  "ends F b r \<longleftrightarrow> (case r of Inl e \<Rightarrow> e \<in> F | Inr (ok, s, b') \<Rightarrow> fwd b b')"

definition moves :: "buf \<Rightarrow> (bool \<times> 's \<times> buf) result \<Rightarrow> bool" where
  "moves b r \<longleftrightarrow> (case r of Inl e \<Rightarrow> True | Inr (ok, s, b') \<Rightarrow> ok \<longrightarrow> cur b < cur b')"

lemma ends_simps [simp]:
  "ends F b (Inl e) \<longleftrightarrow> e \<in> F" "ends F b (Inr (ok, s, b')) \<longleftrightarrow> fwd b b'"
  by (simp_all add: ends_def)

lemma moves_simps [simp]:
  "moves b (Inl e)" "moves b (Inr (ok, s, b')) \<longleftrightarrow> (ok \<longrightarrow> cur b < cur b')"
  by (simp_all add: moves_def)

lemma ends_fwd: "fwd b b' \<Longrightarrow> ends F b' r \<Longrightarrow> ends F b r"
  by (auto simp: ends_def intro: fwd_trans split: sum.splits)

lemma ends_bindE:
  assumes "ends F b m" and "\<And>ok s b'. m = Inr (ok, s, b') \<Longrightarrow> fwd b b' \<Longrightarrow> ends F b (f (ok, s, b'))"
  shows "ends F b (bindE m f)"
  using assms by (cases m) (auto simp: ends_def)

lemma moves_fwd: "fwd b b' \<Longrightarrow> cur b < cur b' \<Longrightarrow> ends F b' r \<Longrightarrow> moves b r"
  by (auto simp: moves_def ends_def fwd_def split: sum.splits)

lemma read_list_end_ends:
  assumes "buf_ok b" and "Out_Of_Bounds \<in> F" and "\<And>s b'. fwd b b' \<Longrightarrow> ends F b' (sink s b' False)"
  shows "ends F b (read_list_end sink s b)"
proof (cases "0 < size_left b")
  case True
  then have f: "fwd b (advance 1 b)" using assms(1) by (intro fwd_advance) auto
  have "ends F b (sink s (advance 1 b) False)"
    by (rule ends_fwd [OF f assms(3) [OF f]])
  then show ?thesis
    using assms(1) True by (auto simp: read_list_end_def deref_ok fwd_refl)
next
  case False
  then show ?thesis
    using assms(2) by (simp add: read_list_end_def deref_def size_left_pos)
qed

lemma read_list_loop_fuel:
  assumes "Out_Of_Bounds \<in> F"
    and sink: "\<And>s b'. fwd b b' \<Longrightarrow> 0 < size_left b' \<Longrightarrow>
      ends F b' (sink s b' True) \<and> moves b' (sink s b' True)"
    and fin: "\<And>s b'. fwd b b' \<Longrightarrow> ends F b' (sink s b' False)"
  shows "fwd b c \<Longrightarrow> size_left c < fuel \<Longrightarrow> ends F c (read_list_loop fuel sink s c)"
proof (induction fuel arbitrary: s c)
  case 0
  then show ?case by simp
next
  case (Suc fuel)
  have e: "ends F c (read_list_end sink s c)"
    using assms(1) fin fwd_trans [OF Suc.prems(1)] fwd_ok [OF Suc.prems(1)]
    by (intro read_list_end_ends) auto
  show ?case
  proof (cases "size_left c = 0 \<or> deref c = Inr ch_e")
    case True
    then show ?thesis using e by (auto simp: deref_ok)
  next
    case False
    then have pos: "0 < size_left c" by simp
    note s = sink [OF Suc.prems(1) pos, of s]
    have "ends F c (bindE (sink s c True) (\<lambda>(ok, s2, b2).
            if ok then read_list_loop fuel sink s2 b2 else Inr (False, s2, b2)))"
    proof (rule ends_bindE)
      fix ok s2 b2 assume r: "sink s c True = Inr (ok, s2, b2)" and f: "fwd c b2"
      have "ends F c (read_list_loop fuel sink s2 b2)" if ok
      proof -
        have "size_left b2 < size_left c"
          using s r that f by (auto simp: fwd_def size_left_def)
        then have "size_left b2 < fuel" using Suc.prems(2) by simp
        then show ?thesis
          by (rule ends_fwd [OF f Suc.IH [OF fwd_trans [OF Suc.prems(1) f]]])
      qed
      then show "ends F c (case (ok, s2, b2) of (ok, s2, b2) \<Rightarrow>
            if ok then read_list_loop fuel sink s2 b2 else Inr (False, s2, b2))"
        using f by simp
    qed (use s in simp)
    then show ?thesis using False pos by (auto simp: deref_ok)
  qed
qed

lemma read_dict_end_ends:
  assumes "buf_ok b" and "Out_Of_Bounds \<in> F" and "\<And>s b'. fwd b b' \<Longrightarrow> ends F b' (sink s b' None)"
  shows "ends F b (read_dict_end sink s b)"
proof (cases "0 < size_left b")
  case True
  then have f: "fwd b (advance 1 b)" using assms(1) by (intro fwd_advance) auto
  have "ends F b (sink s (advance 1 b) None)"
    by (rule ends_fwd [OF f assms(3) [OF f]])
  then show ?thesis
    using assms(1) True by (auto simp: read_dict_end_def deref_ok fwd_refl)
next
  case False
  then show ?thesis
    using assms(2) by (simp add: read_dict_end_def deref_def size_left_pos)
qed

text \<open>A key moves the cursor on, so a dictionary sink only has to stay inside the buffer.\<close>

lemma read_dict_loop_fuel:
  assumes "Out_Of_Bounds \<in> F"
    and sink: "\<And>s k b'. fwd b b' \<Longrightarrow> cur b < cur b' \<Longrightarrow> ends F b' (sink s b' (Some k))"
    and fin: "\<And>s b'. fwd b b' \<Longrightarrow> ends F b' (sink s b' None)"
  shows "fwd b c \<Longrightarrow> size_left c < fuel \<Longrightarrow> ends F c (read_dict_loop fuel sink s c)"
proof (induction fuel arbitrary: s c)
  case 0
  then show ?case by simp
next
  case (Suc fuel)
  have ok: "buf_ok c" by (rule fwd_ok [OF Suc.prems(1)])
  have e: "ends F c (read_dict_end sink s c)"
    using assms(1) fin fwd_trans [OF Suc.prems(1)] ok by (intro read_dict_end_ends) auto
  show ?case
  proof (cases "size_left c = 0 \<or> deref c = Inr ch_e")
    case True
    then show ?thesis using e by (auto simp: deref_ok)
  next
    case False
    then have pos: "0 < size_left c" by simp
    obtain key b1 where k: "bencode_read_string c = Inr (key, b1)" "fwd c b1"
        "key \<noteq> None \<Longrightarrow> cur c < cur b1"
      using bencode_read_string_safe [OF ok] by blast
    show ?thesis
    proof (cases key)
      case None
      then show ?thesis using k False pos by (auto simp: deref_ok)
    next
      case (Some ky)
      have fb: "fwd b b1" by (rule fwd_trans [OF Suc.prems(1) k(2)])
      have lt: "cur b < cur b1" using k(3) Some Suc.prems(1) by (simp add: fwd_def)
      have "ends F b1 (bindE (sink s b1 (Some ky)) (\<lambda>(ok, s2, b2).
            if ok then read_dict_loop fuel sink s2 b2 else Inr (False, s2, b2)))"
      proof (rule ends_bindE)
        fix okk s2 b2 assume f: "fwd b1 b2"
        have "size_left b2 < fuel"
          using k(2,3) Some f Suc.prems(2) by (auto simp: fwd_def size_left_def split: if_splits)
        then have "ends F b1 (read_dict_loop fuel sink s2 b2)"
          by (rule ends_fwd [OF f Suc.IH [OF fwd_trans [OF fb f]]])
        then show "ends F b1 (case (okk, s2, b2) of (ok, s2, b2) \<Rightarrow>
            if ok then read_dict_loop fuel sink s2 b2 else Inr (False, s2, b2))"
          using f by simp
      qed (rule sink [OF fb lt])
      from ends_fwd [OF k(2) this] show ?thesis
        using False pos k(1) Some by (auto simp: deref_ok)
    qed
  qed
qed

lemma read_list_fuel_ends:
  assumes ok: "buf_ok b" and "Out_Of_Bounds \<in> F" and "size_left b \<le> fuel"
    and sink: "\<And>s b'. fwd b b' \<Longrightarrow> cur b < cur b' \<Longrightarrow> 0 < size_left b' \<Longrightarrow>
      ends F b' (sink s b' True) \<and> moves b' (sink s b' True)"
    and fin: "\<And>s b'. fwd b b' \<Longrightarrow> ends F b' (sink s b' False)"
  shows "ends F b (read_list_fuel fuel sink s b)"
    and "moves b (read_list_fuel fuel sink s b)"
proof -
  have "ends F b (read_list_fuel fuel sink s b) \<and> moves b (read_list_fuel fuel sink s b)"
  proof (cases "size_left b < 2 \<or> mem b ! cur b \<noteq> ch_l")
    case True
    then show ?thesis using ok by (auto simp: read_list_fuel_def deref_ok fwd_refl)
  next
    case False
    let ?c = "advance 1 b"
    have f: "fwd b ?c" using False ok by (intro fwd_advance) auto
    have l: "ends F ?c (read_list_loop fuel sink s ?c)"
    proof (rule read_list_loop_fuel [OF assms(2)])
      show "fwd ?c ?c" by (rule fwd_refl [OF fwd_ok [OF f]])
      show "size_left ?c < fuel" using False assms(3) by (auto simp: size_left_def)
    next
      fix s b' assume "fwd ?c b'"
      then have "fwd b b'" "cur b < cur b'" using f by (auto simp: fwd_def)
      then show "0 < size_left b' \<Longrightarrow> ends F b' (sink s b' True) \<and> moves b' (sink s b' True)"
        and "ends F b' (sink s b' False)"
        using sink fin by auto
    qed
    show ?thesis
      using False ends_fwd [OF f l] moves_fwd [OF f _ l] by (auto simp: read_list_fuel_def deref_ok)
  qed
  then show "ends F b (read_list_fuel fuel sink s b)"
    and "moves b (read_list_fuel fuel sink s b)" by auto
qed

lemma read_dict_fuel_ends:
  assumes ok: "buf_ok b" and "Out_Of_Bounds \<in> F" and "size_left b \<le> fuel"
    and sink: "\<And>s k b'. fwd b b' \<Longrightarrow> cur b < cur b' \<Longrightarrow> ends F b' (sink s b' (Some k))"
    and fin: "\<And>s b'. fwd b b' \<Longrightarrow> ends F b' (sink s b' None)"
  shows "ends F b (read_dict_fuel fuel sink s b)"
    and "moves b (read_dict_fuel fuel sink s b)"
proof -
  have "ends F b (read_dict_fuel fuel sink s b) \<and> moves b (read_dict_fuel fuel sink s b)"
  proof (cases "size_left b < 2 \<or> mem b ! cur b \<noteq> ch_d")
    case True
    then show ?thesis using ok by (auto simp: read_dict_fuel_def deref_ok fwd_refl)
  next
    case False
    let ?c = "advance 1 b"
    have f: "fwd b ?c" using False ok by (intro fwd_advance) auto
    have l: "ends F ?c (read_dict_loop fuel sink s ?c)"
    proof (rule read_dict_loop_fuel [OF assms(2)])
      show "fwd ?c ?c" by (rule fwd_refl [OF fwd_ok [OF f]])
      show "size_left ?c < fuel" using False assms(3) by (auto simp: size_left_def)
    next
      fix s b' assume "fwd ?c b'"
      then have "fwd b b'" "cur b < cur b'" using f by (auto simp: fwd_def)
      then show "ends F b' (sink s b' None)"
        and "cur ?c < cur b' \<Longrightarrow> ends F b' (sink s b' (Some k))" for k
        using sink fin by auto
    qed
    show ?thesis
      using False ends_fwd [OF f l] moves_fwd [OF f _ l] by (auto simp: read_dict_fuel_def deref_ok)
  qed
  then show "ends F b (read_dict_fuel fuel sink s b)"
    and "moves b (read_dict_fuel fuel sink s b)" by auto
qed

end
