(* ===== verification/Bencode_Values.thy ===== *)
theory Bencode_Values
  imports Bencode_Facts
begin

text \<open>
  Whole bencode values: \<open>bencode_discard\<close> skips exactly one of them, always ends, and
  \<open>BEncodeSeekDictVersion\<close> finds the version of a message among its other entries.
\<close>

section \<open>Values and their encoding\<close>

datatype bval =
    BInt u64
  | BStr "byte list"
  | BList "bval list"
  | BDict "(byte list \<times> bval) list"

fun wire_bval :: "bval \<Rightarrow> byte list" where
  "wire_bval (BInt i) = wire_uint64 i"
| "wire_bval (BStr bs) = wire_bytestring bs"
| "wire_bval (BList vs) = wire_list wire_bval vs"
| "wire_bval (BDict kvs) = wire_dict wire_bval kvs"

fun bval_ok :: "bval \<Rightarrow> bool" where
  "bval_ok (BInt i) = True"
| "bval_ok (BStr bs) = str_ok bs"
| "bval_ok (BList vs) = (\<forall>v \<in> set vs. bval_ok v)"
| "bval_ok (BDict kvs) = (\<forall>(k, v) \<in> set kvs. str_ok k \<and> bval_ok v)"

lemma wire_bval_start: "wire_bval v \<noteq> [] \<and> hd (wire_bval v) \<noteq> ch_e"
proof (cases v)
  case (BStr bs)
  then show ?thesis
    using hd_wire_bytestring [of bs] isdigit_not_delim by (auto simp: wire_bytestring_def)
qed (simp_all add: wire_uint64_def wire_list_def wire_dict_def)

section \<open>Skipping\<close>

abbreviation discard_list_sink :: "nat \<Rightarrow> unit list_sink" where
  "discard_list_sink fuel \<equiv> \<lambda>_ b more. if more
     then bindE (discard_fuel fuel b) (\<lambda>(ok, b'). Inr (ok, (), b')) else Inr (True, (), b)"

abbreviation discard_dict_sink :: "nat \<Rightarrow> unit dict_sink" where
  "discard_dict_sink fuel \<equiv> \<lambda>_ b key. if key \<noteq> None
     then bindE (discard_fuel fuel b) (\<lambda>(ok, b'). Inr (ok, (), b')) else Inr (True, (), b)"

lemma discard_fuel_at:
  "at b (wire_bval v) \<Longrightarrow> bval_ok v \<Longrightarrow> size_left b < fuel \<Longrightarrow>
     discard_fuel fuel b = Inr (True, advance (length (wire_bval v)) b)"
proof (induction fuel arbitrary: b v)
  case 0
  then show ?case by simp
next
  case (Suc fuel)
  have "at b (wire_bval v @ [])" using Suc.prems(1) by simp
  note c = at_chunk [OF this conjunct1 [OF wire_bval_start]]
  show ?case
  proof (cases v)
    case (BInt i)
    then show ?thesis
      using c bencode_read_integer_at [of b i] by (simp add: wire_uint64_def)
  next
    case (BStr bs)
    then have "isdigit (hd (wire_bval v))" by (simp add: hd_wire_bytestring)
    then show ?thesis
      using BStr c bencode_read_string_at [of b bs] Suc.prems(2)
        isdigit_not_delim [of "hd (wire_bval v)"] by simp
  next
    case (BList vs)
    have "read_list_fuel fuel (discard_list_sink fuel) () b =
        Inr (True, foldl (\<lambda>_ _. ()) () vs, advance (length (wire_list wire_bval vs)) b)"
      by (rule read_list_fuel_at [where ok = "\<lambda>_ _. True"])
        (use Suc BList wire_bval_start in auto)
    moreover have "hd (wire_bval v) = ch_l" using BList by (simp add: wire_list_def)
    ultimately show ?thesis using c BList by simp
  next
    case (BDict kvs)
    have "read_dict_fuel fuel (discard_dict_sink fuel) () b =
        Inr (True, foldl (\<lambda>_ _. ()) () kvs, advance (length (wire_dict wire_bval kvs)) b)"
      by (rule read_dict_fuel_at [where ok = "\<lambda>_ _. True"])
        (use Suc BDict in auto)
    moreover have "hd (wire_bval v) = ch_d" using BDict by (simp add: wire_dict_def)
    ultimately show ?thesis using c BDict by simp
  qed
qed

text \<open>
  On any bytes at all \<open>bencode_discard\<close> ends: it returns, further on in the same buffer,
  or it reads the one byte past the end.
\<close>

abbreviation discard_unit :: "nat \<Rightarrow> buf \<Rightarrow> (bool \<times> unit \<times> buf) result" where
  "discard_unit fuel b \<equiv> bindE (discard_fuel fuel b) (\<lambda>(ok, b'). Inr (ok, (), b'))"

lemma discard_fuel_ends:
  "buf_ok b \<Longrightarrow> size_left b < fuel \<Longrightarrow>
     ends {Out_Of_Bounds} b (discard_unit fuel b) \<and>
     (0 < size_left b \<longrightarrow> moves b (discard_unit fuel b))"
proof (induction fuel arbitrary: b)
  case 0
  then show ?case by simp
next
  case (Suc fuel)
  note ok = Suc.prems(1)
  show ?case
  proof (cases "size_left b = 0")
    case True
    then show ?thesis using ok by (simp add: fwd_refl)
  next
    case False
    then have pos: "0 < size_left b" by simp
    have sub: "ends {Out_Of_Bounds} b' (discard_unit fuel b') \<and>
        (0 < size_left b' \<longrightarrow> moves b' (discard_unit fuel b'))"
      if "fwd b b'" "cur b < cur b'" for b'
      using Suc.IH [OF fwd_ok [OF that(1)]] that Suc.prems(2)
      by (auto simp: fwd_def size_left_def split: if_splits)
    have l: "ends {Out_Of_Bounds} b (read_list_fuel fuel (discard_list_sink fuel) () b)"
        "moves b (read_list_fuel fuel (discard_list_sink fuel) () b)"
      by (rule read_list_fuel_ends [OF ok]; use sub fwd_ok fwd_refl Suc.prems(2) in auto)+
    have d: "ends {Out_Of_Bounds} b (read_dict_fuel fuel (discard_dict_sink fuel) () b)"
        "moves b (read_dict_fuel fuel (discard_dict_sink fuel) () b)"
      by (rule read_dict_fuel_ends [OF ok]; use sub fwd_ok fwd_refl Suc.prems(2) in auto)+
    show ?thesis
      using pos ok l d bencode_read_integer_safe [OF ok pos] bencode_read_string_safe [OF ok]
      by (auto simp: deref_ok fwd_refl ends_def moves_def split: bindE_splits sum.splits)
  qed
qed

lemma bencode_discard_at:
  "at b (wire_bval v) \<Longrightarrow> bval_ok v \<Longrightarrow>
     bencode_discard b = Inr (True, advance (length (wire_bval v)) b)"
  by (simp add: bencode_discard_def discard_fuel_at del: discard_fuel.simps)

section \<open>The version entry\<close>

fun version_upd :: "byte \<Rightarrow> u64 \<Rightarrow> byte list \<times> bval \<Rightarrow> u64" where
  "version_upd k acc (key, BInt n) = (if key = [k] then n else acc)"
| "version_upd k acc (key, v) = acc"

lemma foldl_version_upd:
  "distinct (map fst kvs) \<Longrightarrow> foldl (version_upd k) acc kvs =
     (case map_of kvs [k] of Some (BInt n) \<Rightarrow> n | _ \<Rightarrow> acc)"
proof (induction kvs arbitrary: acc)
  case Nil
  then show ?case by simp
next
  case (Cons kv kvs)
  obtain key v where kv: "kv = (key, v)" by (cases kv)
  have "map_of kvs key = None"
    using Cons.prems kv by (simp add: map_of_eq_None_iff)
  then show ?case
    using Cons kv by (cases v) (auto split: option.splits)
qed

lemma key_is_iff: "sz (mk_buf key) = 1 \<and> mem (mk_buf key) ! cur (mk_buf key) = k \<longleftrightarrow> key = [k]"
  by (cases key) (auto simp: mk_buf_def)

lemma BEncodeSeekDictVersion_at:
  assumes "at b (wire_dict wire_bval kvs)" and "cur b = 0"
    and ok: "\<And>key v. (key, v) \<in> set kvs \<Longrightarrow> str_ok key \<and> bval_ok v"
    and int: "\<And>v. ([k], v) \<in> set kvs \<Longrightarrow> \<exists>n. v = BInt n"
  shows "BEncodeSeekDictVersion v0 k b = Inr (True, foldl (version_upd k) v0 kvs, b)"
proof -
  have item: "seek_version_sink k acc b' (Some (mk_buf key)) =
      Inr (True, version_upd k acc (key, v), advance (length (wire_bval v)) b')"
    if kv: "(key, v) \<in> set kvs" and a: "at b' (wire_bval v)" for acc b' key v
  proof (cases "key = [k]")
    case True
    then obtain n where "v = BInt n" using int kv by blast
    then show ?thesis
      using True a bencode_read_integer_at key_is_iff [of key k] by (simp add: seek_version_sink_def)
  next
    case False
    then have "\<not> (sz (mk_buf key) = 1 \<and> mem (mk_buf key) ! cur (mk_buf key) = k)"
      using key_is_iff by simp
    moreover have "version_upd k acc (key, v) = acc" using False by (cases v) auto
    ultimately show ?thesis
      using bencode_discard_at [OF a] ok [OF kv] by (auto simp: seek_version_sink_def)
  qed
  have "bencode_read_dict (seek_version_sink k) v0 b =
      Inr (True, foldl (version_upd k) v0 kvs, advance (length (wire_dict wire_bval kvs)) b)"
    unfolding bencode_read_dict_def
    by (rule read_dict_fuel_at [where ok = "\<lambda>_ _. True"]) 
      (use item ok assms(1) in \<open>auto simp: seek_version_sink_def [of k _ _ None]\<close>)
  then show ?thesis
    using assms(2) by (simp add: BEncodeSeekDictVersion_def advance_def)
qed

section \<open>Properties\<close>

text \<open>
  Claim C1.  An unsigned integer that \<open>bencode_write_uint64\<close> reports as written is read back
  by \<open>bencode_read_integer\<close> as the same integer, with the cursor where the writer left it.
  It holds for every 64 bit value and every buffer, however tight.
\<close>

theorem bencode_uint64_roundtrip:
  assumes "buf_ok b" and "bencode_write_uint64 i b = (True, b')"
  shows "bencode_read_integer (rewind_to (cur b) b') = Inr (Some i, b')"
  using uint64_item.item_roundtrip [OF assms(1) _ assms(2)] by simp

theorem bencode_uint64_roundtrip_witness:
  "bencode_read_integer (rewind_to 1 (snd (bencode_write_uint64 42 (\<lparr>mem = replicate 6 0, cur = 1\<rparr>))))
     = Inr (Some 42, snd (bencode_write_uint64 42 \<lparr>mem = replicate 6 0, cur = 1\<rparr>))"
proof -
  let ?b = "\<lparr>mem = replicate 6 0, cur = 1\<rparr>"
  have "buf_ok ?b" by (simp add: buf_ok_def)
  moreover have "bencode_write_uint64 42 ?b = (True, snd (bencode_write_uint64 42 ?b))"
    by code_simp
  ultimately show ?thesis using bencode_uint64_roundtrip [of ?b 42] by simp
qed

text \<open>
  Claim C2.  A list of 32-byte keys written by \<open>BEncodeWriteList\<close> is read back by
  \<open>BEncodeReadList\<close> as the same list, in order, with the cursor at the end of the list.
\<close>

theorem bencode_key_list_roundtrip:
  assumes "buf_ok b" and "list_all (\<lambda>k. length k = 32) keys"
    and "BEncodeWriteList aligned_BEncode keys b = (True, b')"
  shows "BEncodeReadList (aligned_BDecode 32) [] (rewind_to (cur b) b') = Inr (True, keys, b')"
  using assms by (rule aligned32.list_roundtrip)

theorem bencode_key_list_roundtrip_witness:
  "BEncodeReadList (aligned_BDecode 32) []
     (rewind_to 0 (snd (BEncodeWriteList aligned_BEncode [replicate 32 7] (mk_buf (replicate 40 0)))))
   = Inr (True, [replicate 32 7], snd (BEncodeWriteList aligned_BEncode [replicate 32 7] (mk_buf (replicate 40 0))))"
proof -
  let ?b = "mk_buf (replicate 40 0)" and ?ks = "[replicate 32 7]"
  have "BEncodeWriteList aligned_BEncode ?ks ?b = (True, snd (BEncodeWriteList aligned_BEncode ?ks ?b))"
    by code_simp
  then show ?thesis using bencode_key_list_roundtrip [of ?b ?ks] by simp
qed

text \<open>
  Claim C3.  On a buffer that begins with the encoding of any bencode value, nested as deeply
  as it may be, \<open>bencode_discard\<close> succeeds and moves the cursor past exactly that value.
\<close>

theorem bencode_discard_skips_value:
  assumes "at b (wire_bval v)" and "bval_ok v"
  shows "bencode_discard b = Inr (True, advance (length (wire_bval v)) b)"
  using assms by (rule bencode_discard_at)

theorem bencode_discard_skips_value_witness:
  "let v = BDict [([97], BList [BInt 5, BStr [1, 2]])] in
   bencode_discard (mk_buf (wire_bval v @ [33])) =
     Inr (True, advance (length (wire_bval v)) (mk_buf (wire_bval v @ [33])))"
  using bencode_discard_skips_value [OF at_mk_buf [of "wire_bval (BDict [([97], BList [BInt 5, BStr [1, 2]])])" "[33]"]]
  by (simp add: Let_def str_ok_def)



text \<open>
  Claim C5.  In a dictionary without duplicate keys, \<open>BEncodeSeekDictVersion\<close> returns the integer
  stored under the version key, wherever it stands among other entries of any shape, and leaves
  the buffer as it found it.
\<close>

theorem seek_dict_version_finds:
  assumes "at b (wire_dict wire_bval kvs)" and "cur b = 0"
    and "\<And>key v. (key, v) \<in> set kvs \<Longrightarrow> str_ok key \<and> bval_ok v"
    and "distinct (map fst kvs)" and "([k], BInt n) \<in> set kvs"
  shows "BEncodeSeekDictVersion v0 k b = Inr (True, n, b)"
proof -
  have m: "map_of kvs [k] = Some (BInt n)"
    using assms(4,5) by simp
  then have "\<exists>n. v = BInt n" if "([k], v) \<in> set kvs" for v
    using assms(4) that by (metis map_of_is_SomeI option.inject)
  with BEncodeSeekDictVersion_at [OF assms(1,2,3)] foldl_version_upd [OF assms(4)] m
  show ?thesis by simp
qed

theorem seek_dict_version_finds_witness:
  "BEncodeSeekDictVersion 0 118 (mk_buf (wire_dict wire_bval [([97], BStr [1]), ([118], BInt 3)]))
     = Inr (True, 3, mk_buf (wire_dict wire_bval [([97], BStr [1]), ([118], BInt 3)]))"
  using seek_dict_version_finds
    [OF at_mk_buf [of "wire_dict wire_bval [([97], BStr [1]), ([118], BInt 3)]" "[]"], of 118 3 0]
  by (fastforce simp: str_ok_def)


text \<open>
  Claim C7.  An empty string written where exactly two bytes are left is reported as written,
  but the bytes are the digit and a zero byte: the terminator of \<open>vsnprintf\<close> takes the place of
  the colon.
\<close>

theorem bencode_empty_string_exact_fit:
  assumes "buf_ok b" and "size_left b = 2"
  shows "\<exists>b'. bencode_write_bytestring [] b = (True, b') \<and> wrote [48, 0] b b'"
proof -
  have d: "dec_digits 0 @ [ch_colon] = [48, 58]" by (simp add: dec_digits.simps)
  obtain b1 where b1: "writef [48, 58] b = (True, b1)" "wrote [48, 0] b b1"
    using writef_exact_fit [OF assms(1), of "[48, 58]"] assms(2) by auto
  have "buf_write [] b1 = (True, b1)" by (simp add: buf_write_def store_def)
  with b1 d show ?thesis by (simp add: bencode_write_bytestring_def)
qed

theorem bencode_empty_string_exact_fit_witness:
  "\<exists>b'. bencode_write_bytestring [] (mk_buf [7, 7]) = (True, b') \<and> wrote [48, 0] (mk_buf [7, 7]) b'"
  by (rule bencode_empty_string_exact_fit) simp_all

end
