(* ===== verification/Dict_Codec.thy ===== *)
theory Dict_Codec
  imports Bencode_Values
begin

text \<open>
  Messages as bencoded dictionaries.  Every message class of the program has a \<open>BEncode\<close> that is a
  chain of writes, each of which ends the function when it fails, and a \<open>DecodeKey\<close> that is a chain
  of attempts to read one field.  This theory gives both chains a name, and proves once what such
  chains do: the bytes a chain of writers leaves, and the object a dictionary with these bytes
  decodes to.
\<close>

section \<open>Chains of writers\<close>

type_synonym writer = "buf \<Rightarrow> bool \<times> buf"

fun write_all :: "writer list \<Rightarrow> writer" where
  "write_all [] b = (True, b)"
| "write_all (w # ws) b = (let (ok, b1) = w b in if ok then write_all ws b1 else (False, b1))"

text \<open>
  \<open>writes w bs\<close>: \<open>w\<close> writes exactly \<open>bs\<close> when it reports success, and succeeds when there is room.
  \<open>writes_in w bs\<close> says so only for a place inside of a message, with a byte to follow: an empty
  string at the very end of the buffer loses its colon.
\<close>

definition writes :: "writer \<Rightarrow> byte list \<Rightarrow> bool" where
  "writes w bs \<longleftrightarrow> (\<forall>b. buf_ok b \<longrightarrow>
     (\<forall>b'. w b = (True, b') \<longrightarrow> wrote bs b b') \<and> (length bs \<le> size_left b \<longrightarrow> fst (w b)))"

definition writes_in :: "writer \<Rightarrow> byte list \<Rightarrow> bool" where
  "writes_in w bs \<longleftrightarrow> (\<forall>b. buf_ok b \<longrightarrow>
     (\<forall>b'. w b = (True, b') \<longrightarrow> wrote bs b b' \<or> buf_ok b' \<and> size_left b' = 0) \<and>
     (length bs < size_left b \<longrightarrow> (\<exists>b'. w b = (True, b') \<and> wrote bs b b')))"

named_theorems writers \<open>what the writers of single entries leave\<close>

lemma writesI:
  assumes "\<And>b b'. buf_ok b \<Longrightarrow> w b = (True, b') \<Longrightarrow> wrote bs b b'"
    and "\<And>b. buf_ok b \<Longrightarrow> length bs \<le> size_left b \<Longrightarrow> \<exists>b'. w b = (True, b')"
  shows "writes w bs"
  unfolding writes_def using assms by fastforce

lemma writesD:
  assumes "writes w bs" and "buf_ok b"
  shows "w b = (True, b') \<Longrightarrow> wrote bs b b'"
    and "length bs \<le> size_left b \<Longrightarrow> \<exists>b'. w b = (True, b')"
  using assms unfolding writes_def by (blast, metis prod.collapse)

lemma writes_writes_in [writers]: "writes w bs \<Longrightarrow> writes_in w bs"
  unfolding writes_in_def using writesD by (meson less_imp_le_nat)

lemma wrote_size_left: "wrote bs b b' \<Longrightarrow> size_left b = length bs + size_left b'"
  by (auto simp: wrote_def size_left_def)

lemma writes_Cons:
  assumes w: "writes_in w bs" and ws: "writes (write_all ws) cs" and "cs \<noteq> []"
  shows "writes (write_all (w # ws)) (bs @ cs)"
proof (rule writesI)
  fix b b' assume ok: "buf_ok b" and "write_all (w # ws) b = (True, b')"
  then obtain b1 where b1: "w b = (True, b1)" "write_all ws b1 = (True, b')"
    by (auto split: prod.splits if_splits)
  then have "wrote bs b b1 \<or> buf_ok b1 \<and> size_left b1 = 0"
    using w ok unfolding writes_in_def by blast
  then show "wrote (bs @ cs) b b'"
  proof
    assume "wrote bs b b1"
    then show ?thesis using b1(2) ws wrote_ok wrote_trans writesD(1) by blast
  next
    assume f: "buf_ok b1 \<and> size_left b1 = 0"
    then have "wrote cs b1 b'" using b1(2) ws writesD(1) by blast
    then have "cs = []" using f wrote_size_left by fastforce
    then show ?thesis using assms(3) by simp
  qed
next
  fix b assume ok: "buf_ok b" and len: "length (bs @ cs) \<le> size_left b"
  then have "length bs < size_left b" using assms(3) by (cases cs) auto
  then obtain b1 where b1: "w b = (True, b1)" "wrote bs b b1"
    using w ok unfolding writes_in_def by blast
  then have "length cs \<le> size_left b1" using len wrote_size_left by fastforce
  then show "\<exists>b'. write_all (w # ws) b = (True, b')"
    using b1 ws wrote_ok writesD(2) by fastforce
qed

lemma writes_in_Cons:
  assumes w: "writes_in w bs" and ws: "writes_in (write_all ws) cs" and "cs \<noteq> []"
    and full: "\<And>b. buf_ok b \<Longrightarrow> size_left b = 0 \<Longrightarrow> \<not> fst (write_all ws b)"
  shows "writes_in (write_all (w # ws)) (bs @ cs)"
  unfolding writes_in_def
proof (intro allI impI conjI)
  fix b b' assume ok: "buf_ok b" and "write_all (w # ws) b = (True, b')"
  then obtain b1 where b1: "w b = (True, b1)" "write_all ws b1 = (True, b')"
    by (auto split: prod.splits if_splits)
  then have "wrote bs b b1 \<or> buf_ok b1 \<and> size_left b1 = 0"
    using w ok unfolding writes_in_def by blast
  then have "wrote bs b b1" using full b1(2) by fastforce
  then show "wrote (bs @ cs) b b' \<or> buf_ok b' \<and> size_left b' = 0"
    using ws b1(2) wrote_ok wrote_trans unfolding writes_in_def by blast
next
  fix b assume ok: "buf_ok b" and len: "length (bs @ cs) < size_left b"
  then obtain b1 where b1: "w b = (True, b1)" "wrote bs b b1"
    using w unfolding writes_in_def by fastforce
  then have "length cs < size_left b1" using len wrote_size_left by fastforce
  then obtain b2 where "write_all ws b1 = (True, b2)" "wrote cs b1 b2"
    using ws b1 wrote_ok unfolding writes_in_def by blast
  then show "\<exists>b'. write_all (w # ws) b = (True, b') \<and> wrote (bs @ cs) b b'"
    using b1 wrote_trans by fastforce
qed

lemma write_all_single [simp]: "write_all [w] = w"
  by (rule ext) (simp add: split: prod.splits)

lemma write_all_append: "write_all (us @ ws) = write_all [write_all us, write_all ws]"
  by (rule ext, induction us) (auto split: prod.splits)

lemma write_all_group: "write_all (w1 # w2 # ws) = write_all (write_all [w1, w2] # ws)"
  by (rule ext) (auto split: prod.splits)

section \<open>Writers of entries\<close>

definition wire_entry :: "byte \<Rightarrow> byte list \<Rightarrow> byte list" where
  "wire_entry k bs = wire_bytestring [k] @ bs"

lemma wire_uint64_nonempty [simp]: "wire_uint64 i \<noteq> []"
  by (simp add: wire_uint64_def)

lemma wire_bytestring_nonempty [simp]: "wire_bytestring bs \<noteq> []"
  by (simp add: wire_bytestring_def)

lemma wire_list_nonempty [simp]: "wire_list w xs \<noteq> []"
  by (simp add: wire_list_def)

lemma writes_start_end [writers]:
  "writes bencode_start_dict [ch_d]" "writes bencode_start_list [ch_l]" "writes bencode_end [ch_e]"
  using single_wrote buf_write_spec(2)
  by (auto intro!: writesI simp: bencode_start_dict_def bencode_start_list_def bencode_end_def
      buf_write_def)

lemma writes_uint64 [writers]: "writes (bencode_write_uint64 i) (wire_uint64 i)"
  by (rule writesI) (simp_all add: bencode_write_uint64_wrote bencode_write_uint64_fits)

lemma writes_bytestring: "bs \<noteq> [] \<Longrightarrow> writes (bencode_write_bytestring bs) (wire_bytestring bs)"
  by (rule writesI) (simp_all add: bencode_write_bytestring_wrote bencode_write_bytestring_fits)

lemma writes_in_bytestring [writers]: "writes_in (bencode_write_bytestring bs) (wire_bytestring bs)"
proof (cases "bs = []")
  case False
  then show ?thesis by (intro writes_writes_in writes_bytestring)
next
  case True
  have l: "length (wire_bytestring []) = 2" by (simp add: wire_bytestring_def dec_digits.simps)
  have "wrote (wire_bytestring []) b b' \<or> buf_ok b' \<and> size_left b' = 0"
    if ok: "buf_ok b" and w: "bencode_write_bytestring [] b = (True, b')" for b b'
  proof (cases "2 < size_left b")
    case True
    then show ?thesis using bencode_write_empty_wrote [OF ok] w by blast
  next
    case False
    have d: "dec_digits 0 @ [ch_colon] = [48, 58]" by (simp add: dec_digits.simps)
    have "size_left b = 2"
    proof (rule ccontr)
      assume "size_left b \<noteq> 2"
      then have "size_left b < length [48, 58 :: byte]" using False by simp
      then obtain b1 where "writef [48, 58] b = (False, b1)" using writef_too_long by blast
      then show False using w d by (simp add: bencode_write_bytestring_def)
    qed
    then obtain b1 where b1: "writef [48, 58] b = (True, b1)" "wrote [48, 0] b b1"
      using writef_exact_fit [OF ok, of "[48, 58]"] by auto
    moreover have "b' = b1" using w d b1 by (simp add: bencode_write_bytestring_def buf_write_def store_def)
    ultimately show ?thesis using wrote_ok wrote_size_left \<open>size_left b = 2\<close> by fastforce
  qed
  moreover have "\<exists>b'. bencode_write_bytestring [] b = (True, b') \<and> wrote (wire_bytestring []) b b'"
    if ok: "buf_ok b" and room: "2 < size_left b" for b
  proof -
    obtain b1 where "writef (dec_digits 0 @ [ch_colon]) b = (True, b1)"
      using writef_wrote [OF ok, of "dec_digits 0 @ [ch_colon]"] room l
      by (fastforce simp: wire_bytestring_def)
    then have "bencode_write_bytestring [] b = (True, b1)"
      by (simp add: bencode_write_bytestring_def buf_write_def store_def)
    then show ?thesis using bencode_write_empty_wrote [OF ok room] by blast
  qed
  ultimately show ?thesis using True l unfolding writes_in_def by metis
qed

lemma DictEntry_chain: "BEncodeWriteDictEntry k enc = write_all [bencode_write_bytestring [k], enc]"
  by (rule ext) (simp add: BEncodeWriteDictEntry_def split: prod.splits)

lemma writes_DictEntry [writers]:
  "writes enc bs \<Longrightarrow> bs \<noteq> [] \<Longrightarrow> writes (BEncodeWriteDictEntry k enc) (wire_entry k bs)"
  unfolding DictEntry_chain wire_entry_def by (rule writes_Cons) (simp_all add: writers)

lemma bytestring_full: "buf_ok b \<Longrightarrow> size_left b = 0 \<Longrightarrow> \<not> fst (bencode_write_bytestring bs b)"
  by (simp add: bencode_write_bytestring_def writef_def split: prod.splits)

lemma writes_in_string_entry [writers]:
  "writes_in (write_all [bencode_write_bytestring [k], bencode_write_bytestring bs])
     (wire_entry k (wire_bytestring bs))"
  unfolding wire_entry_def
  by (rule writes_in_Cons) (simp_all add: writers bytestring_full)

lemma DictInt_chain: "BEncodeWriteDictInt k i = BEncodeWriteDictEntry k (bencode_write_uint64 i)"
  by (rule ext) (simp add: BEncodeWriteDictEntry_def BEncodeWriteDictInt_def)

lemma uint64_entry_chain:
  "bencode_write_uint64_entry [k] i = BEncodeWriteDictEntry k (bencode_write_uint64 i)"
  by (rule ext) (simp add: BEncodeWriteDictEntry_def bencode_write_uint64_entry_def)

lemma DictMsgType_chain:
  "BEncodeWriteDictMsgType k t = BEncodeWriteDictEntry k (bencode_write_bytestring [t])"
  by (rule ext) (simp add: BEncodeWriteDictEntry_def BEncodeWriteDictMsgType_def)

lemma DictList_chain:
  "BEncodeWriteDictList k enc xs = BEncodeWriteDictEntry k (BEncodeWriteList enc xs)"
  by (rule ext) (simp add: BEncodeWriteDictEntry_def BEncodeWriteDictList_def)

lemma DictString_chain:
  "BEncodeWriteDictString k bs = write_all [bencode_write_bytestring [k], bencode_write_bytestring bs]"
  by (rule ext) (simp add: BEncodeWriteDictString_def split: prod.splits)

lemma DictArray_chain:
  "BEncodeWriteDictArray k enc xs = BEncodeWriteDictEntry k (BEncodeWriteList enc xs)"
  by (rule ext) (simp add: BEncodeWriteDictEntry_def BEncodeWriteDictArray_def BEncodeWriteList_def
      split: prod.splits)

lemma WriteSet_chain: "BEncodeWriteSet enc xs = BEncodeWriteList enc xs"
  by (rule ext) (simp add: BEncodeWriteSet_def BEncodeWriteList_def)

lemma writes_DictInt [writers]: "writes (BEncodeWriteDictInt k i) (wire_entry k (wire_uint64 i))"
  unfolding DictInt_chain by (rule writes_DictEntry) (simp_all add: writers)

lemma writes_uint64_entry [writers]:
  "writes (bencode_write_uint64_entry [k] i) (wire_entry k (wire_uint64 i))"
  unfolding uint64_entry_chain by (rule writes_DictEntry) (simp_all add: writers)

lemma writes_DictMsgType [writers]:
  "writes (BEncodeWriteDictMsgType k t) (wire_entry k (wire_bytestring [t]))"
  unfolding DictMsgType_chain by (rule writes_DictEntry) (simp_all add: writes_bytestring)

lemma writes_in_DictString [writers]:
  "writes_in (BEncodeWriteDictString k bs) (wire_entry k (wire_bytestring bs))"
  unfolding DictString_chain by (rule writes_in_string_entry)

lemma write_items_chain: "write_items enc xs = write_all (map enc xs)"
  by (rule ext, induction xs) (auto split: prod.splits)

lemma writes_nil: "writes (write_all []) []"
  by (rule writesI) (simp_all add: wrote_refl)

lemma writes_map:
  "(\<And>x. x \<in> set xs \<Longrightarrow> writes (enc x) (wire x) \<and> wire x \<noteq> []) \<Longrightarrow> writes w cs \<Longrightarrow> cs \<noteq> [] \<Longrightarrow>
     writes (write_all (map enc xs @ [w])) (concat (map wire xs) @ cs)"
proof (induction xs)
  case Nil
  then show ?case by simp
next
  case (Cons x xs)
  then have "writes (write_all (map enc xs @ [w])) (concat (map wire xs) @ cs)" by simp
  then have "writes (write_all (enc x # (map enc xs @ [w]))) (wire x @ (concat (map wire xs) @ cs))"
    by (intro writes_Cons writes_writes_in) (use Cons.prems in auto)
  then show ?case by (simp del: write_all.simps)
qed

lemma WriteList_chain:
  "BEncodeWriteList enc xs = write_all (bencode_start_list # map enc xs @ [bencode_end])"
  by (rule ext) (auto simp: BEncodeWriteList_def write_items_chain write_all_append split: prod.splits)

lemma writes_WriteList [writers]:
  assumes "\<And>x. x \<in> set xs \<Longrightarrow> writes (enc x) (wire x) \<and> wire x \<noteq> []"
  shows "writes (BEncodeWriteList enc xs) (wire_list wire xs)"
proof -
  have "writes (write_all (bencode_start_list # map enc xs @ [bencode_end]))
      ([ch_l] @ (concat (map wire xs) @ [ch_e]))"
    by (intro writes_Cons writes_map) (use assms in \<open>auto simp: writers\<close>)
  then show ?thesis by (simp add: WriteList_chain wire_list_def)
qed

section \<open>Messages\<close>

text \<open>A key and its value written one after the other, and a whole dictionary.\<close>

abbreviation write_entry :: "byte \<Rightarrow> writer \<Rightarrow> writer" where
  "write_entry k w \<equiv> write_all [bencode_write_bytestring [k], w]"

definition write_msg :: "writer list \<Rightarrow> writer" where
  "write_msg ws = write_all (bencode_start_dict # ws @ [bencode_end])"

lemma writes_in_entry [writers]: "writes w bs \<Longrightarrow> bs \<noteq> [] \<Longrightarrow> writes_in (write_entry k w) (wire_entry k bs)"
  unfolding DictEntry_chain [symmetric] by (intro writes_writes_in writes_DictEntry)

lemma writes_aligned [writers]: "bs \<noteq> [] \<Longrightarrow> writes (aligned_BEncode bs) (wire_bytestring bs)"
  by (simp add: aligned_BEncode_def writes_bytestring)

definition wire_msg :: "(byte \<times> byte list) list \<Rightarrow> byte list" where
  "wire_msg es = ch_d # concat (map (\<lambda>(k, bs). wire_entry k bs) es) @ [ch_e]"

lemma wire_msg_start [simp]: "wire_msg es \<noteq> []" "hd (wire_msg es) = ch_d"
  by (simp_all add: wire_msg_def)

lemma writes_entries:
  "list_all2 (\<lambda>w (k, bs). writes_in w (wire_entry k bs)) ws es \<Longrightarrow>
     writes (write_all (ws @ [bencode_end])) (concat (map (\<lambda>(k, bs). wire_entry k bs) es) @ [ch_e])"
proof (induction ws es rule: list_all2_induct)
  case Nil
  then show ?case by (simp add: writers)
next
  case (Cons w ws e es)
  obtain k bs where e: "e = (k, bs)" by (cases e)
  have "writes (write_all (w # (ws @ [bencode_end])))
      (wire_entry k bs @ (concat (map (\<lambda>(k, bs). wire_entry k bs) es) @ [ch_e]))"
    by (rule writes_Cons) (use Cons e in auto)
  then show ?case using e by (simp del: write_all.simps)
qed

lemma writes_msg:
  assumes "list_all2 (\<lambda>w (k, bs). writes_in w (wire_entry k bs)) ws es"
  shows "writes (write_msg ws) (wire_msg es)"
proof -
  have "writes (write_all (bencode_start_dict # (ws @ [bencode_end])))
      ([ch_d] @ (concat (map (\<lambda>(k, bs). wire_entry k bs) es) @ [ch_e]))"
    by (intro writes_Cons writes_entries assms) (simp_all add: writers)
  then show ?thesis by (simp add: wire_msg_def write_msg_def del: write_all.simps)
qed


text \<open>Encoding into a fresh buffer gives exactly the bytes, when they fit.\<close>

definition encode_into :: "nat \<Rightarrow> writer \<Rightarrow> byte list option" where
  "encode_into n w = (let (ok, b) = w (mk_buf (replicate n 0)) in if ok then Some (copy_used b) else None)"

lemma writes_fresh:
  assumes "writes w bs"
  shows "encode_into n w = (if length bs \<le> n then Some bs else None)"
proof (cases "w (mk_buf (replicate n 0))")
  case (Pair ok b)
  let ?b0 = "mk_buf (replicate n 0)"
  show ?thesis
  proof (cases ok)
    case True
    then have "wrote bs ?b0 b" using writesD(1) [OF assms] Pair by simp
    then show ?thesis using Pair True by (auto simp: encode_into_def copy_used_def wrote_def)
  next
    case False
    then have "\<not> length bs \<le> n" using writesD(2) [OF assms, of ?b0] Pair by auto
    then show ?thesis using Pair False by (simp add: encode_into_def)
  qed
qed

section \<open>Chains of fields\<close>

text \<open>
  A \<open>DecodeKey\<close> tries its fields in turn.  An attempt gets the key, the object, the flag \<open>read\<close> and
  the buffer; when it fails the whole \<open>DecodeKey\<close> fails.
\<close>

type_synonym 's field = "buf \<Rightarrow> 's \<Rightarrow> bool \<Rightarrow> buf \<Rightarrow> (bool \<times> 's \<times> bool \<times> buf) result"

definition field_int :: "byte list \<Rightarrow> (u64 \<Rightarrow> 'i) \<Rightarrow> ('s \<Rightarrow> 'i) \<Rightarrow> ('i \<Rightarrow> 's \<Rightarrow> 's) \<Rightarrow> 's field" where
  "field_int k cast get upd key s rd b =
     bindE (BEncodeMaybeReadDictInt cast k (get s) rd key b) (\<lambda>(ok, v, rd', b'). Inr (ok, upd v s, rd', b'))"

definition field_entry ::
  "byte list \<Rightarrow> (buf \<Rightarrow> ('v option \<times> buf) result) \<Rightarrow> ('s \<Rightarrow> 'v) \<Rightarrow> ('v \<Rightarrow> 's \<Rightarrow> 's) \<Rightarrow> 's field" where
  "field_entry k BDecode get upd key s rd b =
     bindE (BEncodeMaybeReadDictEntry BDecode k (get s) rd key b) (\<lambda>(ok, v, rd', b'). Inr (ok, upd v s, rd', b'))"

definition field_list ::
  "byte list \<Rightarrow> (buf \<Rightarrow> ('v option \<times> buf) result) \<Rightarrow> ('s \<Rightarrow> 'v list) \<Rightarrow> ('v list \<Rightarrow> 's \<Rightarrow> 's) \<Rightarrow> 's field" where
  "field_list k BDecode get upd key s rd b =
     bindE (BEncodeMaybeReadDictList BDecode k (get s) rd key b) (\<lambda>(ok, v, rd', b'). Inr (ok, upd v s, rd', b'))"

definition field_version :: "byte list \<Rightarrow> u64 \<Rightarrow> ('s \<Rightarrow> u64) \<Rightarrow> (u64 \<Rightarrow> 's \<Rightarrow> 's) \<Rightarrow> 's field" where
  "field_version k expect get upd key s rd b =
     bindE (BEncodeMaybeVerifyVersion k (get s) expect rd key b) (\<lambda>(ok, v, rd', b'). Inr (ok, upd v s, rd', b'))"

text \<open>
  The steps of a \<open>DecodeKey\<close>: an attempt, or \<open>if (key.startswith(k)) return ...\<close>.  The function ends with
  \<open>return read\<close>, with \<open>return read or bencode_discard(buf)\<close> or with \<open>return false\<close>.
\<close>

datatype 's step =
    Field "'s field"
  | Return_On "byte list" "'s \<Rightarrow> buf \<Rightarrow> (bool \<times> 's \<times> buf) result"

type_synonym 's key_end = "'s \<Rightarrow> bool \<Rightarrow> buf \<Rightarrow> (bool \<times> 's \<times> buf) result"

definition return_read :: "'s key_end" where
  "return_read s rd b = Inr (rd, s, b)"

definition return_false :: "'s key_end" where
  "return_false s rd b = Inr (False, s, b)"

definition read_or_discard :: "'s key_end" where
  "read_or_discard s rd b =
     (if rd then Inr (True, s, b) else bindE (bencode_discard b) (\<lambda>(ok, b'). Inr (ok, s, b')))"

fun run_steps :: "'s step list \<Rightarrow> 's key_end \<Rightarrow> buf \<Rightarrow> 's key_end" where
  "run_steps [] fin key s rd b = fin s rd b"
| "run_steps (Field f # st) fin key s rd b =
     bindE (f key s rd b) (\<lambda>(ok, s', rd', b').
       if ok then run_steps st fin key s' rd' b' else Inr (False, s', b'))"
| "run_steps (Return_On k v # st) fin key s rd b =
     (if startswith key k then v s b else run_steps st fin key s rd b)"

definition decode_key :: "'s step list \<Rightarrow> 's key_end \<Rightarrow> 's \<Rightarrow> buf \<Rightarrow> buf \<Rightarrow> (bool \<times> 's \<times> buf) result" where
  "decode_key st fin s key b = run_steps st fin key s False b"

text \<open>What such a return reads: an integer, an item, a list of items, a value that is skipped.\<close>

definition int_value :: "('s \<Rightarrow> u64 \<Rightarrow> 's) \<Rightarrow> 's \<Rightarrow> buf \<Rightarrow> (bool \<times> 's \<times> buf) result" where
  "int_value upd s b = bindE (bencode_read_integer b) (\<lambda>(r, b'). case r of
       None \<Rightarrow> Inr (False, s, b') | Some v \<Rightarrow> Inr (True, upd s v, b'))"

definition item_value ::
  "(buf \<Rightarrow> ('v option \<times> buf) result) \<Rightarrow> ('s \<Rightarrow> 'v \<Rightarrow> 's) \<Rightarrow> 's \<Rightarrow> buf \<Rightarrow> (bool \<times> 's \<times> buf) result" where
  "item_value BDecode upd s b = bindE (BDecode b) (\<lambda>(r, b'). case r of
       None \<Rightarrow> Inr (False, s, b') | Some v \<Rightarrow> Inr (True, upd s v, b'))"

text \<open>A string that has to pass a test, or an integer that has to.\<close>

definition string_value ::
  "(byte list \<Rightarrow> bool) \<Rightarrow> ('s \<Rightarrow> byte list \<Rightarrow> 's) \<Rightarrow> 's \<Rightarrow> buf \<Rightarrow> (bool \<times> 's \<times> buf) result" where
  "string_value test upd s b = bindE (bencode_read_string b) (\<lambda>(r, b'). case r of
       None \<Rightarrow> Inr (False, s, b')
     | Some str \<Rightarrow> if test (mem str) then Inr (True, upd s (mem str), b') else Inr (False, s, b'))"

definition checked_int ::
  "(u64 \<Rightarrow> bool) \<Rightarrow> ('s \<Rightarrow> u64 \<Rightarrow> 's) \<Rightarrow> 's \<Rightarrow> buf \<Rightarrow> (bool \<times> 's \<times> buf) result" where
  "checked_int test upd s b = bindE (bencode_read_integer b) (\<lambda>(r, b'). case r of
       None \<Rightarrow> Inr (False, s, b')
     | Some v \<Rightarrow> if test v then Inr (True, upd s v, b') else Inr (False, s, b'))"

definition list_value ::
  "(buf \<Rightarrow> ('v option \<times> buf) result) \<Rightarrow> ('s \<Rightarrow> 'v list) \<Rightarrow> ('s \<Rightarrow> 'v list \<Rightarrow> 's) \<Rightarrow> 's \<Rightarrow> buf
     \<Rightarrow> (bool \<times> 's \<times> buf) result" where
  "list_value BDecode get upd s b =
     bindE (BEncodeReadList BDecode (get s) b) (\<lambda>(ok, xs, b'). Inr (ok, upd s xs, b'))"

definition discard_value :: "'s \<Rightarrow> buf \<Rightarrow> (bool \<times> 's \<times> buf) result" where
  "discard_value s b = bindE (bencode_discard b) (\<lambda>(ok, b'). Inr (ok, s, b'))"

text \<open>A \<open>BDecode\<close> that is \<open>bencode_decode_dict(*this, buf)\<close>, on a fresh object.\<close>

definition decode_object ::
  "('s \<Rightarrow> buf \<Rightarrow> buf \<Rightarrow> (bool \<times> 's \<times> buf) result) \<Rightarrow> 's \<Rightarrow> buf \<Rightarrow> ('s option \<times> buf) result" where
  "decode_object DecodeKey s0 b =
     bindE (bencode_decode_dict DecodeKey s0 b) (\<lambda>(ok, s, b'). Inr (if ok then Some s else None, b'))"

section \<open>Decoding what was encoded\<close>

named_theorems fields \<open>what a field reader does on the entry it is for, and on any other\<close>

lemma startswith_key [simp]: "startswith (mk_buf [k]) [c] \<longleftrightarrow> k = c"
  by (auto simp: startswith_def view_remaining_def)

lemma field_int_other [fields]:
  "k \<noteq> c \<Longrightarrow> upd (get s) s = s \<Longrightarrow> field_int [c] cast get upd (mk_buf [k]) s rd b = Inr (True, s, rd, b)"
  by (simp add: field_int_def BEncodeMaybeReadDictInt_def)

lemma field_int_at [fields]:
  "at b (wire_uint64 v) \<Longrightarrow> field_int [k] cast get upd (mk_buf [k]) s rd b =
     Inr (True, upd (cast v) s, True, advance (length (wire_uint64 v)) b)"
  by (simp add: field_int_def BEncodeMaybeReadDictInt_def bencode_read_integer_at)

lemma field_version_other [fields]:
  "k \<noteq> c \<Longrightarrow> upd (get s) s = s \<Longrightarrow> field_version [c] e get upd (mk_buf [k]) s rd b = Inr (True, s, rd, b)"
  by (simp add: field_version_def BEncodeMaybeVerifyVersion_def)

lemma field_version_at [fields]:
  "at b (wire_uint64 v) \<Longrightarrow> field_version [k] e get upd (mk_buf [k]) s rd b =
     Inr (True, upd v s, v = e, advance (length (wire_uint64 v)) b)"
  by (simp add: field_version_def BEncodeMaybeVerifyVersion_def bencode_read_integer_at)

lemma field_entry_other [fields]:
  "k \<noteq> c \<Longrightarrow> upd (get s) s = s \<Longrightarrow> field_entry [c] dec get upd (mk_buf [k]) s rd b = Inr (True, s, rd, b)"
  by (simp add: field_entry_def BEncodeMaybeReadDictEntry_def)

lemma field_entry_at:
  "dec b = Inr (Some v, b') \<Longrightarrow> field_entry [k] dec get upd (mk_buf [k]) s rd b = Inr (True, upd v s, True, b')"
  by (simp add: field_entry_def BEncodeMaybeReadDictEntry_def)

lemma field_list_other [fields]:
  "k \<noteq> c \<Longrightarrow> upd (get s) s = s \<Longrightarrow> field_list [c] dec get upd (mk_buf [k]) s rd b = Inr (True, s, rd, b)"
  by (simp add: field_list_def BEncodeMaybeReadDictList_def)

lemma field_list_at:
  "BEncodeReadList dec (get s) b = Inr (True, vs, b') \<Longrightarrow>
     field_list [k] dec get upd (mk_buf [k]) s rd b = Inr (True, upd vs s, True, b')"
  by (simp add: field_list_def BEncodeMaybeReadDictList_def)

lemma int_value_at [fields]:
  "at b (wire_uint64 v) \<Longrightarrow> int_value upd s b = Inr (True, upd s v, advance (length (wire_uint64 v)) b)"
  by (simp add: int_value_def bencode_read_integer_at)

lemma checked_int_at [fields]:
  "at b (wire_uint64 v) \<Longrightarrow> test v \<Longrightarrow>
     checked_int test upd s b = Inr (True, upd s v, advance (length (wire_uint64 v)) b)"
  by (simp add: checked_int_def bencode_read_integer_at)

lemma string_value_at [fields]:
  "at b (wire_bytestring bs) \<Longrightarrow> str_ok bs \<Longrightarrow> test bs \<Longrightarrow>
     string_value test upd s b = Inr (True, upd s bs, advance (length (wire_bytestring bs)) b)"
  by (simp add: string_value_def bencode_read_string_at)

lemma item_value_at: "dec b = Inr (Some v, b') \<Longrightarrow> item_value dec upd s b = Inr (True, upd s v, b')"
  by (simp add: item_value_def)

lemma list_value_at:
  "BEncodeReadList dec (get s) b = Inr (True, vs, b') \<Longrightarrow> list_value dec get upd s b = Inr (True, upd s vs, b')"
  by (simp add: list_value_def)

lemma ends_at [fields]:
  "return_read s rd b = Inr (rd, s, b)" "read_or_discard s True b = Inr (True, s, b)"
  by (simp_all add: return_read_def read_or_discard_def)

fun decodes ::
  "('s \<Rightarrow> buf \<Rightarrow> buf \<Rightarrow> (bool \<times> 's \<times> buf) result) \<Rightarrow> 's \<Rightarrow> (byte \<times> byte list) list \<Rightarrow> 's \<Rightarrow> bool" where
  "decodes D s [] s' \<longleftrightarrow> s = s'"
| "decodes D s ((k, bs) # es) s' \<longleftrightarrow>
     (\<exists>s1. (\<forall>b. at b bs \<longrightarrow> D s (mk_buf [k]) b = Inr (True, s1, advance (length bs) b)) \<and>
           decodes D s1 es s')"

lemma decodes_Cons:
  "(\<And>b. at b bs \<Longrightarrow> D s (mk_buf [k]) b = Inr (True, s1, advance (length bs) b)) \<Longrightarrow>
     decodes D s1 es s' \<Longrightarrow> decodes D s ((k, bs) # es) s'"
  by auto

lemma decodes_append: "decodes D s es s1 \<Longrightarrow> decodes D s1 es' s' \<Longrightarrow> decodes D s (es @ es') s'"
  by (induction es arbitrary: s) (auto, blast)

lemma decodes_Nil: "s = s' \<Longrightarrow> decodes D s [] s'"
  by simp

lemma decodes_opt:
  "(\<And>b. c \<Longrightarrow> at b bs \<Longrightarrow> D s (mk_buf [k]) b = Inr (True, s1, advance (length bs) b)) \<Longrightarrow>
     decodes D (if c then s1 else s) es s' \<Longrightarrow> decodes D s ((if c then [(k, bs)] else []) @ es) s'"
  by auto

lemma decodes_case:
  "(\<And>v b. o' = Some v \<Longrightarrow> at b (w v) \<Longrightarrow> D s (mk_buf [k]) b = Inr (True, f v, advance (length (w v)) b)) \<Longrightarrow>
     decodes D (case o' of None \<Rightarrow> s | Some v \<Rightarrow> f v) es s' \<Longrightarrow>
     decodes D s ((case o' of None \<Rightarrow> [] | Some v \<Rightarrow> [(k, w v)]) @ es) s'"
  by (cases o') auto

text \<open>A sink that handles the keys this way is called once more, without a key, at the end.\<close>

lemma decodes_loop:
  assumes "decodes (\<lambda>s k b. sink s b (Some k)) s es s'"
    and "at b (concat (map (\<lambda>(k, bs). wire_entry k bs) es) @ [ch_e])" and "length es < fuel"
  shows "read_dict_loop fuel sink s b =
    sink s' (advance (Suc (length (concat (map (\<lambda>(k, bs). wire_entry k bs) es)))) b) None"
  using assms
proof (induction es arbitrary: s b fuel)
  case Nil
  then obtain f where "fuel = Suc f" by (cases fuel) auto
  then show ?case using Nil at_ConsD [of b ch_e "[]"] by (simp add: read_dict_end_def)
next
  case (Cons e es)
  obtain k bs where e: "e = (k, bs)" by (cases e)
  obtain s1 where s1: "\<And>b. at b bs \<Longrightarrow> sink s b (Some (mk_buf [k])) = Inr (True, s1, advance (length bs) b)"
    "decodes (\<lambda>s k b. sink s b (Some k)) s1 es s'" using Cons.prems(1) e by auto
  obtain f where f: "fuel = Suc f" using Cons.prems(3) by (cases fuel) auto
  let ?rest = "concat (map (\<lambda>(k, bs). wire_entry k bs) es) @ [ch_e]"
  have "at b (wire_bytestring [k] @ (bs @ ?rest))"
    using Cons.prems(2) e by (simp add: wire_entry_def)
  note c = at_chunk [OF this wire_bytestring_nonempty]
  have "hd (wire_bytestring [k]) \<noteq> ch_e"
    using isdigit_not_delim [OF hd_wire_bytestring] by blast
  moreover have "bencode_read_string b = Inr (Some (mk_buf [k]), advance (length (wire_bytestring [k])) b)"
    by (rule bencode_read_string_at [OF c(3)]) (simp add: str_ok_def)
  moreover note bs = at_appendD [OF c(4)]
  ultimately show ?case
    using c(1,2) f s1(1) [OF conjunct1 [OF bs]] Cons.IH [OF s1(2) conjunct2 [OF bs], of f] Cons.prems(3) e
    by (simp add: wire_entry_def ac_simps)
qed

lemma decodes_read_dict:
  assumes "decodes (\<lambda>s k b. sink s b (Some k)) s es s'" and "at b (wire_msg es)"
  shows "bencode_read_dict sink s b = sink s' (advance (length (wire_msg es)) b) None"
proof -
  have a: "at b (ch_d # (concat (map (\<lambda>(k, bs). wire_entry k bs) es) @ [ch_e]))"
    using assms(2) by (simp add: wire_msg_def)
  note c = at_ConsD [OF a]
  have "length es \<le> length (concat (map (\<lambda>(k, bs). wire_entry k bs) es))"
    by (rule length_concat_ge) (auto simp: wire_entry_def)
  then have "length es + 2 \<le> size_left b" using at_length [OF a] by simp
  then show ?thesis
    using c(1) decodes_loop [OF assms(1) c(3), of "Suc (size_left b)"]
    by (simp add: bencode_read_dict_def read_dict_fuel_def wire_msg_def)
qed

lemma decodes_dict:
  assumes "decodes D s es s'" and "at b (wire_msg es)"
  shows "bencode_decode_dict D s b = Inr (True, s', advance (length (wire_msg es)) b)"
  using decodes_read_dict [of "\<lambda>s b key. case key of None \<Rightarrow> Inr (True, s, b) | Some k \<Rightarrow> D s k b"] assms
  by (simp add: bencode_decode_dict_def)

declare decodes.simps [simp del]

lemma decodes_object:
  "decodes D s es s' \<Longrightarrow> at b (wire_msg es) \<Longrightarrow>
     decode_object D s b = Inr (Some s', advance (length (wire_msg es)) b)"
  by (simp add: decode_object_def decodes_dict)


lemma discard_value_at: "at b (wire_bval v) \<Longrightarrow> bval_ok v \<Longrightarrow>
    discard_value s b = Inr (True, s, advance (length (wire_bval v)) b)"
  by (simp add: discard_value_def bencode_discard_at)

section \<open>The contract of a message class\<close>

text \<open>
  What a message class provides: its \<open>BEncode\<close> writes the dictionary of its entries, and its
  \<open>DecodeKey\<close>, started on a fresh object, turns these entries into the message.  Such a message is an
  item in the sense of \<open>bencodable\<close>, so it can be read back, alone or in lists.
\<close>

locale message_codec =
  fixes enc :: "'m \<Rightarrow> writer"
    and D :: "'m \<Rightarrow> buf \<Rightarrow> buf \<Rightarrow> (bool \<times> 'm \<times> buf) result"
    and s0 :: 'm
    and entries :: "'m \<Rightarrow> (byte \<times> byte list) list"
    and valid :: "'m \<Rightarrow> bool"
  assumes enc_writes: "valid x \<Longrightarrow> writes (enc x) (wire_msg (entries x))"
    and key_decodes: "valid x \<Longrightarrow> decodes D s0 (entries x) x"

sublocale message_codec \<subseteq> bencodable enc "decode_object D s0" "\<lambda>x. wire_msg (entries x)" valid
proof unfold_locales
  fix b b' x
  assume v: "valid x"
  show "buf_ok b \<Longrightarrow> enc x b = (True, b') \<Longrightarrow> wrote (wire_msg (entries x)) b b'"
    using writesD(1) [OF enc_writes [OF v]] by blast
  show "buf_ok b \<Longrightarrow> length (wire_msg (entries x)) \<le> size_left b \<Longrightarrow> \<exists>b'. enc x b = (True, b')"
    using writesD(2) [OF enc_writes [OF v]] by blast
  show "at b (wire_msg (entries x)) \<Longrightarrow>
      decode_object D s0 b = Inr (Some x, advance (length (wire_msg (entries x))) b)"
    by (rule decodes_object [OF key_decodes [OF v]])
  show "wire_msg (entries x) \<noteq> [] \<and> hd (wire_msg (entries x)) \<noteq> ch_e"
    by simp
qed

section \<open>Decoding any bytes\<close>

text \<open>
  Decoders that are safe on arbitrary input: they return, further on in the same buffer, or read out
  of bounds (the reader of integers and the end of a dictionary do, see \<open>Bencode_Values\<close>); on success
  they have moved.
\<close>

definition safe_dec :: "(buf \<Rightarrow> ('v option \<times> buf) result) \<Rightarrow> bool" where
  "safe_dec dec \<longleftrightarrow> (\<forall>b. buf_ok b \<longrightarrow> (case dec b of
       Inl e \<Rightarrow> e = Out_Of_Bounds
     | Inr (r, b') \<Rightarrow> fwd b b' \<and> (r \<noteq> None \<longrightarrow> cur b < cur b')))"

definition safe_key :: "('s \<Rightarrow> buf \<Rightarrow> buf \<Rightarrow> (bool \<times> 's \<times> buf) result) \<Rightarrow> bool" where
  "safe_key D \<longleftrightarrow> (\<forall>s k b. buf_ok b \<longrightarrow> ends {Out_Of_Bounds} b (D s k b))"

definition safe_value :: "('s \<Rightarrow> buf \<Rightarrow> (bool \<times> 's \<times> buf) result) \<Rightarrow> bool" where
  "safe_value f \<longleftrightarrow> (\<forall>s b. buf_ok b \<longrightarrow> ends {Out_Of_Bounds} b (f s b))"

definition safe_field :: "'s field \<Rightarrow> bool" where
  "safe_field f \<longleftrightarrow> (\<forall>key s rd b. buf_ok b \<longrightarrow> (case f key s rd b of
       Inl e \<Rightarrow> e = Out_Of_Bounds
     | Inr (ok, s', rd', b') \<Rightarrow> fwd b b'))"

named_theorems safe \<open>decoders that are safe on every input\<close>

lemma safe_decD:
  assumes "safe_dec dec" and "buf_ok b"
  shows "dec b = Inl e \<Longrightarrow> e = Out_Of_Bounds"
    and "dec b = Inr (r, b') \<Longrightarrow> fwd b b' \<and> (r \<noteq> None \<longrightarrow> cur b < cur b')"
  using assms unfolding safe_dec_def by (fastforce split: sum.splits)+

lemma bencode_read_integer_ends:
  assumes "buf_ok b"
  shows "(\<exists>e. bencode_read_integer b = Inl e \<and> e = Out_Of_Bounds) \<or>
    (\<exists>r b'. bencode_read_integer b = Inr (r, b') \<and> fwd b b' \<and> (r \<noteq> None \<longrightarrow> cur b < cur b'))"
proof (cases "0 < size_left b")
  case True
  then show ?thesis using bencode_read_integer_safe [OF assms] by blast
next
  case False
  then have "deref b = Inl Out_Of_Bounds" by (simp add: deref_def size_left_pos)
  then show ?thesis by (simp add: bencode_read_integer_def)
qed

lemma safe_read_integer [safe]: "safe_dec bencode_read_integer"
  unfolding safe_dec_def using bencode_read_integer_ends by fastforce

lemma safe_read_string [safe]: "safe_dec bencode_read_string"
  unfolding safe_dec_def using bencode_read_string_safe by fastforce

lemma safe_aligned [safe]: "safe_dec (aligned_BDecode n)"
  unfolding safe_dec_def
proof (intro allI impI)
  fix b assume "buf_ok b"
  from bencode_read_string_safe [OF this]
  show "case aligned_BDecode n b of Inl e \<Rightarrow> e = Out_Of_Bounds
      | Inr (r, b') \<Rightarrow> fwd b b' \<and> (r \<noteq> None \<longrightarrow> cur b < cur b')"
    by (auto simp: aligned_BDecode_def split: option.splits)
qed

lemma safe_discard: "buf_ok b \<Longrightarrow> (case bencode_discard b of Inl e \<Rightarrow> e = Out_Of_Bounds | Inr (ok, b') \<Rightarrow> fwd b b')"
proof -
  assume "buf_ok b"
  from discard_fuel_ends [OF this, of "Suc (size_left b)"]
  have "ends {Out_Of_Bounds} b (discard_unit (Suc (size_left b)) b)" by blast
  then show ?thesis
    unfolding bencode_discard_def
    by (cases "discard_fuel (Suc (size_left b)) b") (auto simp del: discard_fuel.simps)
qed

lemma safe_object [safe]:
  assumes "safe_key D"
  shows "safe_dec (decode_object D s0)"
  unfolding safe_dec_def
proof (intro allI impI)
  fix b assume ok: "buf_ok b"
  let ?sink = "\<lambda>s b key. case key of None \<Rightarrow> Inr (True, s, b) | Some k \<Rightarrow> D s k b"
  have k: "ends {Out_Of_Bounds} b' (?sink s b' (Some k))" if "fwd b b'" for s k b'
    using assms fwd_ok [OF that] by (simp add: safe_key_def)
  have "ends {Out_Of_Bounds} b (read_dict_fuel (Suc (size_left b)) ?sink s0 b)"
    and "moves b (read_dict_fuel (Suc (size_left b)) ?sink s0 b)"
    by (rule read_dict_fuel_ends [OF ok]; use k fwd_ok fwd_refl in auto)+
  then show "case decode_object D s0 b of Inl e \<Rightarrow> e = Out_Of_Bounds
      | Inr (r, b') \<Rightarrow> fwd b b' \<and> (r \<noteq> None \<longrightarrow> cur b < cur b')"
    by (auto simp: decode_object_def bencode_decode_dict_def bencode_read_dict_def ends_def moves_def
        split: sum.splits bindE_splits)
qed

lemma safe_read_list:
  assumes "safe_dec dec" and ok: "buf_ok b"
  shows "ends {Out_Of_Bounds} b (BEncodeReadList dec acc b)"
proof -
  let ?sink = "\<lambda>acc b has. if has then bindE (dec b) (\<lambda>(r, b'). case r of
      None \<Rightarrow> Inr (False, acc, b') | Some x \<Rightarrow> Inr (True, acc @ [x], b')) else Inr (True, acc, b)"
  have s: "ends {Out_Of_Bounds} b' (?sink s b' True) \<and> moves b' (?sink s b' True)" if "fwd b b'" for s b'
    using safe_decD [OF assms(1) fwd_ok [OF that]]
    by (auto split: bindE_splits option.splits)
  show ?thesis
    unfolding BEncodeReadList_def bencode_read_list_def
    by (rule read_list_fuel_ends [OF ok]; use s fwd_ok fwd_refl in auto)
qed

lemma safe_field_int [safe]: "safe_field (field_int k cast get upd)"
  unfolding safe_field_def
proof (intro allI impI)
  fix key s rd b assume ok: "buf_ok (b :: buf)"
  show "case field_int k cast get upd key s rd b of Inl e \<Rightarrow> e = Out_Of_Bounds
      | Inr (ok, s', rd', b') \<Rightarrow> fwd b b'"
    using bencode_read_integer_ends [OF ok] fwd_refl [OF ok]
    by (auto simp: field_int_def BEncodeMaybeReadDictInt_def split: option.splits)
qed

lemma safe_field_version [safe]: "safe_field (field_version k e get upd)"
  unfolding safe_field_def
proof (intro allI impI)
  fix key s rd b assume ok: "buf_ok (b :: buf)"
  show "case field_version k e get upd key s rd b of Inl e \<Rightarrow> e = Out_Of_Bounds
      | Inr (ok, s', rd', b') \<Rightarrow> fwd b b'"
    using bencode_read_integer_ends [OF ok] fwd_refl [OF ok]
    by (auto simp: field_version_def BEncodeMaybeVerifyVersion_def split: option.splits)
qed

lemma safe_field_entry [safe]:
  assumes "safe_dec dec"
  shows "safe_field (field_entry k dec get upd)"
  unfolding safe_field_def
proof (intro allI impI)
  fix key s rd b assume ok: "buf_ok (b :: buf)"
  show "case field_entry k dec get upd key s rd b of Inl e \<Rightarrow> e = Out_Of_Bounds
      | Inr (ok, s', rd', b') \<Rightarrow> fwd b b'"
    using safe_decD [OF assms ok] fwd_refl [OF ok]
    by (auto simp: field_entry_def BEncodeMaybeReadDictEntry_def split: option.splits sum.splits bindE_splits)
qed

lemma safe_field_list [safe]:
  assumes "safe_dec dec"
  shows "safe_field (field_list k dec get upd)"
  unfolding safe_field_def
proof (intro allI impI)
  fix key s rd b assume ok: "buf_ok (b :: buf)"
  show "case field_list k dec get upd key s rd b of Inl e \<Rightarrow> e = Out_Of_Bounds
      | Inr (ok, s', rd', b') \<Rightarrow> fwd b b'"
    using safe_read_list [OF assms ok, of "get s"] fwd_refl [OF ok]
    by (auto simp: field_list_def BEncodeMaybeReadDictList_def ends_def split: sum.splits bindE_splits if_splits)
qed

lemma safe_fieldD:
  assumes "safe_field f" and "buf_ok b"
  shows "f key s rd b = Inl e \<Longrightarrow> e = Out_Of_Bounds"
    and "f key s rd b = Inr (ok, s', rd', b') \<Longrightarrow> fwd b b'"
proof -
  have "case f key s rd b of Inl e \<Rightarrow> e = Out_Of_Bounds | Inr (ok, s', rd', b') \<Rightarrow> fwd b b'"
    using assms unfolding safe_field_def by blast
  then show "f key s rd b = Inl e \<Longrightarrow> e = Out_Of_Bounds"
    and "f key s rd b = Inr (ok, s', rd', b') \<Longrightarrow> fwd b b'" by simp_all
qed

definition safe_end :: "'s key_end \<Rightarrow> bool" where
  "safe_end fin \<longleftrightarrow> (\<forall>s rd b. buf_ok b \<longrightarrow> ends {Out_Of_Bounds} b (fin s rd b))"

fun safe_step :: "'s step \<Rightarrow> bool" where
  "safe_step (Field f) = safe_field f"
| "safe_step (Return_On k v) = safe_value v"

lemma safe_discard_value [safe]: "safe_value discard_value"
  unfolding safe_value_def
proof (intro allI impI)
  fix s b assume "buf_ok (b :: buf)"
  from safe_discard [OF this] show "ends {Out_Of_Bounds} b (discard_value s b)"
    by (cases "bencode_discard b") (auto simp: discard_value_def)
qed

lemma safe_ends [safe]: "safe_end return_read" "safe_end return_false" "safe_end read_or_discard"
  using safe_discard_value
  by (auto simp: safe_end_def return_read_def return_false_def read_or_discard_def fwd_refl
      safe_value_def discard_value_def)

lemma run_steps_ends:
  "list_all safe_step st \<Longrightarrow> safe_end fin \<Longrightarrow> buf_ok b \<Longrightarrow> ends {Out_Of_Bounds} b (run_steps st fin key s rd b)"
proof (induction st arbitrary: s rd b)
  case Nil
  then show ?case by (simp add: safe_end_def)
next
  case (Cons x st)
  show ?case
  proof (cases x)
    case (Field f)
    then have f: "safe_field f" using Cons.prems(1) by simp
    show ?thesis
    proof (cases "f key s rd b")
      case (Inl e)
      then show ?thesis using safe_fieldD(1) [OF f Cons.prems(3) Inl] Field by simp
    next
      case (Inr r)
      obtain ok1 s1 rd1 b1 where r: "r = (ok1, s1, rd1, b1)" by (cases r)
      have fw: "fwd b b1" using safe_fieldD(2) [OF f Cons.prems(3)] Inr r by blast
      then have "ends {Out_Of_Bounds} b (run_steps st fin key s1 rd1 b1)"
        using Cons fwd_ok by (intro ends_fwd [OF fw]) simp
      then show ?thesis using Inr r fw Field by simp
    qed
  next
    case (Return_On k v)
    then show ?thesis using Cons by (simp add: safe_value_def)
  qed
qed

lemma safe_decode_key [safe]: "list_all safe_step st \<Longrightarrow> safe_end fin \<Longrightarrow> safe_key (decode_key st fin)"
  using run_steps_ends by (auto simp: safe_key_def decode_key_def)

lemma safe_item_value [safe]:
  assumes "safe_dec dec"
  shows "safe_value (item_value dec upd)"
  unfolding safe_value_def
proof (intro allI impI)
  fix s b assume ok: "buf_ok (b :: buf)"
  show "ends {Out_Of_Bounds} b (item_value dec upd s b)"
  proof (cases "dec b")
    case (Inl e)
    then show ?thesis using safe_decD(1) [OF assms ok] by (simp add: item_value_def)
  next
    case (Inr r)
    then show ?thesis
      using safe_decD(2) [OF assms ok] by (cases r) (auto simp: item_value_def split: option.splits)
  qed
qed

lemma safe_int_value [safe]: "safe_value (int_value upd)"
  using safe_item_value [OF safe_read_integer, of upd] by (simp add: safe_value_def item_value_def int_value_def)

lemma safe_string_value [safe]: "safe_value (string_value test upd)"
  unfolding safe_value_def
proof (intro allI impI)
  fix s b assume "buf_ok (b :: buf)"
  from bencode_read_string_safe [OF this] show "ends {Out_Of_Bounds} b (string_value test upd s b)"
    by (auto simp: string_value_def split: option.splits)
qed

lemma safe_checked_int [safe]: "safe_value (checked_int test upd)"
  unfolding safe_value_def
proof (intro allI impI)
  fix s b assume "buf_ok (b :: buf)"
  from bencode_read_integer_ends [OF this] show "ends {Out_Of_Bounds} b (checked_int test upd s b)"
    by (auto simp: checked_int_def split: option.splits)
qed

lemma safe_list_value [safe]:
  assumes "safe_dec dec"
  shows "safe_value (list_value dec get upd)"
  unfolding safe_value_def
proof (intro allI impI)
  fix s b assume ok: "buf_ok (b :: buf)"
  show "ends {Out_Of_Bounds} b (list_value dec get upd s b)"
    using safe_read_list [OF assms ok, of "get s"]
    by (cases "BEncodeReadList dec (get s) b") (auto simp: list_value_def)
qed

end
