(* ===== verification/Ordered_Map.thy ===== *)
theory Ordered_Map
  imports Llarp_Prelude
begin

text \<open>
  \<open>std::map\<close> with a comparator, as the sources use it: the entries in iteration order.  Two keys are
  the same to the map when neither is less than the other.  The laws are proved once, in the locale
  of strict linear orders on the admissible keys.
\<close>

fun omap_find :: "('k \<Rightarrow> 'k \<Rightarrow> bool) \<Rightarrow> 'k \<Rightarrow> ('k \<times> 'v) list \<Rightarrow> 'v option" where
  "omap_find lt k [] = None"
| "omap_find lt k ((k', v) # m) = (if \<not> lt k k' \<and> \<not> lt k' k then Some v else omap_find lt k m)"

text \<open>\<open>m[k] = v\<close>.\<close>

fun omap_put :: "('k \<Rightarrow> 'k \<Rightarrow> bool) \<Rightarrow> 'k \<Rightarrow> 'v \<Rightarrow> ('k \<times> 'v) list \<Rightarrow> ('k \<times> 'v) list" where
  "omap_put lt k v [] = [(k, v)]"
| "omap_put lt k v ((k', v') # m) =
     (if lt k k' then (k, v) # (k', v') # m
      else if lt k' k then (k', v') # omap_put lt k v m
      else (k', v) # m)"

text \<open>\<open>m.erase(m.find(k))\<close>, where \<open>k\<close> is there.\<close>

fun omap_erase :: "('k \<Rightarrow> 'k \<Rightarrow> bool) \<Rightarrow> 'k \<Rightarrow> ('k \<times> 'v) list \<Rightarrow> ('k \<times> 'v) list" where
  "omap_erase lt k [] = []"
| "omap_erase lt k ((k', v) # m) = (if \<not> lt k k' \<and> \<not> lt k' k then m else (k', v) # omap_erase lt k m)"

locale map_order =
  fixes lt :: "'k \<Rightarrow> 'k \<Rightarrow> bool" and dom_key :: "'k \<Rightarrow> bool"
  assumes irrefl: "\<not> lt a a"
    and trans: "lt a b \<Longrightarrow> lt b c \<Longrightarrow> lt a c"
    and total: "dom_key a \<Longrightarrow> dom_key b \<Longrightarrow> \<not> lt a b \<Longrightarrow> \<not> lt b a \<Longrightarrow> a = b"
begin

definition ok :: "('k \<times> 'v) list \<Rightarrow> bool" where
  "ok m \<longleftrightarrow> sorted_wrt (\<lambda>x y. lt (fst x) (fst y)) m \<and> (\<forall>k \<in> fst ` set m. dom_key k)"

lemma ok_Nil [simp]: "ok []"
  by (simp add: ok_def)

lemma ok_Cons: "ok ((k, v) # m) \<longleftrightarrow> dom_key k \<and> (\<forall>k' \<in> fst ` set m. lt k k') \<and> ok m"
  by (auto simp: ok_def)

lemma ok_distinct: "ok m \<Longrightarrow> distinct (map fst m)"
proof (induction m)
  case (Cons e m)
  then have "fst e \<notin> fst ` set m" using irrefl by (cases e) (force simp: ok_Cons)
  then show ?case using Cons by (cases e) (simp add: ok_Cons)
qed simp

lemma same_iff: "dom_key a \<Longrightarrow> dom_key b \<Longrightarrow> (\<not> lt a b \<and> \<not> lt b a) \<longleftrightarrow> a = b"
  using total irrefl by blast

lemma find_map_of: "ok m \<Longrightarrow> dom_key k \<Longrightarrow> omap_find lt k m = map_of m k"
  by (induction m) (auto simp: ok_Cons irrefl dest: total)

lemma keys_put: "ok m \<Longrightarrow> dom_key k \<Longrightarrow> fst ` set (omap_put lt k v m) = insert k (fst ` set m)"
proof (induction m)
  case (Cons e m)
  obtain k' v' where e: "e = (k', v')" by (cases e)
  show ?case using Cons e total [of k k'] by (cases "k = k'") (auto simp: ok_Cons irrefl)
qed simp

lemma ok_put:
  assumes "ok m" and "dom_key k"
  shows "ok (omap_put lt k v m)"
  using assms
proof (induction m)
  case Nil
  then show ?case by (simp add: ok_Cons)
next
  case (Cons e m)
  obtain k' v' where e: "e = (k', v')" by (cases e)
  consider "lt k k'" | "\<not> lt k k'" "lt k' k" | "\<not> lt k k'" "\<not> lt k' k" by blast
  then show ?case
  proof cases
    case 1
    then show ?thesis using Cons.prems e by (auto simp: ok_Cons intro: trans)
  next
    case 2
    then show ?thesis
      using Cons e keys_put [of m k v] by (auto simp: ok_Cons)
  next
    case 3
    then show ?thesis using Cons.prems e by (auto simp: ok_Cons)
  qed
qed

lemma map_of_put: "ok m \<Longrightarrow> dom_key k \<Longrightarrow> map_of (omap_put lt k v m) = (map_of m)(k \<mapsto> v)"
  by (induction m) (auto simp: ok_Cons fun_eq_iff irrefl dest: total)

lemma erase_filter: "ok m \<Longrightarrow> dom_key k \<Longrightarrow> omap_erase lt k m = filter (\<lambda>x. fst x \<noteq> k) m"
proof (induction m)
  case Nil
  then show ?case by simp
next
  case (Cons e m)
  obtain k' v' where e: "e = (k', v')" by (cases e)
  show ?case
  proof (cases "k' = k")
    case True
    then have "filter (\<lambda>x. fst x \<noteq> k) m = m"
      using Cons.prems e irrefl by (auto simp: ok_Cons intro!: filter_True)
    then show ?thesis using True e irrefl by simp
  next
    case False
    then show ?thesis using Cons e total by (auto simp: ok_Cons)
  qed
qed

lemma ok_filter: "ok m \<Longrightarrow> ok (filter P m)"
  by (auto simp: ok_def intro: sorted_wrt_filter)

lemma map_of_filter_key: "map_of (filter (\<lambda>x. P (fst x)) m) = (\<lambda>k. if P k then map_of m k else None)"
  by (induction m) (auto simp: fun_eq_iff)

lemma ok_erase: "ok m \<Longrightarrow> dom_key k \<Longrightarrow> ok (omap_erase lt k m)"
  by (simp add: erase_filter ok_filter)

lemma map_of_erase: "ok m \<Longrightarrow> dom_key k \<Longrightarrow> map_of (omap_erase lt k m) = (map_of m)(k := None)"
  using map_of_filter_key [of "\<lambda>x. x \<noteq> k" m] by (auto simp: erase_filter fun_eq_iff)

end

end
