(* ===== verification/Dht_Key.thy ===== *)
theory Dht_Key
  imports Ordered_Map "HOL-Library.List_Lexorder"
begin

text \<open>
  The 32-byte keys of the distributed hash table (\<open>llarp/util/aligned.hpp\<close>, \<open>llarp/dht/key.hpp\<close>,
  \<open>kademlia.hpp\<close>).  A key is the list of its bytes; keys are compared byte by byte from the first, as
  \<open>std::array\<close> compares.
\<close>

type_synonym key = "byte list"

definition key_ok :: "key \<Rightarrow> bool" where
  "key_ok k \<longleftrightarrow> length k = 32"

definition key_xor :: "key \<Rightarrow> key \<Rightarrow> key" where
  "key_xor a b = map2 (XOR) a b"

definition IsZero :: "byte list \<Rightarrow> bool" where
  "IsZero bs \<longleftrightarrow> list_all (\<lambda>c. c = 0) bs"

definition Fill :: "byte \<Rightarrow> key" where
  "Fill ch = replicate 32 ch"

definition zero_key :: key where
  "zero_key = replicate 32 0"

definition XorMetric :: "key \<Rightarrow> key \<Rightarrow> key \<Rightarrow> bool" where
  "XorMetric us left right \<longleftrightarrow> key_xor us left < key_xor us right"

lemma length_key_xor [simp]: "length (key_xor a b) = min (length a) (length b)"
  by (simp add: key_xor_def)

lemma key_xor_Nil [simp]: "key_xor [] b = []" "key_xor a [] = []"
  by (simp_all add: key_xor_def)

lemma key_xor_Cons [simp]: "key_xor (x # a) (y # b) = (x XOR y) # key_xor a b"
  by (simp add: key_xor_def)

lemma key_xor_commute: "key_xor a b = key_xor b a"
  by (induction a arbitrary: b; case_tac b) (simp_all add: xor.commute)

lemma key_xor_self_left: "length a = length b \<Longrightarrow> key_xor a (key_xor a b) = b"
  by (induction a b rule: list_induct2) (simp_all add: xor.assoc [symmetric])

lemma key_xor_inj:
  assumes "length a = length b" and "length a = length c" and eq: "key_xor a b = key_xor a c"
  shows "b = c"
proof -
  have "b = key_xor a (key_xor a b)" using key_xor_self_left [OF assms(1)] by (rule sym)
  also have "\<dots> = key_xor a (key_xor a c)" by (simp only: eq)
  also have "\<dots> = c" by (rule key_xor_self_left [OF assms(2)])
  finally show ?thesis .
qed

lemma byte_xor_zero:
  assumes "(x :: byte) XOR y = 0"
  shows "x = y"
proof -
  have "y = (x XOR x) XOR y" by simp
  also have "\<dots> = x XOR (x XOR y)" by (simp only: xor.assoc)
  also have "\<dots> = x" by (simp only: assms xor.right_neutral)
  finally show ?thesis by (rule sym)
qed

lemma key_xor_zero_iff: "length a = length b \<Longrightarrow> IsZero (key_xor a b) \<longleftrightarrow> a = b"
  by (induction a b rule: list_induct2) (auto simp: IsZero_def dest: byte_xor_zero)

lemma IsZero_replicate: "IsZero bs \<longleftrightarrow> bs = replicate (length bs) 0"
  by (induction bs) (auto simp: IsZero_def)

lemma IsZero_least: "length z = length a \<Longrightarrow> IsZero z \<Longrightarrow> z \<le> a"
proof (induction z a rule: list_induct2)
  case (Cons x z y a)
  then have "x = 0" "IsZero z" by (simp_all add: IsZero_def)
  then show ?case using Cons by (auto simp: word_gt_0)
qed simp

lemma Fill_greatest: "length a = n \<Longrightarrow> a \<le> replicate n (255 :: byte)"
proof (induction n arbitrary: a)
  case (Suc n)
  then obtain x b where a: "a = x # b" "length b = n" by (cases a) auto
  have "(255 :: byte) = - 1" by simp
  then have "x \<le> (255 :: byte)" using word_n1_ge [of x] by (simp only:)
  then show ?case using a Suc.IH by auto
qed simp

text \<open>The comparator of the bucket is a strict linear order on the keys as long as \<open>us\<close>.\<close>

interpretation metric: map_order "XorMetric us" "\<lambda>k. length k = length us" for us
proof unfold_locales
  fix a b c
  show "\<not> XorMetric us a a" by (simp add: XorMetric_def)
  show "XorMetric us a b \<Longrightarrow> XorMetric us b c \<Longrightarrow> XorMetric us a c"
    by (auto simp: XorMetric_def)
  assume l: "length a = length us" "length b = length us" and "\<not> XorMetric us a b" "\<not> XorMetric us b a"
  then have "key_xor us a = key_xor us b" unfolding XorMetric_def by order
  then show "a = b" by (rule key_xor_inj [OF l(1) [symmetric] l(2) [symmetric]])
qed

end
