(* ===== verification/Intro_Set.thy ===== *)
theory Intro_Set
  imports Dict_Codec Dht_Key
begin

text \<open>
  Introductions and the encrypted introduction sets that hidden services publish
  (\<open>llarp/service/intro.cpp\<close>, \<open>intro_set.cpp\<close>).  Signing and checking a signature are parameters: they
  are done by the cryptography library.
\<close>

section \<open>Times on the wire\<close>

text \<open>A time is written as the unsigned 64 bit pattern of its count and converted back on reading.\<close>

definition time_count :: "llarp_time_t \<Rightarrow> u64" where
  "time_count t = word_of_int t"

definition time_of_count :: "u64 \<Rightarrow> llarp_time_t" where
  "time_of_count w = sint w"

definition time_ok :: "llarp_time_t \<Rightarrow> bool" where
  "time_ok t \<longleftrightarrow> - (2 ^ 63) \<le> t \<and> t < 2 ^ 63"

lemma time_of_count_count [simp]: "time_ok t \<Longrightarrow> time_of_count (time_count t) = t"
  by (simp add: time_ok_def time_count_def time_of_count_def signed_of_int signed_take_bit_int_eq_self)

definition default_lifetime :: llarp_time_t where
  "default_lifetime = 20 * 60 * 1000"

definition proto_version :: u64 where
  "proto_version = 0"

definition MAX_INTROSET_SIZE :: nat where
  "MAX_INTROSET_SIZE = 4096"

definition MAX_INTROSET_TIME_DELTA :: llarp_time_t where
  "MAX_INTROSET_TIME_DELTA = 10000"

section \<open>Introduction\<close>

record Introduction =
  i_router :: key
  i_pathID :: "byte list"
  i_latency :: llarp_time_t
  i_expiresAt :: llarp_time_t
  i_version :: u64

definition new_Introduction :: Introduction where
  "new_Introduction = \<lparr>i_router = zero_key, i_pathID = replicate 16 0, i_latency = 0, i_expiresAt = 0,
     i_version = proto_version\<rparr>"

definition Introduction_IsExpired :: "Introduction \<Rightarrow> llarp_time_t \<Rightarrow> bool" where
  "Introduction_IsExpired i now \<longleftrightarrow> now \<ge> i_expiresAt i"

definition Introduction_ExpiresSoon :: "Introduction \<Rightarrow> llarp_time_t \<Rightarrow> llarp_time_t \<Rightarrow> bool" where
  "Introduction_ExpiresSoon i now dlt \<longleftrightarrow> Introduction_IsExpired i (now + dlt)"

definition Introduction_BEncode :: "Introduction \<Rightarrow> writer" where
  "Introduction_BEncode i = write_msg
     ([BEncodeWriteDictEntry 107 (aligned_BEncode (i_router i))]
      @ (if i_latency i > 0 then [BEncodeWriteDictInt 108 (time_count (i_latency i))] else [])
      @ [BEncodeWriteDictEntry 112 (aligned_BEncode (i_pathID i)),
         BEncodeWriteDictInt 118 (i_version i),
         BEncodeWriteDictInt 120 (time_count (i_expiresAt i))])"

definition Introduction_DecodeKey :: "Introduction \<Rightarrow> buf \<Rightarrow> buf \<Rightarrow> (bool \<times> Introduction \<times> buf) result" where
  "Introduction_DecodeKey = decode_key
     [Field (field_entry [107] (aligned_BDecode 32) i_router (\<lambda>v. i_router_update (\<lambda>_. v))),
      Field (field_int [108] time_of_count i_latency (\<lambda>v. i_latency_update (\<lambda>_. v))),
      Field (field_entry [112] (aligned_BDecode 16) i_pathID (\<lambda>v. i_pathID_update (\<lambda>_. v))),
      Field (field_int [118] id i_version (\<lambda>v. i_version_update (\<lambda>_. v))),
      Field (field_int [120] time_of_count i_expiresAt (\<lambda>v. i_expiresAt_update (\<lambda>_. v)))] return_read"

definition Introduction_BDecode :: "buf \<Rightarrow> (Introduction option \<times> buf) result" where
  "Introduction_BDecode = decode_object Introduction_DecodeKey new_Introduction"

definition intro_entries :: "Introduction \<Rightarrow> (byte \<times> byte list) list" where
  "intro_entries i =
     [(107, wire_bytestring (i_router i))]
     @ (if i_latency i > 0 then [(108, wire_uint64 (time_count (i_latency i)))] else [])
     @ [(112, wire_bytestring (i_pathID i)), (118, wire_uint64 (i_version i)),
        (120, wire_uint64 (time_count (i_expiresAt i)))]"

definition intro_ok :: "Introduction \<Rightarrow> bool" where
  "intro_ok i \<longleftrightarrow> length (i_router i) = 32 \<and> length (i_pathID i) = 16 \<and> 0 \<le> i_latency i \<and>
     time_ok (i_latency i) \<and> time_ok (i_expiresAt i)"

lemma aligned_at: "at b (wire_bytestring bs) \<Longrightarrow> length bs = n \<Longrightarrow> n < 10 ^ 9 \<Longrightarrow>
    aligned_BDecode n b = Inr (Some bs, advance (length (wire_bytestring bs)) b)"
  using aligned_BDecode_at [of bs b] by (simp add: str_ok_def)

lemma field_aligned_at [fields]:
  "at b (wire_bytestring v) \<Longrightarrow> length v = n \<Longrightarrow> n < 10 ^ 9 \<Longrightarrow>
     field_entry [k] (aligned_BDecode n) get upd (mk_buf [k]) s rd b =
       Inr (True, upd v s, True, advance (length (wire_bytestring v)) b)"
  by (rule field_entry_at) (rule aligned_at)

lemma aligned_nonempty [simp]: "length bs = n \<Longrightarrow> 0 < n \<Longrightarrow> bs \<noteq> []"
  by auto

interpretation introduction: message_codec Introduction_BEncode Introduction_DecodeKey new_Introduction
  intro_entries intro_ok
proof unfold_locales
  fix x :: Introduction
  assume v: "intro_ok x"
  then have ne: "i_router x \<noteq> []" "i_pathID x \<noteq> []" by (auto simp: intro_ok_def)
  show "writes (Introduction_BEncode x) (wire_msg (intro_entries x))"
    unfolding Introduction_BEncode_def intro_entries_def
    by (rule writes_msg) (use ne in \<open>simp add: writers\<close>)
  show "decodes Introduction_DecodeKey new_Introduction (intro_entries x) x"
    unfolding intro_entries_def Introduction_DecodeKey_def decode_key_def append_Cons append_Nil
    by (rule decodes_Cons decodes_opt, use v in \<open>simp add: fields intro_ok_def\<close>)+
      (rule decodes_Nil, use v in \<open>cases x, auto simp: intro_ok_def new_Introduction_def\<close>)
qed

section \<open>EncryptedIntroSet\<close>

text \<open>
  \<open>topic\<close> is a member that is neither written nor read, so a decoded set never has one.
\<close>

record EncryptedIntroSet =
  derivedSigningKey :: key
  signedAt :: llarp_time_t
  introsetPayload :: "byte list"
  nounce :: "byte list"
  e_topic :: "byte list option"
  e_sig :: "byte list"

definition new_EncryptedIntroSet :: EncryptedIntroSet where
  "new_EncryptedIntroSet = \<lparr>derivedSigningKey = zero_key, signedAt = 0, introsetPayload = [],
     nounce = replicate 32 0, e_topic = None, e_sig = replicate 64 0\<rparr>"

definition EncryptedIntroSet_BEncode :: "EncryptedIntroSet \<Rightarrow> writer" where
  "EncryptedIntroSet_BEncode x = write_msg
     [BEncodeWriteDictEntry 100 (aligned_BEncode (derivedSigningKey x)),
      BEncodeWriteDictEntry 110 (aligned_BEncode (nounce x)),
      BEncodeWriteDictInt 115 (time_count (signedAt x)),
      write_entry 120 (bencode_write_bytestring (introsetPayload x)),
      BEncodeWriteDictEntry 122 (aligned_BEncode (e_sig x))]"

definition EncryptedIntroSet_DecodeKey ::
  "EncryptedIntroSet \<Rightarrow> buf \<Rightarrow> buf \<Rightarrow> (bool \<times> EncryptedIntroSet \<times> buf) result" where
  "EncryptedIntroSet_DecodeKey = decode_key
     [Return_On [120] (string_value (\<lambda>bs. \<not> length bs > MAX_INTROSET_SIZE) (\<lambda>s bs. s\<lparr>introsetPayload := bs\<rparr>)),
      Field (field_entry [100] (aligned_BDecode 32) derivedSigningKey (\<lambda>v. derivedSigningKey_update (\<lambda>_. v))),
      Field (field_entry [110] (aligned_BDecode 32) nounce (\<lambda>v. nounce_update (\<lambda>_. v))),
      Field (field_int [115] time_of_count signedAt (\<lambda>v. signedAt_update (\<lambda>_. v))),
      Field (field_entry [122] (aligned_BDecode 64) e_sig (\<lambda>v. e_sig_update (\<lambda>_. v)))] return_read"

definition EncryptedIntroSet_BDecode :: "buf \<Rightarrow> (EncryptedIntroSet option \<times> buf) result" where
  "EncryptedIntroSet_BDecode = decode_object EncryptedIntroSet_DecodeKey new_EncryptedIntroSet"

definition EncryptedIntroSet_OtherIsNewer :: "EncryptedIntroSet \<Rightarrow> EncryptedIntroSet \<Rightarrow> bool" where
  "EncryptedIntroSet_OtherIsNewer x other \<longleftrightarrow> signedAt x < signedAt other"

definition EncryptedIntroSet_IsExpired :: "EncryptedIntroSet \<Rightarrow> llarp_time_t \<Rightarrow> bool" where
  "EncryptedIntroSet_IsExpired x now \<longleftrightarrow> now \<ge> signedAt x + default_lifetime"

text \<open>The bytes that are signed: the set with a zero signature, in a buffer of a fixed size.\<close>

definition introset_signed_bytes :: "EncryptedIntroSet \<Rightarrow> byte list option" where
  "introset_signed_bytes x =
     encode_into (MAX_INTROSET_SIZE + 128) (EncryptedIntroSet_BEncode (x\<lparr>e_sig := replicate 64 0\<rparr>))"

definition EncryptedIntroSet_Sign ::
  "('sk \<Rightarrow> byte list \<Rightarrow> byte list option) \<Rightarrow> ('sk \<Rightarrow> key option) \<Rightarrow> llarp_time_t \<Rightarrow> 'sk
     \<Rightarrow> EncryptedIntroSet \<Rightarrow> bool \<times> EncryptedIntroSet" where
  "EncryptedIntroSet_Sign sign toPublic now k x =
     (let x1 = x\<lparr>signedAt := now\<rparr> in
      case toPublic k of
        None \<Rightarrow> (False, x1)
      | Some pk \<Rightarrow>
          let x2 = x1\<lparr>derivedSigningKey := pk, e_sig := replicate 64 0\<rparr> in
          case introset_signed_bytes x2 of
            None \<Rightarrow> (False, x2)
          | Some bs \<Rightarrow> (case sign k bs of None \<Rightarrow> (False, x2) | Some sg \<Rightarrow> (True, x2\<lparr>e_sig := sg\<rparr>)))"

definition EncryptedIntroSet_Verify ::
  "(key \<Rightarrow> byte list \<Rightarrow> byte list \<Rightarrow> bool) \<Rightarrow> EncryptedIntroSet \<Rightarrow> llarp_time_t \<Rightarrow> bool" where
  "EncryptedIntroSet_Verify verify x now =
     (if EncryptedIntroSet_IsExpired x now then False
      else case introset_signed_bytes x of
          None \<Rightarrow> False
        | Some bs \<Rightarrow> verify (derivedSigningKey x) bs (e_sig x))"

definition eis_entries :: "EncryptedIntroSet \<Rightarrow> (byte \<times> byte list) list" where
  "eis_entries x =
     [(100, wire_bytestring (derivedSigningKey x)), (110, wire_bytestring (nounce x)),
      (115, wire_uint64 (time_count (signedAt x))), (120, wire_bytestring (introsetPayload x)),
      (122, wire_bytestring (e_sig x))]"

definition eis_ok :: "EncryptedIntroSet \<Rightarrow> bool" where
  "eis_ok x \<longleftrightarrow> length (derivedSigningKey x) = 32 \<and> length (nounce x) = 32 \<and> length (e_sig x) = 64 \<and>
     time_ok (signedAt x) \<and> length (introsetPayload x) \<le> MAX_INTROSET_SIZE \<and> e_topic x = None"

lemma eis_writes:
  assumes "length (derivedSigningKey x) = 32" "length (nounce x) = 32" "length (e_sig x) = 64"
  shows "writes (EncryptedIntroSet_BEncode x) (wire_msg (eis_entries x))"
  unfolding EncryptedIntroSet_BEncode_def eis_entries_def
  by (rule writes_msg) (use assms in \<open>auto simp: writers\<close>)

interpretation introset: message_codec EncryptedIntroSet_BEncode EncryptedIntroSet_DecodeKey
  new_EncryptedIntroSet eis_entries eis_ok
proof unfold_locales
  fix x :: EncryptedIntroSet
  assume v: "eis_ok x"
  show "writes (EncryptedIntroSet_BEncode x) (wire_msg (eis_entries x))"
    using v by (intro eis_writes) (simp_all add: eis_ok_def)
  have p: "str_ok (introsetPayload x)" using v by (simp add: eis_ok_def MAX_INTROSET_SIZE_def str_ok_def)
  show "decodes EncryptedIntroSet_DecodeKey new_EncryptedIntroSet (eis_entries x) x"
    unfolding eis_entries_def EncryptedIntroSet_DecodeKey_def decode_key_def
    by (rule decodes_Cons, use v p in \<open>simp add: fields eis_ok_def\<close>)+
      (rule decodes_Nil, use v in \<open>cases x, auto simp: eis_ok_def new_EncryptedIntroSet_def\<close>)
qed

lemma EncryptedIntroSet_safe [safe]: "safe_dec EncryptedIntroSet_BDecode"
  unfolding EncryptedIntroSet_BDecode_def EncryptedIntroSet_DecodeKey_def by (simp add: safe)

lemma Introduction_safe [safe]: "safe_dec Introduction_BDecode"
  unfolding Introduction_BDecode_def Introduction_DecodeKey_def by (simp add: safe)

section \<open>Signatures\<close>

lemma length_wire_uint64: "3 \<le> length (wire_uint64 i)" "length (wire_uint64 i) \<le> 22"
proof -
  have "length (dec_digits (unat i)) \<le> 20"
    by (rule length_dec_digits_le [OF unat_less_10_pow_31]) simp
  then show "length (wire_uint64 i) \<le> 22" by (simp add: wire_uint64_def)
  show "3 \<le> length (wire_uint64 i)" by (simp add: wire_uint64_def Suc_le_eq)
qed

lemma dec_digits_length_less: "length (dec_digits n) \<le> k \<Longrightarrow> n < 10 ^ k"
proof (induction n arbitrary: k rule: dec_digits.induct)
  case (1 n)
  show ?case
  proof (cases "n < 10")
    case True
    have "length (dec_digits n) \<noteq> 0" by simp
    then obtain j where "k = Suc j" using 1(2) by (cases k) auto
    then show ?thesis using True by (simp add: order_less_le_trans [of n 10])
  next
    case False
    then have l: "length (dec_digits n) = Suc (length (dec_digits (n div 10)))"
      by (subst dec_digits.simps) simp
    then obtain j where k: "k = Suc j" using 1(2) by (cases k) auto
    then have "n div 10 < 10 ^ j" using 1(1) [OF False, of j] 1(2) l by simp
    then show ?thesis using k by (simp add: div_less_iff_less_mult mult.commute)
  qed
qed

lemma length_aligned_entry:
  "length (wire_entry k (wire_bytestring bs)) = 4 + length (dec_digits (length bs)) + length bs"
  by (simp add: wire_entry_def wire_bytestring_def dec_digits.simps [of "Suc 0"])

lemma length_int_entry: "length (wire_entry k (wire_uint64 i)) = 3 + length (wire_uint64 i)"
  by (simp add: wire_entry_def wire_bytestring_def dec_digits.simps [of "Suc 0"])

lemma dec_digits_32_64: "length (dec_digits 32) = 2" "length (dec_digits 64) = 2"
  by (simp_all add: dec_digits.simps)

lemma length_eis:
  assumes "length (derivedSigningKey x) = 32" "length (nounce x) = 32" "length (e_sig x) = 64"
  shows "length (wire_msg (eis_entries x)) = 155 + length (wire_uint64 (time_count (signedAt x))) +
    length (dec_digits (length (introsetPayload x))) + length (introsetPayload x)"
  using assms by (simp add: wire_msg_def eis_entries_def length_aligned_entry length_int_entry dec_digits_32_64)

lemma introset_signed_bytes_eq:
  assumes "length (derivedSigningKey x) = 32" "length (nounce x) = 32"
  shows "introset_signed_bytes x =
    (let w = wire_msg (eis_entries (x\<lparr>e_sig := replicate 64 0\<rparr>))
     in if length w \<le> MAX_INTROSET_SIZE + 128 then Some w else None)"
  unfolding introset_signed_bytes_def
  using writes_fresh [OF eis_writes [of "x\<lparr>e_sig := replicate 64 0\<rparr>"]] assms by (simp add: Let_def)

text \<open>
  The contract of the signature functions: a signature made with a secret key is accepted under the
  public key that belongs to it.
\<close>

definition signature_scheme ::
  "('sk \<Rightarrow> byte list \<Rightarrow> byte list option) \<Rightarrow> ('sk \<Rightarrow> key option) \<Rightarrow> (key \<Rightarrow> byte list \<Rightarrow> byte list \<Rightarrow> bool) \<Rightarrow> bool" where
  "signature_scheme sign toPublic verify \<longleftrightarrow>
     (\<forall>k pk m. toPublic k = Some pk \<longrightarrow>
        length pk = 32 \<and> (\<exists>sg. sign k m = Some sg \<and> length sg = 64 \<and> verify pk m sg))"

lemma Sign_ok:
  assumes crypto: "signature_scheme sign toPublic verify"
    and pk: "toPublic k = Some pk" and "length (nounce x) = 32" and "e_topic x = None"
    and small: "length (introsetPayload x) \<le> 4043" and "time_ok now"
  shows "\<exists>y. EncryptedIntroSet_Sign sign toPublic now k x = (True, y) \<and> eis_ok y \<and>
    derivedSigningKey y = pk \<and> introsetPayload y = introsetPayload x \<and> signedAt y = now \<and>
    (\<forall>t. EncryptedIntroSet_Verify verify y t \<longleftrightarrow> t < now + default_lifetime)"
proof -
  let ?x2 = "x\<lparr>signedAt := now, derivedSigningKey := pk, e_sig := replicate 64 0\<rparr>"
  have l: "length pk = 32" using crypto pk by (simp add: signature_scheme_def)
  have "length (dec_digits (length (introsetPayload x))) \<le> 4"
    by (rule length_dec_digits_le) (use small in simp_all)
  then have len: "length (wire_msg (eis_entries ?x2)) \<le> MAX_INTROSET_SIZE + 128"
    using length_eis [of ?x2] l assms(3) small length_wire_uint64(2) [of "time_count now"]
    by (simp add: MAX_INTROSET_SIZE_def)
  then have bs: "introset_signed_bytes ?x2 = Some (wire_msg (eis_entries ?x2))"
    using introset_signed_bytes_eq [of ?x2] l assms(3) by (simp add: Let_def)
  obtain sg where sg: "sign k (wire_msg (eis_entries ?x2)) = Some sg" "length sg = 64"
    "verify pk (wire_msg (eis_entries ?x2)) sg"
    using crypto pk unfolding signature_scheme_def by blast
  let ?y = "?x2\<lparr>e_sig := sg\<rparr>"
  have "introset_signed_bytes ?y = introset_signed_bytes ?x2" by (simp add: introset_signed_bytes_def)
  then have "EncryptedIntroSet_Verify verify ?y t \<longleftrightarrow> t < now + default_lifetime" for t
    using bs sg(3) by (auto simp: EncryptedIntroSet_Verify_def EncryptedIntroSet_IsExpired_def)
  moreover have "EncryptedIntroSet_Sign sign toPublic now k x = (True, ?y)"
    using bs pk sg(1) by (simp add: EncryptedIntroSet_Sign_def Let_def)
  moreover have "eis_ok ?y"
    using assms l sg(2) by (simp add: eis_ok_def MAX_INTROSET_SIZE_def)
  ultimately show ?thesis by (intro exI [of _ ?y]) simp
qed

section \<open>Properties\<close>

text \<open>
  Claim C22.  A service that signs an introduction set whose payload leaves room for the fields around it
  gets a set that, sent through \<open>BEncode\<close> and \<open>BDecode\<close>, arrives unchanged and verifies under the
  derived key for every time until the lifetime is over, and for none after it.
\<close>

theorem introset_published_verifies:
  assumes "signature_scheme sign toPublic verify"
    and "toPublic k = Some pk" and "length (nounce x) = 32" and "e_topic x = None"
    and "length (introsetPayload x) \<le> 4043" and "time_ok now"
  shows "\<exists>y. EncryptedIntroSet_Sign sign toPublic now k x = (True, y) \<and> derivedSigningKey y = pk \<and>
    introsetPayload y = introsetPayload x \<and>
    (\<forall>b b'. buf_ok b \<longrightarrow> EncryptedIntroSet_BEncode y b = (True, b') \<longrightarrow>
       EncryptedIntroSet_BDecode (rewind_to (cur b) b') = Inr (Some y, b')) \<and>
    (\<forall>t. EncryptedIntroSet_Verify verify y t \<longleftrightarrow> t < now + default_lifetime)"
proof -
  obtain y where y: "EncryptedIntroSet_Sign sign toPublic now k x = (True, y)" "eis_ok y"
    "derivedSigningKey y = pk" "introsetPayload y = introsetPayload x"
    "\<forall>t. EncryptedIntroSet_Verify verify y t \<longleftrightarrow> t < now + default_lifetime"
    using Sign_ok [OF assms] by blast
  then show ?thesis
    using introset.item_roundtrip unfolding EncryptedIntroSet_BDecode_def by (intro exI [of _ y]) blast
qed

theorem introset_published_verifies_witness:
  "\<exists>y. EncryptedIntroSet_Sign (\<lambda>k m. Some (replicate 64 k)) (\<lambda>k. Some (replicate 32 k)) 1000 7
        new_EncryptedIntroSet = (True, y) \<and> derivedSigningKey y = replicate 32 7 \<and>
     introsetPayload y = introsetPayload new_EncryptedIntroSet \<and>
     (\<forall>b b'. buf_ok b \<longrightarrow> EncryptedIntroSet_BEncode y b = (True, b') \<longrightarrow>
        EncryptedIntroSet_BDecode (rewind_to (cur b) b') = Inr (Some y, b')) \<and>
     (\<forall>t. EncryptedIntroSet_Verify (\<lambda>pk m sg. sg = replicate 64 (hd pk)) y t \<longleftrightarrow> t < 1000 + default_lifetime)"
  by (rule introset_published_verifies)
    (simp_all add: signature_scheme_def new_EncryptedIntroSet_def time_ok_def)

text \<open>
  Claim C24.  The limits on the payload disagree.  A payload of more than 4062 and up to
  \<open>MAX_INTROSET_SIZE\<close> bytes is written and read back, but the buffer in which a signature is checked
  has only 128 bytes for the rest of the set: verification fails whatever the signature and the time.
\<close>

theorem introset_large_payload_never_verifies:
  assumes "eis_ok x" and "4062 < length (introsetPayload x)"
    and "buf_ok b" and "EncryptedIntroSet_BEncode x b = (True, b')"
  shows "EncryptedIntroSet_BDecode (rewind_to (cur b) b') = Inr (Some x, b') \<and>
    \<not> EncryptedIntroSet_Verify verify x t"
proof -
  let ?z = "x\<lparr>e_sig := replicate 64 0\<rparr>"
  have "\<not> length (dec_digits (length (introsetPayload x))) \<le> 3"
  proof
    assume "length (dec_digits (length (introsetPayload x))) \<le> 3"
    then have "length (introsetPayload x) < 10 ^ 3" by (rule dec_digits_length_less)
    then show False using assms(2) by simp
  qed
  then have "MAX_INTROSET_SIZE + 128 < length (wire_msg (eis_entries ?z))"
    using length_eis [of ?z] assms length_wire_uint64(1) [of "time_count (signedAt x)"]
    by (simp add: MAX_INTROSET_SIZE_def eis_ok_def)
  then have "introset_signed_bytes x = None"
    using introset_signed_bytes_eq [of x] assms(1) by (simp add: Let_def eis_ok_def)
  then show ?thesis
    using introset.item_roundtrip [OF assms(3,1,4)] unfolding EncryptedIntroSet_BDecode_def
    by (simp add: EncryptedIntroSet_Verify_def)
qed

theorem introset_large_payload_never_verifies_witness:
  "\<exists>b'. EncryptedIntroSet_BEncode (new_EncryptedIntroSet\<lparr>introsetPayload := replicate 4096 1\<rparr>)
        (mk_buf (replicate 8192 0)) = (True, b') \<and>
    EncryptedIntroSet_BDecode (rewind_to 0 b') =
      Inr (Some (new_EncryptedIntroSet\<lparr>introsetPayload := replicate 4096 1\<rparr>), b') \<and>
    \<not> EncryptedIntroSet_Verify (\<lambda>_ _ _. True) (new_EncryptedIntroSet\<lparr>introsetPayload := replicate 4096 1\<rparr>) 0"
proof -
  let ?x = "new_EncryptedIntroSet\<lparr>introsetPayload := replicate 4096 1\<rparr>" and ?b = "mk_buf (replicate 8192 0)"
  have ok: "eis_ok ?x"
    by (simp add: eis_ok_def new_EncryptedIntroSet_def time_ok_def MAX_INTROSET_SIZE_def zero_key_def)
  have "length (dec_digits 4096) \<le> 4" by (rule length_dec_digits_le) simp_all
  then have "length (wire_msg (eis_entries ?x)) \<le> size_left ?b"
    using length_eis [of ?x] ok length_wire_uint64(2) [of "time_count (signedAt ?x)"]
    by (simp add: eis_ok_def mk_buf_def size_left_def)
  then obtain b' where b': "EncryptedIntroSet_BEncode ?x ?b = (True, b')"
    using writesD(2) [OF eis_writes buf_ok_mk_buf(1), of ?x "replicate 8192 0"] ok by (auto simp: eis_ok_def)
  then show ?thesis
    using introset_large_payload_never_verifies [OF ok _ buf_ok_mk_buf(1) b', of "\<lambda>_ _ _. True" 0]
    using b' by (intro exI [of _ b']) simp
qed

end
