(* ===== verification/Uint128.thy ===== *)
theory Uint128
  imports Llarp_Prelude
begin

text \<open>
  The 128-bit unsigned integer of \<open>net/uint128.hpp\<close>, a pair of 64-bit halves, and its equivalence with
  arithmetic on 128-bit words.
\<close>

unbundle bit_operations_syntax

section \<open>Operations\<close>

record uint128 =
  upper :: u64
  lower :: u64

definition mk128 :: "u64 \<Rightarrow> u64 \<Rightarrow> uint128" where
  "mk128 u l = \<lparr>upper = u, lower = l\<rparr>"

definition and128 :: "uint128 \<Rightarrow> uint128 \<Rightarrow> uint128" where
  "and128 a b = mk128 (upper a AND upper b) (lower a AND lower b)"

definition or128 :: "uint128 \<Rightarrow> uint128 \<Rightarrow> uint128" where
  "or128 a b = mk128 (upper a OR upper b) (lower a OR lower b)"

definition xor128 :: "uint128 \<Rightarrow> uint128 \<Rightarrow> uint128" where
  "xor128 a b = mk128 (upper a XOR upper b) (lower a XOR lower b)"

definition not128 :: "uint128 \<Rightarrow> uint128" where
  "not128 a = mk128 (NOT (upper a)) (NOT (lower a))"

definition nonzero128 :: "uint128 \<Rightarrow> bool" where
  "nonzero128 a = (lower a \<noteq> 0 \<or> upper a \<noteq> 0)"

definition eq128 :: "uint128 \<Rightarrow> uint128 \<Rightarrow> bool" where
  "eq128 a b = (lower a = lower b \<and> upper a = upper b)"

definition less128 :: "uint128 \<Rightarrow> uint128 \<Rightarrow> bool" where
  "less128 a b = (upper a < upper b \<or> upper a = upper b \<and> lower a < lower b)"

definition le128 :: "uint128 \<Rightarrow> uint128 \<Rightarrow> bool" where
  "le128 a b = (upper a < upper b \<or> upper a = upper b \<and> lower a \<le> lower b)"

definition inc128 :: "uint128 \<Rightarrow> uint128" where
  "inc128 a =
     (let l = lower a + 1 in mk128 (if l = 0 then upper a + 1 else upper a) l)"

definition add128 :: "uint128 \<Rightarrow> uint128 \<Rightarrow> uint128" where
  "add128 a b =
     (let l = lower a + lower b;
          u = (if l < lower b then upper a + 1 else upper a)
      in mk128 (u + upper b) l)"

definition sub128 :: "uint128 \<Rightarrow> uint128 \<Rightarrow> uint128" where
  "sub128 a b =
     (let u = (if lower b > lower a then upper a - 1 else upper a)
      in mk128 (u - upper b) (lower a - lower b))"

definition shl128 :: "uint128 \<Rightarrow> nat \<Rightarrow> uint128" where
  "shl128 a shift =
     (if shift = 0 then a
      else if shift < 64
      then mk128 (push_bit shift (upper a) OR drop_bit (64 - shift) (lower a)) (push_bit shift (lower a))
      else if shift = 64 then mk128 (lower a) 0
      else if shift < 128 then mk128 (push_bit (shift - 64) (lower a)) 0
      else mk128 0 0)"

definition shr128 :: "uint128 \<Rightarrow> nat \<Rightarrow> uint128" where
  "shr128 a shift =
     (if shift = 0 then a
      else if shift < 64
      then mk128 (drop_bit shift (upper a)) (drop_bit shift (lower a) OR push_bit (64 - shift) (upper a))
      else if shift = 64 then mk128 0 (upper a)
      else if shift < 128 then mk128 0 (drop_bit (shift - 64) (upper a))
      else mk128 0 0)"

section \<open>The value of a pair of halves\<close>

definition val128 :: "uint128 \<Rightarrow> 128 word" where
  "val128 a = word_cat (upper a) (lower a)"

lemma mk128_sel [simp]: "upper (mk128 u l) = u" "lower (mk128 u l) = l"
  by (simp_all add: mk128_def)

lemma mk128_collapse [simp]: "mk128 (upper a) (lower a) = a"
  by (simp add: mk128_def)

lemma bit_val128: "bit (val128 a) n \<longleftrightarrow> (if n < 64 then bit (lower a) n else bit (upper a) (n - 64))"
  by (auto simp: val128_def bit_word_cat_iff dest: bit_imp_le_length)

lemma val128_inject: "val128 a = val128 b \<longleftrightarrow> a = b"
proof
  assume eq: "val128 a = val128 b"
  have "bit (lower a) n = bit (lower b) n" if "n < 64" for n
    using arg_cong[OF eq, of "\<lambda>w. bit w n"] that by (simp add: bit_val128)
  moreover have "bit (upper a) n = bit (upper b) n" for n
    using arg_cong[OF eq, of "\<lambda>w. bit w (n + 64)"] by (simp add: bit_val128)
  ultimately have "lower a = lower b" "upper a = upper b" by (auto intro: bit_word_eqI)
  then show "a = b" by simp
qed simp

lemma val128_int: "val128 a = word_of_int (uint (upper a) * 2 ^ 64 + uint (lower a))"
  by (simp add: val128_def word_cat_eq push_bit_eq_mult) 


lemma val128_bitwise:
  "val128 (and128 a b) = val128 a AND val128 b" "val128 (or128 a b) = val128 a OR val128 b"
  "val128 (xor128 a b) = val128 a XOR val128 b"
  by (rule bit_word_eqI,
      simp add: bit_val128 and128_def or128_def xor128_def bit_and_iff bit_or_iff bit_xor_iff)+

lemma val128_not: "val128 (not128 a) = NOT (val128 a)"
  by (rule bit_word_eqI) (auto simp: bit_val128 not128_def bit_not_iff dest: bit_imp_le_length)

lemma of_int_halves_mod:
  "(word_of_int (x mod 2 ^ 64 * 2 ^ 64 + y) :: 128 word) = word_of_int (x * 2 ^ 64 + y)"
proof -
  have "(x mod 2 ^ 64 * 2 ^ 64 + y) mod 2 ^ 128 = (x * 2 ^ 64 + y) mod (2 ^ 128 :: int)"
  proof -
    have "x mod 2 ^ 64 * 2 ^ 64 = (x * 2 ^ 64) mod (2 ^ 64 * 2 ^ 64 :: int)" by (simp add: mult_mod_left)
    then show ?thesis by (simp add: mod_add_left_eq)
  qed
  then show ?thesis unfolding word_of_int_eq_iff take_bit_eq_mod by simp
qed


lemma val128_mk: "val128 (mk128 u l) = word_of_int (uint u * 2 ^ 64 + uint l)"
  by (simp add: val128_int)

lemma val128_add: "val128 (add128 a b) = val128 a + val128 b"
proof -
  let ?c = "lower a + lower b < lower b"
  have l: "uint (lower a + lower b) = uint (lower a) + uint (lower b) - of_bool ?c * 2 ^ 64"
    using uint_lt2p[of "lower a"] uint_lt2p[of "lower b"] by (auto simp: word_less_def uint_plus_if')
  have u: "uint ((if ?c then upper a + 1 else upper a) + upper b)
      = (uint (upper a) + of_bool ?c + uint (upper b)) mod 2 ^ 64"
    by (simp add: uint_word_ariths mod_simps)
  have "val128 (add128 a b) = word_of_int ((uint (upper a) + of_bool ?c + uint (upper b)) * 2 ^ 64
      + (uint (lower a) + uint (lower b) - of_bool ?c * 2 ^ 64))"
    unfolding add128_def Let_def val128_mk l u by (rule of_int_halves_mod)
  also have "\<dots> = word_of_int ((uint (upper a) * 2 ^ 64 + uint (lower a)) + (uint (upper b) * 2 ^ 64 + uint (lower b)))"
    by (rule arg_cong[of _ _ word_of_int]) (simp add: algebra_simps)
  also have "\<dots> = val128 a + val128 b" by (simp add: val128_int del: of_int_mult)
  finally show ?thesis .
qed

lemma val128_sub: "val128 (sub128 a b) = val128 a - val128 b"
proof -
  let ?c = "lower b > lower a"
  have l: "uint (lower a - lower b) = uint (lower a) - uint (lower b) + of_bool ?c * 2 ^ 64"
    by (auto simp: word_less_def uint_sub_if')
  have u: "uint ((if ?c then upper a - 1 else upper a) - upper b)
      = (uint (upper a) - of_bool ?c - uint (upper b)) mod 2 ^ 64"
    by (simp add: uint_word_ariths mod_simps)
  have "val128 (sub128 a b) = word_of_int ((uint (upper a) - of_bool ?c - uint (upper b)) * 2 ^ 64
      + (uint (lower a) - uint (lower b) + of_bool ?c * 2 ^ 64))"
    unfolding sub128_def Let_def val128_mk l u by (rule of_int_halves_mod)
  also have "\<dots> = word_of_int ((uint (upper a) * 2 ^ 64 + uint (lower a)) - (uint (upper b) * 2 ^ 64 + uint (lower b)))"
    by (rule arg_cong[of _ _ word_of_int]) (simp add: algebra_simps)
  also have "\<dots> = val128 a - val128 b" by (simp add: val128_int)
  finally show ?thesis .
qed

lemma val128_inc: "val128 (inc128 a) = val128 a + 1"
proof -
  have "inc128 a = add128 a (mk128 0 1)"
  proof (cases "lower a + 1 = 0")
    case True
    then show ?thesis by (simp add: inc128_def add128_def)
  next
    case False
    then have "\<not> lower a + 1 < 1" by (simp add: word_less_1)
    then show ?thesis using False by (simp add: inc128_def add128_def Let_def)
  qed
  then show ?thesis by (simp add: val128_add val128_mk)
qed

lemma val128_shl: "val128 (shl128 a n) = push_bit n (val128 a)"
  by (rule bit_word_eqI)
    (auto simp: bit_val128 shl128_def bit_push_bit_iff bit_drop_bit_eq bit_or_iff ac_simps dest: bit_imp_le_length)

lemma val128_shr: "val128 (shr128 a n) = drop_bit n (val128 a)"
  by (rule bit_word_eqI)
    (auto simp: bit_val128 shr128_def bit_push_bit_iff bit_drop_bit_eq bit_or_iff ac_simps dest: bit_imp_le_length)

lemma uint_val128: "uint (val128 a) = uint (upper a) * 2 ^ 64 + uint (lower a)"
proof -
  have "uint (upper a) < 2 ^ 64" "uint (lower a) < 2 ^ 64"
    using uint_lt2p[of "upper a"] uint_lt2p[of "lower a"] by simp_all
  moreover have "0 \<le> uint (upper a)" "0 \<le> uint (lower a)" by simp_all
  ultimately have "0 \<le> uint (upper a) * 2 ^ 64 + uint (lower a)"
    "uint (upper a) * 2 ^ 64 + uint (lower a) < 2 ^ 128" by simp_all
  then have "uint (upper a) * 2 ^ 64 + uint (lower a) = (uint (upper a) * 2 ^ 64 + uint (lower a)) mod 2 ^ 128"
    by simp
  then show ?thesis
    unfolding val128_int by (simp only: unsigned_of_int take_bit_eq_mod) simp
qed

lemma halves_less:
  fixes ua la ub lb :: int
  assumes "la < 2 ^ 64" "lb < 2 ^ 64" "0 \<le> la" "0 \<le> lb"
  shows "ua * 2 ^ 64 + la < ub * 2 ^ 64 + lb \<longleftrightarrow> ua < ub \<or> ua = ub \<and> la < lb"
  using assms by (cases "ua < ub"; cases "ua = ub"; simp; linarith)

lemma val128_less: "val128 a < val128 b \<longleftrightarrow> less128 a b"
proof -
  have "uint (lower a) < 2 ^ 64" "uint (lower b) < 2 ^ 64" "0 \<le> uint (lower a)" "0 \<le> uint (lower b)"
    using uint_lt2p[of "lower a"] uint_lt2p[of "lower b"] by simp_all
  then show ?thesis
    unfolding less128_def word_less_def uint_val128 word_uint_eq_iff by (rule halves_less)
qed

lemma eq128_iff: "eq128 a b \<longleftrightarrow> a = b"
  by (cases a; cases b) (auto simp: eq128_def)

lemma val128_le: "val128 a \<le> val128 b \<longleftrightarrow> le128 a b"
  using val128_less[of a b] val128_inject[of a b] by (auto simp: le_less less128_def le128_def)

lemma nonzero128_iff: "nonzero128 a \<longleftrightarrow> val128 a \<noteq> 0"
  using val128_inject[of a "mk128 0 0"]
  by (cases a) (auto simp: nonzero128_def val128_mk, auto simp: mk128_def)

lemmas val128_hom = val128_bitwise val128_not val128_add val128_sub val128_inc val128_shl val128_shr

text \<open>
  Claim C13. The pair of 64-bit halves implements a 128-bit word: the bitwise operators, the sum and the
  difference with their carry and borrow between the halves, the increment, both shifts for every
  shift count, and the comparisons are those of 128-bit words.
\<close>

theorem uint128_is_word128:
  "val128 (and128 a b) = val128 a AND val128 b \<and> val128 (or128 a b) = val128 a OR val128 b \<and>
   val128 (xor128 a b) = val128 a XOR val128 b \<and> val128 (not128 a) = NOT (val128 a) \<and>
   val128 (add128 a b) = val128 a + val128 b \<and> val128 (sub128 a b) = val128 a - val128 b \<and>
   val128 (inc128 a) = val128 a + 1 \<and> val128 (shl128 a n) = push_bit n (val128 a) \<and>
   val128 (shr128 a n) = drop_bit n (val128 a) \<and>
   (less128 a b \<longleftrightarrow> val128 a < val128 b) \<and> (le128 a b \<longleftrightarrow> val128 a \<le> val128 b) \<and>
   (eq128 a b \<longleftrightarrow> val128 a = val128 b) \<and> (nonzero128 a \<longleftrightarrow> val128 a \<noteq> 0)"
  by (simp only: val128_hom val128_less val128_le val128_inject eq128_iff nonzero128_iff)

end
