(* ===== verification/Net_Addr.thy ===== *)
theory Net_Addr
  imports Uint128
begin

text \<open>
  Addresses in host and network order (\<open>net/net_int.hpp\<close>, \<open>net/ip.hpp\<close>), bit counting
  (\<open>util/bits.hpp\<close>) and netmasks (\<open>net/net_bits.hpp\<close>).

  The conversions between big-endian and host integers come from a library outside the repository.
  They are the fields of a parameter; what the code relies on is the locale \<open>network_order\<close>.
\<close>

unbundle bit_operations_syntax

section \<open>Bit counting\<close>

definition count_bits :: "'a::len word \<Rightarrow> nat" where
  "count_bits w = length (filter (bit w) [0..<LENGTH('a)])"

definition count_bits_128 :: "uint128 \<Rightarrow> nat" where
  "count_bits_128 i = count_bits (upper i) + count_bits (lower i)"

section \<open>Byte order\<close>

record byte_order =
  big64 :: "u64 \<Rightarrow> u64"
  big32 :: "u32 \<Rightarrow> u32"
  big16 :: "u16 \<Rightarrow> u16"

text \<open>
  What the code relies on: the conversion is its own inverse and moves bits around, so that it
  commutes with masking and keeps the number of set bits.
\<close>

locale network_order =
  fixes bo :: byte_order
  assumes big64_big64: "big64 bo (big64 bo x) = x"
    and big64_and: "big64 bo (x AND y) = big64 bo x AND big64 bo y"
    and big64_count: "count_bits (big64 bo x) = count_bits x"
    and big32_big32: "big32 bo (big32 bo a) = a"
    and big16_big16: "big16 bo (big16 bo p) = p"

text \<open>A value in network order is named by the type of the field that holds it.\<close>

type_synonym huint128 = uint128
type_synonym ipv6addr = uint128
type_synonym ipv4addr = u32
type_synonym port = u16

definition ntoh128 :: "byte_order \<Rightarrow> uint128 \<Rightarrow> uint128" where
  "ntoh128 bo i = mk128 (big64 bo (lower i)) (big64 bo (upper i))"

definition hton128 :: "byte_order \<Rightarrow> uint128 \<Rightarrow> uint128" where
  "hton128 bo i = ntoh128 bo i"

definition ToHost6 :: "byte_order \<Rightarrow> ipv6addr \<Rightarrow> huint128" where
  "ToHost6 bo x = ntoh128 bo x"

definition ToNet6 :: "byte_order \<Rightarrow> huint128 \<Rightarrow> ipv6addr" where
  "ToNet6 bo x = hton128 bo x"

definition ToHost4 :: "byte_order \<Rightarrow> ipv4addr \<Rightarrow> u32" where
  "ToHost4 bo x = big32 bo x"

definition ToNet4 :: "byte_order \<Rightarrow> u32 \<Rightarrow> ipv4addr" where
  "ToNet4 bo x = big32 bo x"

definition ToHostPort :: "byte_order \<Rightarrow> port \<Rightarrow> u16" where
  "ToHostPort bo x = big16 bo x"

definition ToNetPort :: "byte_order \<Rightarrow> u16 \<Rightarrow> port" where
  "ToNetPort bo x = big16 bo x"

section \<open>Mapped addresses\<close>

definition expand_v4 :: "u32 \<Rightarrow> huint128" where
  "expand_v4 x = or128 (mk128 0 0x0000ffff00000000) (mk128 0 (ucast x))"

definition expand_v4_lan :: "u32 \<Rightarrow> huint128" where
  "expand_v4_lan x = or128 (mk128 0xfd00000000000000 0) (mk128 0 (ucast x))"

definition truncate_v6 :: "huint128 \<Rightarrow> u32" where
  "truncate_v6 x = ucast (lower (and128 x (mk128 0 0x00000000ffffffff)))"

definition ExpandV4 :: "byte_order \<Rightarrow> ipv4addr \<Rightarrow> ipv6addr" where
  "ExpandV4 bo x = ToNet6 bo (expand_v4 (ToHost4 bo x))"

definition ExpandV4Lan :: "byte_order \<Rightarrow> ipv4addr \<Rightarrow> ipv6addr" where
  "ExpandV4Lan bo x = ToNet6 bo (expand_v4_lan (ToHost4 bo x))"

definition TruncateV6 :: "byte_order \<Rightarrow> ipv6addr \<Rightarrow> ipv4addr" where
  "TruncateV6 bo x = ToNet4 bo (truncate_v6 (ToHost6 bo x))"

section \<open>Netmasks\<close>

text \<open>The recursion counts up to 128 in 32-bit arithmetic and so ends for every argument.\<close>

lemma count_up_less: "k - n \<noteq> 0 \<Longrightarrow> unat (k - (n + 1)) < unat (k - n)" for k n :: "'a::len word"
proof -
  assume ne: "k - n \<noteq> 0"
  then have "unat (k - n - 1) = unat (k - n) - 1" by (rule unat_minus_one)
  moreover have "0 < unat (k - n)" using ne unat_gt_0 by blast
  ultimately show ?thesis by (simp add: diff_diff_eq)
qed

function netmask_ipv6_rec :: "u32 \<Rightarrow> huint128" where
  "netmask_ipv6_rec numset =
     (if 128 - numset \<noteq> 0 then or128 (shl128 (mk128 0 1) (unat numset)) (netmask_ipv6_rec (numset + 1))
      else mk128 0 0)"
  by auto
termination
  by (relation "measure (\<lambda>n. unat (128 - n))") (simp, simp only: in_measure, erule count_up_less)

declare netmask_ipv6_rec.simps [simp del]

function netmask_ipv4_rec :: "u32 \<Rightarrow> u32" where
  "netmask_ipv4_rec numset =
     (if 32 - numset \<noteq> 0 then push_bit (unat numset) 1 OR netmask_ipv4_rec (numset + 1) else 0)"
  by auto
termination
  by (relation "measure (\<lambda>n. unat (32 - n))") (simp, simp only: in_measure, erule count_up_less)

declare netmask_ipv4_rec.simps [simp del]

definition host_netmask_ipv6_bits :: "u32 \<Rightarrow> huint128" where
  "host_netmask_ipv6_bits numset = netmask_ipv6_rec (128 - numset)"

definition host_netmask_ipv4_bits :: "u32 \<Rightarrow> u32" where
  "host_netmask_ipv4_bits num = netmask_ipv4_rec (32 - num)"

definition host_ipaddr_ipv4_bits :: "u32 \<Rightarrow> u32 \<Rightarrow> u32 \<Rightarrow> u32 \<Rightarrow> u32" where
  "host_ipaddr_ipv4_bits a b c d = (d OR push_bit 8 c OR push_bit 16 b OR push_bit 24 a)"

definition ipaddr_netmask_bits :: "byte_order \<Rightarrow> u32 \<Rightarrow> bool \<Rightarrow> ipv6addr" where
  "ipaddr_netmask_bits bo bits af_inet6 =
     (if af_inet6 then ToNet6 bo (host_netmask_ipv6_bits bits)
      else ExpandV4 bo (ToNet4 bo (host_netmask_ipv4_bits bits)))"

definition netmask_ipv6_bits :: "byte_order \<Rightarrow> u32 \<Rightarrow> ipv6addr" where
  "netmask_ipv6_bits bo bits = ipaddr_netmask_bits bo bits True"

definition ipaddr_ipv4_bits :: "byte_order \<Rightarrow> u32 \<Rightarrow> u32 \<Rightarrow> u32 \<Rightarrow> u32 \<Rightarrow> ipv4addr" where
  "ipaddr_ipv4_bits bo a b c d = ToNet4 bo (host_ipaddr_ipv4_bits a b c d)"


section \<open>What the netmasks are\<close>

lemma val128_netmask_rec:
  assumes "k \<le> 128"
  shows "val128 (netmask_ipv6_rec (of_nat k)) = NOT (mask k)"
  using assms
proof (induction rule: inc_induct)
  case base
  then show ?case by (subst netmask_ipv6_rec.simps) (simp add: val128_mk mask_eq_exp_minus_1)
next
  case (step k)
  have k: "unat (of_nat k :: u32) = k" using step.hyps by (simp add: unat_of_nat take_bit_eq_mod)
  then have ne: "(of_nat k :: u32) \<noteq> 128" using step.hyps by auto
  have "val128 (netmask_ipv6_rec (of_nat k)) = push_bit k 1 OR NOT (mask (Suc k))"
    using step.IH k ne by (subst netmask_ipv6_rec.simps) (simp add: val128_hom val128_mk add.commute)
  also have "\<dots> = NOT (mask k)"
    using step.hyps by (intro bit_word_eqI) (auto simp: bit_simps)
  finally show ?case .
qed


lemma val128_host_netmask:
  assumes "n \<le> 128"
  shows "val128 (host_netmask_ipv6_bits (of_nat n)) = NOT (mask (128 - n))"
proof -
  have "(128 - of_nat n :: u32) = of_nat (128 - n)"
    using assms by (subst of_nat_diff) simp_all
  then show ?thesis
    using val128_netmask_rec[of "128 - n"] by (simp only: host_netmask_ipv6_bits_def)
qed

lemma count_bits_card: "count_bits (w :: 'a::len word) = card {n. n < LENGTH('a) \<and> bit w n}"
proof -
  have "count_bits w = card (set (filter (bit w) [0..<LENGTH('a)]))"
    unfolding count_bits_def by (rule distinct_card[symmetric]) simp
  also have "set (filter (bit w) [0..<LENGTH('a)]) = {n. n < LENGTH('a) \<and> bit w n}" by auto
  finally show ?thesis .
qed

lemma count_bits_val128: "count_bits (val128 i) = count_bits_128 i"
proof -
  have "[0..<128] = [0..<64] @ map (\<lambda>n. n + 64) [0..<64]"
    using upt_add_eq_append[of 0 64 64] by (simp add: map_add_upt)
  then have "count_bits (val128 i) = length (filter (bit (val128 i)) [0..<64])
      + length (filter (\<lambda>n. bit (val128 i) (n + 64)) [0..<64])"
    by (simp add: count_bits_def filter_map o_def)
  also have "filter (bit (val128 i)) [0..<64] = filter (bit (lower i)) [0..<64]"
    by (rule filter_cong) (simp_all add: bit_val128)
  also have "filter (\<lambda>n. bit (val128 i) (n + 64)) [0..<64] = filter (bit (upper i)) [0..<64]"
    by (rule filter_cong) (simp_all add: bit_val128)
  also have "length (filter (bit (lower i)) [0..<64]) + length (filter (bit (upper i)) [0..<64])
      = count_bits (lower i) + count_bits (upper i)"
    by (simp add: count_bits_def)
  finally show ?thesis by (simp add: count_bits_128_def)
qed

lemma count_bits_not_mask: "k \<le> 128 \<Longrightarrow> count_bits (NOT (mask k) :: 128 word) = 128 - k"
proof -
  assume k: "k \<le> 128"
  have "{n. n < LENGTH(128) \<and> bit (NOT (mask k) :: 128 word) n} = {k..<128}"
    by (auto simp: bit_simps)
  then show ?thesis by (simp add: count_bits_card)
qed

context network_order
begin

lemma ntoh128_ntoh128 [simp]: "ntoh128 bo (ntoh128 bo i) = i"
  by (simp add: ntoh128_def big64_big64)

lemma ToHost6_ToNet6 [simp]: "ToHost6 bo (ToNet6 bo x) = x" "ToNet6 bo (ToHost6 bo x) = x"
  by (simp_all add: ToHost6_def ToNet6_def hton128_def)

lemma ToHost4_ToNet4 [simp]: "ToHost4 bo (ToNet4 bo a) = a" "ToNet4 bo (ToHost4 bo a) = a"
  by (simp_all add: ToHost4_def ToNet4_def big32_big32)

lemma ToHostPort_ToNetPort [simp]: "ToHostPort bo (ToNetPort bo p) = p" "ToNetPort bo (ToHostPort bo p) = p"
  by (simp_all add: ToHostPort_def ToNetPort_def big16_big16)

lemma ToHost6_and: "ToHost6 bo (and128 x y) = and128 (ToHost6 bo x) (ToHost6 bo y)"
  by (simp add: ToHost6_def ntoh128_def and128_def big64_and)

lemma ToHost6_inject: "ToHost6 bo x = ToHost6 bo y \<longleftrightarrow> x = y"
  by (metis ToHost6_ToNet6(2))

lemma count_bits_ToHost6: "count_bits_128 (ToHost6 bo x) = count_bits_128 x"
  by (simp add: ToHost6_def ntoh128_def count_bits_128_def big64_count)

lemma netmask_ipv6_bits_host:
  "n \<le> 128 \<Longrightarrow> val128 (ToHost6 bo (netmask_ipv6_bits bo (of_nat n))) = NOT (mask (128 - n))"
  by (simp add: netmask_ipv6_bits_def ipaddr_netmask_bits_def val128_host_netmask)

lemma count_bits_netmask: "n \<le> 128 \<Longrightarrow> count_bits_128 (netmask_ipv6_bits bo (of_nat n)) = n"
  using count_bits_ToHost6[of "netmask_ipv6_bits bo (of_nat n)"] netmask_ipv6_bits_host[of n]
    count_bits_val128[of "ToHost6 bo (netmask_ipv6_bits bo (of_nat n))"] count_bits_not_mask[of "128 - n"]
  by simp

end

section \<open>Little-endian hosts\<close>

text \<open>The byte swap that the conversions are on a little-endian host.\<close>

definition byte_swap :: "'a::len word \<Rightarrow> 'a word" where
  "byte_swap w = horner_sum of_bool 2
     (map (\<lambda>n. bit w (8 * (LENGTH('a) div 8 - 1 - n div 8) + n mod 8)) [0..<LENGTH('a)])"

definition little_endian :: byte_order where
  "little_endian = \<lparr>big64 = byte_swap, big32 = byte_swap, big16 = byte_swap\<rparr>"

lemma bit_byte_swap:
  "bit (byte_swap w :: 'a::len word) n \<longleftrightarrow>
     n < LENGTH('a) \<and> bit w (8 * (LENGTH('a) div 8 - 1 - n div 8) + n mod 8)"
  by (auto simp: byte_swap_def bit_horner_sum_bit_word_iff)

lemma swapped_position:
  fixes n k :: nat
  assumes "n < 8 * k"
  shows "8 * (k - 1 - n div 8) + n mod 8 < 8 * k"
    "8 * (k - 1 - (8 * (k - 1 - n div 8) + n mod 8) div 8) + (8 * (k - 1 - n div 8) + n mod 8) mod 8 = n"
proof -
  define q r where "q = n div 8" and "r = n mod 8"
  have n: "n = 8 * q + r" and r: "r < 8" and q: "q < k"
    using assms by (auto simp: q_def r_def less_mult_imp_div_less mult.commute)
  have "8 * (k - 1 - q) + r < 8 * k" using r q by arith
  then show "8 * (k - 1 - n div 8) + n mod 8 < 8 * k" unfolding q_def r_def .
  have "(8 * (k - 1 - q) + r) div 8 = k - 1 - q" "(8 * (k - 1 - q) + r) mod 8 = r"
    using r by (simp_all only: div_mult_self4 mod_mult_self4 mod_less div_less)
  then have "8 * (k - 1 - (8 * (k - 1 - q) + r) div 8) + (8 * (k - 1 - q) + r) mod 8 = n"
    using q n by simp
  then show "8 * (k - 1 - (8 * (k - 1 - n div 8) + n mod 8) div 8) + (8 * (k - 1 - n div 8) + n mod 8) mod 8 = n"
    unfolding q_def r_def .
qed

lemma byte_swap_byte_swap:
  assumes "LENGTH('a::len) = 8 * k"
  shows "byte_swap (byte_swap w) = (w :: 'a word)"
  by (rule bit_word_eqI) (use assms swapped_position[of _ k] in \<open>auto simp: bit_byte_swap\<close>)

lemma byte_swap_and: "byte_swap (v AND w) = (byte_swap v AND byte_swap w :: 'a::len word)"
  by (rule bit_word_eqI) (auto simp: bit_byte_swap bit_and_iff)


lemma count_bits_byte_swap:
  assumes L: "LENGTH('a::len) = 8 * k"
  shows "count_bits (byte_swap w) = count_bits (w :: 'a word)"
proof -
  define f where "f n = 8 * (k - 1 - n div 8) + n mod 8" for n :: nat
  have f: "f n < 8 * k" "f (f n) = n" if "n < 8 * k" for n
    using swapped_position[OF that] by (simp_all only: f_def)
  have bit: "bit (byte_swap w) n \<longleftrightarrow> bit w (f n)" if "n < 8 * k" for n
    using that L by (simp add: bit_byte_swap f_def)
  have "bij_betw f {n. n < LENGTH('a) \<and> bit (byte_swap w) n} {n. n < LENGTH('a) \<and> bit w n}"
    unfolding L
  proof (rule bij_betw_byWitness[where f' = f])
    show "f ` {n. n < 8 * k \<and> bit (byte_swap w) n} \<subseteq> {n. n < 8 * k \<and> bit w n}"
      using f(1) bit by blast
    show "f ` {n. n < 8 * k \<and> bit w n} \<subseteq> {n. n < 8 * k \<and> bit (byte_swap w) n}"
    proof (clarify, intro conjI)
      fix n assume n: "n < 8 * k" "bit w n"
      show "f n < 8 * k" using f(1)[OF n(1)] .
      show "bit (byte_swap w) (f n)" using bit[OF f(1)[OF n(1)]] f(2)[OF n(1)] n(2) by simp
    qed
  qed (use f(2) in simp_all)
  then show ?thesis by (simp add: count_bits_card bij_betw_same_card)
qed

interpretation little_endian_order: network_order little_endian
  by unfold_locales
    (simp_all add: little_endian_def byte_swap_byte_swap[where k = 8] byte_swap_byte_swap[where k = 4]
      byte_swap_byte_swap[where k = 2] byte_swap_and count_bits_byte_swap[where k = 8])

text \<open>
  Claim C14. For a prefix length of at most 128, the recursive netmask is the mask whose highest bits of
  that number are set, in network order, and it has exactly that number of set bits.
\<close>

theorem netmask_ipv6_is_prefix:
  assumes "network_order bo" "n \<le> 128"
  shows "val128 (ToHost6 bo (netmask_ipv6_bits bo (of_nat n))) = NOT (mask (128 - n)) \<and>
         count_bits_128 (netmask_ipv6_bits bo (of_nat n)) = n"
  using assms by (simp add: network_order.netmask_ipv6_bits_host network_order.count_bits_netmask)

theorem netmask_ipv6_is_prefix_witness:
  "val128 (ToHost6 little_endian (netmask_ipv6_bits little_endian 8)) = NOT (mask 120) \<and>
   count_bits_128 (netmask_ipv6_bits little_endian 8) = 8"
  using netmask_ipv6_is_prefix[OF little_endian_order.network_order_axioms, of 8] by simp

lemma truncate_expand: "truncate_v6 (expand_v4 x) = x"
proof -
  have m: "(0xffffffff :: u64) = mask 32" "(0x0000ffff00000000 :: u64) = push_bit 32 (mask 16)"
    by (simp_all add: mask_eq_exp_minus_1 push_bit_eq_mult)
  have "((push_bit 32 (mask 16) OR ucast x) AND mask 32 :: u64) = ucast x"
    by (rule bit_word_eqI) (auto simp: bit_simps dest: bit_imp_le_length)
  then have "(ucast ((push_bit 32 (mask 16) OR ucast x) AND mask 32 :: u64) :: u32) = ucast (ucast x :: u64)"
    by (rule arg_cong)
  also have "\<dots> = x" by (rule bit_word_eqI) (auto simp: bit_simps dest: bit_imp_le_length)
  finally show ?thesis by (simp only: truncate_v6_def expand_v4_def and128_def or128_def mk128_sel m)
qed

text \<open>
  Claim C15. An IPv4 address embedded into the IPv4-mapped IPv6 range is recovered unchanged.
\<close>

theorem TruncateV6_ExpandV4:
  assumes "network_order bo"
  shows "TruncateV6 bo (ExpandV4 bo x) = x"
  using assms
  by (simp add: TruncateV6_def ExpandV4_def network_order.ToHost6_ToNet6 network_order.ToHost4_ToNet4 truncate_expand)

theorem TruncateV6_ExpandV4_witness: "TruncateV6 little_endian (ExpandV4 little_endian 0x0a000001) = 0x0a000001"
  by (rule TruncateV6_ExpandV4[OF little_endian_order.network_order_axioms])

end
