(* ===== verification/IP_Range.thy ===== *)
theory IP_Range
  imports Net_Addr
begin

text \<open>
  Address ranges (\<open>net/ip_range.hpp\<close>, \<open>net/ip_range.cpp\<close>), the container that maps ranges to values
  (\<open>net/ip_range_map.hpp\<close>), the bogon checks of \<open>net/net.hpp\<close> and the operations of the service endpoint
  that unmap exit ranges (\<open>service/endpoint.cpp\<close>).
\<close>

unbundle bit_operations_syntax

section \<open>Ranges\<close>

record IPRange =
  addr :: ipv6addr
  netmask_bits :: ipv6addr

definition mk_range :: "ipv6addr \<Rightarrow> ipv6addr \<Rightarrow> IPRange" where
  "mk_range address netmask = \<lparr>addr = address, netmask_bits = netmask\<rparr>"

definition V4MappedRange :: "byte_order \<Rightarrow> IPRange" where
  "V4MappedRange bo = mk_range (ToNet6 bo (mk128 0 0x0000ffff00000000)) (netmask_ipv6_bits bo 96)"

text \<open>The octets and the mask are bytes; \<open>mask + 96\<close> is an \<open>int\<close>.\<close>

definition FromIPv4_octets :: "byte_order \<Rightarrow> byte \<Rightarrow> byte \<Rightarrow> byte \<Rightarrow> byte \<Rightarrow> byte \<Rightarrow> IPRange" where
  "FromIPv4_octets bo a b c d m =
     mk_range (ExpandV4 bo (ipaddr_ipv4_bits bo (ucast a) (ucast b) (ucast c) (ucast d)))
              (netmask_ipv6_bits bo (ucast m + 96))"

definition FromIPv4 :: "byte_order \<Rightarrow> ipv4addr \<Rightarrow> ipv4addr \<Rightarrow> IPRange" where
  "FromIPv4 bo address netmask =
     mk_range (ExpandV4 bo address) (netmask_ipv6_bits bo (of_nat (count_bits netmask + 96)))"

definition Contains_addr :: "IPRange \<Rightarrow> ipv6addr \<Rightarrow> bool" where
  "Contains_addr r ip = eq128 (and128 (addr r) (netmask_bits r)) (and128 ip (netmask_bits r))"

definition IsV4 :: "byte_order \<Rightarrow> IPRange \<Rightarrow> bool" where
  "IsV4 bo r = Contains_addr (V4MappedRange bo) (addr r)"

definition HostmaskBits :: "byte_order \<Rightarrow> IPRange \<Rightarrow> nat" where
  "HostmaskBits bo r =
     (if IsV4 bo r then count_bits (TruncateV6 bo (netmask_bits r)) else count_bits_128 (netmask_bits r))"

definition Contains_v4 :: "byte_order \<Rightarrow> IPRange \<Rightarrow> ipv4addr \<Rightarrow> bool" where
  "Contains_v4 bo r ip = (if \<not> IsV4 bo r then False else Contains_addr r (ExpandV4 bo ip))"

datatype ipaddr = V4 ipv4addr | V6 ipv6addr

fun Contains_ip :: "byte_order \<Rightarrow> IPRange \<Rightarrow> ipaddr \<Rightarrow> bool" where
  "Contains_ip bo r (V4 ip) = Contains_v4 bo r ip"
| "Contains_ip bo r (V6 ip) = Contains_addr r ip"

definition BaseAddr :: "byte_order \<Rightarrow> IPRange \<Rightarrow> ipaddr" where
  "BaseAddr bo r =
     (if IsV4 bo r then V4 (ToNet4 bo (ToHost4 bo (TruncateV6 bo (addr r)) + 1))
      else V6 (ToNet6 bo (add128 (ToHost6 bo (addr r)) (mk128 0 1))))"

definition HighestAddr :: "byte_order \<Rightarrow> IPRange \<Rightarrow> ipv6addr" where
  "HighestAddr bo r =
     ToNet6 bo (sub128 (add128 (ToHost6 bo (and128 (addr r) (netmask_bits r)))
                               (shl128 (mk128 0 1) (128 - count_bits_128 (netmask_bits r))))
                       (mk128 0 1))"

definition Contains_range :: "byte_order \<Rightarrow> IPRange \<Rightarrow> IPRange \<Rightarrow> bool" where
  "Contains_range bo r other = (Contains_addr r (addr other) \<and> Contains_addr r (HighestAddr bo other))"

definition range_intersects :: "byte_order \<Rightarrow> IPRange \<Rightarrow> IPRange \<Rightarrow> bool" where
  "range_intersects bo r other = (Contains_range bo r other \<or> Contains_range bo other r)"

definition range_less :: "byte_order \<Rightarrow> IPRange \<Rightarrow> IPRange \<Rightarrow> bool" where
  "range_less bo r other =
     (let maskedA = ToHost6 bo (and128 (addr r) (netmask_bits r));
          maskedB = ToHost6 bo (and128 (addr other) (netmask_bits other));
          h_net_bits = ToHost6 bo (netmask_bits r);
          h_other_bits = ToHost6 bo (netmask_bits other)
      in less128 maskedA maskedB \<or> \<not> less128 maskedB maskedA \<and> less128 h_net_bits h_other_bits)"

definition range_eq :: "IPRange \<Rightarrow> IPRange \<Rightarrow> bool" where
  "range_eq r other = (eq128 (addr r) (addr other) \<and> eq128 (netmask_bits r) (netmask_bits other))"

section \<open>A free private range\<close>

definition private_candidates :: "byte_order \<Rightarrow> IPRange list" where
  "private_candidates bo =
     map (\<lambda>oct. FromIPv4_octets bo 172 (of_nat oct) 0 1 16) [16..<32] @
     map (\<lambda>oct. FromIPv4_octets bo 10 (of_nat oct) 0 1 16) [0..<256] @
     map (\<lambda>oct. FromIPv4_octets bo 192 168 (of_nat oct) 1 24) [0..<256]"

text \<open>The three loops return the first candidate that no excluded range meets.\<close>

definition FindPrivateRange :: "byte_order \<Rightarrow> IPRange list \<Rightarrow> IPRange option" where
  "FindPrivateRange bo excluding =
     List.find (\<lambda>rng. \<not> list_ex (\<lambda>ex. range_intersects bo ex rng) excluding) (private_candidates bo)"

section \<open>Bogon addresses\<close>

definition bogonRanges_v6 :: "byte_order \<Rightarrow> IPRange list" where
  "bogonRanges_v6 bo =
     [mk_range (ToNet6 bo (mk128 0 0)) (netmask_ipv6_bits bo 128),
      mk_range (ToNet6 bo (mk128 0 1)) (netmask_ipv6_bits bo 128),
      mk_range (ToNet6 bo (mk128 0x0200000000000000 0)) (netmask_ipv6_bits bo 7),
      mk_range (ToNet6 bo (mk128 0xff00000000000000 0)) (netmask_ipv6_bits bo 8),
      mk_range (ToNet6 bo (mk128 0xfc00000000000000 0)) (netmask_ipv6_bits bo 8),
      mk_range (ToNet6 bo (mk128 0xf800000000000000 0)) (netmask_ipv6_bits bo 8)]"

definition bogonRanges_v4 :: "byte_order \<Rightarrow> IPRange list" where
  "bogonRanges_v4 bo =
     [FromIPv4_octets bo 0 0 0 0 8, FromIPv4_octets bo 10 0 0 0 8, FromIPv4_octets bo 100 64 0 0 10,
      FromIPv4_octets bo 127 0 0 0 8, FromIPv4_octets bo 169 254 0 0 16, FromIPv4_octets bo 172 16 0 0 12,
      FromIPv4_octets bo 192 0 0 0 24, FromIPv4_octets bo 192 0 2 0 24, FromIPv4_octets bo 192 88 99 0 24,
      FromIPv4_octets bo 192 168 0 0 16, FromIPv4_octets bo 198 18 0 0 15, FromIPv4_octets bo 198 51 100 0 24,
      FromIPv4_octets bo 203 0 113 0 24, FromIPv4_octets bo 224 0 0 0 4, FromIPv4_octets bo 240 0 0 0 4]"

definition IsBogonIP6 :: "byte_order \<Rightarrow> ipv6addr \<Rightarrow> bool" where
  "IsBogonIP6 bo ip =
     (if \<not> Contains_addr (V4MappedRange bo) ip
      then list_ex (\<lambda>v6_range. Contains_addr v6_range ip) (bogonRanges_v6 bo)
      else let v4_addr = TruncateV6 bo ip
           in list_ex (\<lambda>v4_range. Contains_v4 bo v4_range v4_addr) (bogonRanges_v4 bo))"

fun IsBogonIP :: "byte_order \<Rightarrow> ipaddr \<Rightarrow> bool" where
  "IsBogonIP bo (V4 ip) = IsBogonIP6 bo (ExpandV4 bo ip)"
| "IsBogonIP bo (V6 ip) = IsBogonIP6 bo ip"

fun IsWildcardAddress :: "ipaddr \<Rightarrow> bool" where
  "IsWildcardAddress (V4 ip) = (ip = 0)"
| "IsWildcardAddress (V6 ip) = (\<not> nonzero128 ip)"

definition IsLoopbackAddress :: "byte_order \<Rightarrow> ipaddr \<Rightarrow> bool" where
  "IsLoopbackAddress bo ip =
     (Contains_ip bo (FromIPv4_octets bo 127 0 0 0 8) ip \<or>
      Contains_ip bo (mk_range (ToNet6 bo (mk128 0 1)) (netmask_ipv6_bits bo 128)) ip)"

definition IsBogonRange :: "byte_order \<Rightarrow> IPRange \<Rightarrow> bool" where
  "IsBogonRange bo rng =
     (if IsV4 bo rng \<and> eq128 (netmask_bits rng) (netmask_ipv6_bits bo 96) then False
      else if IsWildcardAddress (V6 (netmask_bits rng)) then False
      else IsBogonIP6 bo (addr rng) \<or> IsBogonIP6 bo (HighestAddr bo rng))"

section \<open>Ranges mapped to values\<close>

type_synonym 'v range_map = "(IPRange \<times> 'v) list"

definition map_values :: "'v range_map \<Rightarrow> 'v set" where
  "map_values m = set (map snd m)"

definition map_empty :: "'v range_map \<Rightarrow> bool" where
  "map_empty m = (m = [])"

fun ContainsValue :: "'v range_map \<Rightarrow> 'v \<Rightarrow> bool" where
  "ContainsValue [] val = False"
| "ContainsValue (entry # m) val = (if snd entry = val then True else ContainsValue m val)"

definition TransformValues :: "('v \<Rightarrow> 't) \<Rightarrow> 'v range_map \<Rightarrow> 't set" where
  "TransformValues transform m = foldl (\<lambda>acc entry. insert (transform (snd entry)) acc) {} m"

fun GetExact :: "'v range_map \<Rightarrow> IPRange \<Rightarrow> 'v option" where
  "GetExact [] rng = None"
| "GetExact ((r, value) # m) rng = (if range_eq r rng then Some value else GetExact m rng)"

definition FindAllEntries :: "'v range_map \<Rightarrow> ipv6addr \<Rightarrow> (IPRange \<times> 'v) set" where
  "FindAllEntries m ip =
     foldl (\<lambda>found entry. if Contains_addr (fst entry) ip then insert entry found else found) {} m"

definition map_insert :: "'v range_map \<Rightarrow> IPRange \<Rightarrow> 'v \<Rightarrow> 'v range_map" where
  "map_insert m rng val = m @ [(rng, val)]"

fun RemoveIf :: "(IPRange \<times> 'v \<Rightarrow> bool) \<Rightarrow> 'v range_map \<Rightarrow> 'v range_map" where
  "RemoveIf visit [] = []"
| "RemoveIf visit (entry # m) = (if visit entry then RemoveIf visit m else entry # RemoveIf visit m)"

text \<open>
  Unmapping exit ranges; the second component says that the route poker is told to go down.
\<close>

definition UnmapExitRange :: "byte_order \<Rightarrow> IPRange \<Rightarrow> 'v range_map \<Rightarrow> 'v range_map \<times> bool" where
  "UnmapExitRange bo rng m_ExitMap =
     (let m = RemoveIf (\<lambda>item. if \<not> Contains_range bo rng (fst item) then False else True) m_ExitMap
      in (m, map_empty m))"

definition UnmapRangeByExit ::
  "byte_order \<Rightarrow> ('v \<Rightarrow> string) \<Rightarrow> IPRange \<Rightarrow> string \<Rightarrow> 'v range_map \<Rightarrow> 'v range_map \<times> bool" where
  "UnmapRangeByExit bo ToString rng exit m_ExitMap =
     (let m = RemoveIf (\<lambda>item. Contains_range bo rng (fst item) \<and> ToString (snd item) = exit) m_ExitMap
      in (m, map_empty m))"

definition MapExitRange :: "IPRange \<Rightarrow> 'v \<Rightarrow> 'v range_map \<Rightarrow> 'v range_map" where
  "MapExitRange rng exit m_ExitMap = map_insert m_ExitMap rng exit"

section \<open>Prefix ranges\<close>

text \<open>
  The ranges the program builds have a netmask of some prefix length \<open>n\<close>.  The host value of the
  address then decides membership by its \<open>n\<close> highest bits.
\<close>

definition host :: "byte_order \<Rightarrow> ipv6addr \<Rightarrow> 128 word" where
  "host bo ip = val128 (ToHost6 bo ip)"

definition prefix_range :: "byte_order \<Rightarrow> IPRange \<Rightarrow> nat \<Rightarrow> bool" where
  "prefix_range bo r n \<longleftrightarrow> n \<le> 128 \<and> netmask_bits r = netmask_ipv6_bits bo (of_nat n)"

lemma drop_bit_masked: "drop_bit k (a AND NOT (mask k)) = drop_bit k a" for a :: "'a::len word"
  by (rule bit_word_eqI) (auto simp: bit_simps dest: bit_imp_le_length)

lemma push_bit_drop_bit_masked: "push_bit k (drop_bit k a) = a AND NOT (mask k)" for a :: "'a::len word"
  by (rule bit_word_eqI) (auto simp: bit_simps)

lemma masked_eq_iff: "a AND NOT (mask k) = b AND NOT (mask k) \<longleftrightarrow> drop_bit k a = drop_bit k b" for a b :: "'a::len word"
proof
  assume "a AND NOT (mask k) = b AND NOT (mask k)"
  then have "drop_bit k (a AND NOT (mask k)) = drop_bit k (b AND NOT (mask k))" by (rule arg_cong)
  then show "drop_bit k a = drop_bit k b" by (simp only: drop_bit_masked)
next
  assume "drop_bit k a = drop_bit k b"
  then have "push_bit k (drop_bit k a) = push_bit k (drop_bit k b)" by (rule arg_cong)
  then show "a AND NOT (mask k) = b AND NOT (mask k)" by (simp only: push_bit_drop_bit_masked)
qed

lemma drop_bit_mask_0: "k \<le> j \<Longrightarrow> drop_bit j (mask k :: 'a::len word) = 0"
  by (rule bit_word_eqI) (auto simp: bit_simps)

lemma or_mask_masked: "(a AND NOT (mask k)) OR mask k = a OR mask k" for a :: "'a::len word"
  by (rule bit_word_eqI) (auto simp: bit_simps)

lemma masked_plus_ones: "(a AND NOT (mask k)) + push_bit k 1 - 1 = a OR mask k" for a :: "'a::len word"
proof -
  have "(a AND NOT (mask k)) + mask k = (a AND NOT (mask k)) OR mask k"
    by (rule disjunctive_add) (auto simp: bit_simps)
  also have "\<dots> = a OR mask k" by (rule or_mask_masked)
  finally show ?thesis by (simp add: mask_eq_exp_minus_1 algebra_simps)
qed

lemma le_or_mask: "drop_bit k a = drop_bit k b \<Longrightarrow> a \<le> b OR mask k" for a b :: "'a::len word"
proof -
  assume eq: "drop_bit k a = drop_bit k b"
  have "a OR mask k = b OR mask k"
    using eq by (simp only: masked_eq_iff[symmetric] or_mask_masked[of a, symmetric] or_mask_masked[of b, symmetric])
  moreover have "a \<le> a OR mask k"
    by (rule le_word_or2)
  ultimately show ?thesis by simp
qed

context network_order
begin

lemma Contains_addr_iff:
  assumes "prefix_range bo r n"
  shows "Contains_addr r ip \<longleftrightarrow> drop_bit (128 - n) (host bo (addr r)) = drop_bit (128 - n) (host bo ip)"
proof -
  have n: "n \<le> 128" "netmask_bits r = netmask_ipv6_bits bo (of_nat n)"
    using assms by (simp_all add: prefix_range_def)
  have "Contains_addr r ip \<longleftrightarrow>
      val128 (ToHost6 bo (and128 (addr r) (netmask_bits r))) = val128 (ToHost6 bo (and128 ip (netmask_bits r)))"
    by (simp add: Contains_addr_def eq128_iff val128_inject ToHost6_inject)
  also have "\<dots> \<longleftrightarrow> host bo (addr r) AND NOT (mask (128 - n)) = host bo ip AND NOT (mask (128 - n))"
    using n netmask_ipv6_bits_host[of n] by (simp add: ToHost6_and val128_bitwise host_def)
  finally show ?thesis by (simp only: masked_eq_iff)
qed

lemma host_HighestAddr:
  assumes "prefix_range bo r n"
  shows "host bo (HighestAddr bo r) = host bo (addr r) OR mask (128 - n)"
proof -
  have n: "n \<le> 128" "netmask_bits r = netmask_ipv6_bits bo (of_nat n)"
    using assms by (simp_all add: prefix_range_def)
  have "host bo (HighestAddr bo r) = (host bo (addr r) AND NOT (mask (128 - n))) + push_bit (128 - n) 1 - 1"
    using n netmask_ipv6_bits_host[of n] count_bits_netmask[of n]
    by (simp add: HighestAddr_def host_def val128_hom ToHost6_and val128_mk)
  then show ?thesis by (simp only: masked_plus_ones)
qed

lemma HighestAddr_greatest:
  assumes "prefix_range bo r n"
  shows "Contains_addr r (HighestAddr bo r)"
    "Contains_addr r ip \<Longrightarrow> host bo ip \<le> host bo (HighestAddr bo r)"
  using assms
  by (auto simp: Contains_addr_iff host_HighestAddr drop_bit_mask_0 intro!: le_or_mask)

lemma Contains_range_wider:
  assumes "prefix_range bo r n" "prefix_range bo r' n'" "n \<le> n'"
  shows "Contains_range bo r r' \<longleftrightarrow> Contains_addr r (addr r')"
proof -
  have "128 - n' \<le> 128 - n" using assms(3) by simp
  then show ?thesis
    using assms(1,2) by (simp add: Contains_range_def Contains_addr_iff host_HighestAddr drop_bit_mask_0)
qed

lemma drop_bit_mono:
  fixes a b :: "'a::len word"
  assumes "drop_bit j a = drop_bit j b" "j \<le> k"
  shows "drop_bit k a = drop_bit k b"
proof -
  have split: "drop_bit k x = drop_bit (k - j) (drop_bit j x)" for x :: "'a word"
    using assms(2) by (simp add: drop_bit_drop_bit)
  show ?thesis unfolding split[of a] split[of b] assms(1) ..
qed

lemma intersects_wider:
  assumes r: "prefix_range bo r n" "prefix_range bo r' n'" and le: "n \<le> n'"
    and ip: "Contains_addr r ip" "Contains_addr r' ip"
  shows "Contains_range bo r r'"
proof -
  have "drop_bit (128 - n) (host bo (addr r')) = drop_bit (128 - n) (host bo ip)"
  proof (rule drop_bit_mono)
    show "drop_bit (128 - n') (host bo (addr r')) = drop_bit (128 - n') (host bo ip)"
      using ip(2) Contains_addr_iff[OF r(2)] by blast
    show "128 - n' \<le> 128 - n" using le by simp
  qed
  then show ?thesis
    using ip(1) by (simp only: Contains_range_wider[OF r le] Contains_addr_iff[OF r(1)])
qed

lemma Contains_own: "Contains_addr r (addr r)"
  by (simp add: Contains_addr_def eq128_def)

lemma range_intersects_iff:
  assumes "prefix_range bo r n" "prefix_range bo r' n'"
  shows "range_intersects bo r r' \<longleftrightarrow> (\<exists>ip. Contains_addr r ip \<and> Contains_addr r' ip)"
proof
  assume "range_intersects bo r r'"
  then show "\<exists>ip. Contains_addr r ip \<and> Contains_addr r' ip"
    using Contains_own by (auto simp: range_intersects_def Contains_range_def)
next
  assume "\<exists>ip. Contains_addr r ip \<and> Contains_addr r' ip"
  then obtain ip where ip: "Contains_addr r ip" "Contains_addr r' ip" by blast
  then show "range_intersects bo r r'"
    using intersects_wider[OF assms _ ip] intersects_wider[OF assms(2,1) _ ip(2,1)]
    by (cases "n \<le> n'") (auto simp: range_intersects_def)
qed

lemma host_FromIPv4:
  "host bo (addr (FromIPv4_octets bo a b c d m)) =
     val128 (expand_v4 (host_ipaddr_ipv4_bits (ucast a) (ucast b) (ucast c) (ucast d)))"
  by (simp add: FromIPv4_octets_def mk_range_def host_def ExpandV4_def ipaddr_ipv4_bits_def)

lemma prefix_FromIPv4:
  assumes "unat m \<le> 32"
  shows "prefix_range bo (FromIPv4_octets bo a b c d m) (unat m + 96)"
proof -
  have "(ucast m + 96 :: u32) = of_nat (unat m + 96)" by simp
  then show ?thesis using assms by (simp add: prefix_range_def FromIPv4_octets_def mk_range_def)
qed

end

section \<open>Properties\<close>

text \<open>
  Claim C16. For a range with a prefix netmask, \<open>HighestAddr\<close> is an address of the range and no address of
  the range is above it.
\<close>

theorem HighestAddr_is_maximum:
  assumes "network_order bo" "prefix_range bo r n"
  shows "Contains_addr r (HighestAddr bo r) \<and>
    (\<forall>ip. Contains_addr r ip \<longrightarrow> le128 (ToHost6 bo ip) (ToHost6 bo (HighestAddr bo r)))"
  using network_order.HighestAddr_greatest[OF assms] by (simp add: host_def val128_le)

lemma prefix_loopback: "prefix_range little_endian (FromIPv4_octets little_endian 127 0 0 1 8) 104"
  using little_endian_order.prefix_FromIPv4[of 8 127 0 0 1] by simp

theorem HighestAddr_is_maximum_witness:
  "Contains_addr (FromIPv4_octets little_endian 127 0 0 1 8)
     (HighestAddr little_endian (FromIPv4_octets little_endian 127 0 0 1 8))"
  using HighestAddr_is_maximum[OF little_endian_order.network_order_axioms prefix_loopback] by blast

text \<open>
  Claim C17. For ranges with prefix netmasks the operator that tells whether two ranges meet is right: it
  holds exactly when some address lies in both.
\<close>

theorem range_intersects_correct:
  assumes "network_order bo" "prefix_range bo r n" "prefix_range bo r' n'"
  shows "range_intersects bo r r' \<longleftrightarrow> (\<exists>ip. Contains_addr r ip \<and> Contains_addr r' ip)"
  using assms by (rule network_order.range_intersects_iff)

theorem range_intersects_correct_witness:
  "range_intersects little_endian (FromIPv4_octets little_endian 127 0 0 1 8) (FromIPv4_octets little_endian 127 0 0 1 8)"
  using range_intersects_correct[OF little_endian_order.network_order_axioms prefix_loopback prefix_loopback]
    little_endian_order.Contains_own by blast

lemma private_candidates_prefix:
  assumes "network_order bo" "r \<in> set (private_candidates bo)"
  shows "\<exists>n. prefix_range bo r n"
proof -
  have "\<exists>n. prefix_range bo (FromIPv4_octets bo a b c d 16) n" "\<exists>n. prefix_range bo (FromIPv4_octets bo a b c d 24) n"
    for a b c d
    using network_order.prefix_FromIPv4[OF assms(1), of 16 a b c d]
      network_order.prefix_FromIPv4[OF assms(1), of 24 a b c d] by auto
  then show ?thesis
    using assms(2) unfolding private_candidates_def set_append set_map by (elim UnE imageE) simp_all
qed

lemma find_first:
  "(case List.find P xs of Some x \<Rightarrow> x \<in> set xs \<and> P x | None \<Rightarrow> \<forall>x\<in>set xs. \<not> P x)"
  by (induction xs) (auto split: option.splits)

text \<open>
  Claim C18. Given excluded ranges with prefix netmasks, \<open>FindPrivateRange\<close> returns a candidate private
  range that shares no address with any excluded range, and gives up only when every candidate
  shares one.
\<close>

theorem FindPrivateRange_correct:
  assumes bo: "network_order bo" and ex: "\<And>r. r \<in> set excluding \<Longrightarrow> \<exists>n. prefix_range bo r n"
  shows "case FindPrivateRange bo excluding of
      Some r \<Rightarrow> r \<in> set (private_candidates bo) \<and>
        (\<forall>e\<in>set excluding. \<not> (\<exists>ip. Contains_addr e ip \<and> Contains_addr r ip))
    | None \<Rightarrow> \<forall>r\<in>set (private_candidates bo). \<exists>e\<in>set excluding. \<exists>ip. Contains_addr e ip \<and> Contains_addr r ip"
proof -
  have meets: "range_intersects bo e r \<longleftrightarrow> (\<exists>ip. Contains_addr e ip \<and> Contains_addr r ip)"
    if "e \<in> set excluding" "r \<in> set (private_candidates bo)" for e r
    using ex[OF that(1)] private_candidates_prefix[OF bo that(2)] network_order.range_intersects_iff[OF bo] by metis
  show ?thesis
    using find_first[of "private_candidates bo" "\<lambda>r. \<not> list_ex (\<lambda>e. range_intersects bo e r) excluding"] meets
    by (auto simp: FindPrivateRange_def list_ex_iff split: option.splits)
qed

theorem FindPrivateRange_correct_witness:
  "case FindPrivateRange little_endian [FromIPv4_octets little_endian 127 0 0 1 8] of
      Some r \<Rightarrow> r \<in> set (private_candidates little_endian)
    | None \<Rightarrow> \<forall>r\<in>set (private_candidates little_endian). \<exists>ip.
        Contains_addr (FromIPv4_octets little_endian 127 0 0 1 8) ip \<and> Contains_addr r ip"
proof -
  have "\<exists>n. prefix_range little_endian r n" if "r \<in> set [FromIPv4_octets little_endian 127 0 0 1 8]" for r
    using that prefix_loopback by auto
  from FindPrivateRange_correct[OF little_endian_order.network_order_axioms, where
      excluding = "[FromIPv4_octets little_endian 127 0 0 1 8]", OF this] show ?thesis
    by (auto split: option.splits)
qed

lemma RemoveIf_filter: "RemoveIf P m = filter (\<lambda>e. \<not> P e) m"
  by (induction m) auto

lemma host_octets:
  assumes "network_order bo"
  shows "host bo (addr (FromIPv4_octets bo 10 0 255 0 24)) = 0xffff0a00ff00"
    "host bo (addr (FromIPv4_octets bo 10 0 255 1 16)) = 0xffff0a00ff01"
    "host bo (addr (FromIPv4_octets bo 10 0 0 1 16)) = 0xffff0a000001"
  using assms
  by (simp_all add: network_order.host_FromIPv4 expand_v4_def host_ipaddr_ipv4_bits_def val128_mk or128_def)

text \<open>
  Claim C19. \<open>Contains\<close> on ranges also holds for a range that is larger: the range 10.0.255.1/16 counts as
  inside 10.0.255.0/24, although 10.0.0.1 belongs to the first and not to the second, because only
  the stored address and the highest address of the inner range are tested.  Unmapping the exit
  range 10.0.255.0/24 therefore drops a mapping for the whole /16.
\<close>

theorem UnmapExitRange_drops_larger_range:
  assumes bo: "network_order bo"
  shows "UnmapExitRange bo (FromIPv4_octets bo 10 0 255 0 24) [(FromIPv4_octets bo 10 0 255 1 16, v)] = ([], True) \<and>
     Contains_addr (FromIPv4_octets bo 10 0 255 1 16) (addr (FromIPv4_octets bo 10 0 0 1 16)) \<and>
     \<not> Contains_addr (FromIPv4_octets bo 10 0 255 0 24) (addr (FromIPv4_octets bo 10 0 0 1 16))"
proof -
  have p: "prefix_range bo (FromIPv4_octets bo 10 0 255 0 24) 120" "prefix_range bo (FromIPv4_octets bo 10 0 255 1 16) 112"
    using network_order.prefix_FromIPv4[OF bo, of 24] network_order.prefix_FromIPv4[OF bo, of 16] by simp_all
  note facts = network_order.Contains_addr_iff[OF bo p(1)] network_order.Contains_addr_iff[OF bo p(2)]
    network_order.host_HighestAddr[OF bo p(2)] host_octets[OF bo]
  show ?thesis
    by (simp add: UnmapExitRange_def Contains_range_def map_empty_def facts mask_numeral drop_bit_eq_div)
qed

theorem UnmapExitRange_drops_larger_range_witness:
  "fst (UnmapExitRange little_endian (FromIPv4_octets little_endian 10 0 255 0 24)
     [(FromIPv4_octets little_endian 10 0 255 1 16, ''exit'')]) = []"
  using UnmapExitRange_drops_larger_range[OF little_endian_order.network_order_axioms, of "''exit''"] by simp

end
