(* ===== verification/Router_Contact.thy ===== *)
theory Router_Contact
  imports Intro_Set IP_Range
begin

text \<open>
  Router contacts (\<open>llarp/router_contact.cpp\<close>) with the parts they are made of: network identifiers,
  addresses (\<open>llarp/net/address_info.cpp\<close>) and router versions (\<open>llarp/router_version.cpp\<close>).  The text
  form of an IPv6 address (\<open>inet_ntop\<close>, \<open>inet_pton\<close>), the byte order and the signature functions are
  parameters.  Contacts of version 1 carry the signed dictionary as a string inside of a list that
  \<open>oxenc\<close> reads; that reader is a parameter too, and so is the codec of the service records, which only
  version 1 writes.
\<close>

section \<open>Network identifiers\<close>

type_synonym NetID = "byte list"

definition c_str :: "byte list \<Rightarrow> byte list" where
  "c_str bs = takeWhile (\<lambda>c. c \<noteq> 0) bs"

text \<open>Copy into a zeroed array of \<open>n\<close> bytes.\<close>

definition zero_pad :: "nat \<Rightarrow> byte list \<Rightarrow> byte list" where
  "zero_pad n bs = bs @ replicate (n - length bs) 0"

definition NetID_of :: "byte list \<Rightarrow> NetID" where
  "NetID_of val = zero_pad 8 (take 8 (c_str val))"

definition NetID_ToString :: "NetID \<Rightarrow> byte list" where
  "NetID_ToString n = c_str n"

definition NetID_eq :: "NetID \<Rightarrow> NetID \<Rightarrow> bool" where
  "NetID_eq a b \<longleftrightarrow> NetID_ToString a = NetID_ToString b"

definition NetID_BEncode :: "NetID \<Rightarrow> writer" where
  "NetID_BEncode n = bencode_write_bytestring (c_str n)"

definition NetID_BDecode :: "buf \<Rightarrow> (NetID option \<times> buf) result" where
  "NetID_BDecode b =
     bindE (bencode_read_string b) (\<lambda>(r, b'). case r of
         None \<Rightarrow> Inr (None, b')
       | Some str \<Rightarrow> if sz str > 8 then Inr (None, b') else Inr (Some (zero_pad 8 (mem str)), b'))"

section \<open>Router versions\<close>

record RouterVersion =
  m_Version :: "u16 list"
  m_ProtoVersion :: int

definition emptyRouterVersion :: RouterVersion where
  "emptyRouterVersion = \<lparr>m_Version = [0, 0, 0], m_ProtoVersion = -1\<rparr>"

definition RouterVersion_IsEmpty :: "RouterVersion \<Rightarrow> bool" where
  "RouterVersion_IsEmpty v \<longleftrightarrow> v = emptyRouterVersion"

definition IsCompatableWith :: "RouterVersion \<Rightarrow> RouterVersion \<Rightarrow> bool" where
  "IsCompatableWith v other \<longleftrightarrow> m_ProtoVersion v = m_ProtoVersion other"

definition RouterVersion_BEncode :: "RouterVersion \<Rightarrow> writer" where
  "RouterVersion_BEncode v = write_all
     ([bencode_start_list]
      @ (if \<not> RouterVersion_IsEmpty v
         then bencode_write_uint64 (word_of_int (m_ProtoVersion v))
              # map (\<lambda>i. bencode_write_uint64 (ucast i)) (m_Version v)
         else [])
      @ [bencode_end])"

text \<open>The sink captures the object and the index of the next number.\<close>

definition version_sink :: "(RouterVersion \<times> nat) list_sink" where
  "version_sink = (\<lambda>(v, idx) b has.
     if \<not> has then Inr (True, (v, idx), b)
     else if idx = 0 then
       bindE (bencode_read_integer b) (\<lambda>(r, b'). case r of
           None \<Rightarrow> Inr (False, (v, idx), b')
         | Some val \<Rightarrow> Inr (True, (v\<lparr>m_ProtoVersion := sint val\<rparr>, Suc idx), b'))
     else
       bindE (bencode_read_integer b) (\<lambda>(r, b'). case r of
           None \<Rightarrow> Inr (False, (v, idx), b')
         | Some i \<Rightarrow>
             if idx > 3 then Inr (False, (v, idx), b')
             else Inr (True, (v\<lparr>m_Version := (m_Version v)[idx - 1 := ucast i]\<rparr>, Suc idx), b')))"

definition RouterVersion_BDecode :: "buf \<Rightarrow> (RouterVersion option \<times> buf) result" where
  "RouterVersion_BDecode b =
     bindE (bencode_read_list version_sink (emptyRouterVersion, 0) b) (\<lambda>(ok, (v, idx), b').
       Inr (if ok \<and> (idx = 4 \<or> idx = 0) then Some v else None, b'))"

section \<open>Addresses\<close>

record AddressInfo =
  ai_rank :: u16
  ai_dialect :: "byte list"
  ai_pubkey :: key
  ai_ip :: ipv6addr
  ai_port :: u16
  ai_version :: u64

definition new_AddressInfo :: AddressInfo where
  "new_AddressInfo = \<lparr>ai_rank = 0, ai_dialect = [], ai_pubkey = zero_key, ai_ip = mk128 0 0, ai_port = 0,
     ai_version = proto_version\<rparr>"

definition AddressInfo_eq :: "AddressInfo \<Rightarrow> AddressInfo \<Rightarrow> bool" where
  "AddressInfo_eq lhs rhs \<longleftrightarrow>
     ai_pubkey lhs = ai_pubkey rhs \<and> ai_port lhs = ai_port rhs \<and> ai_dialect lhs = ai_dialect rhs \<and>
     ai_ip lhs = ai_ip rhs"

definition AddressInfo_BEncode :: "(ipv6addr \<Rightarrow> byte list option) \<Rightarrow> AddressInfo \<Rightarrow> writer" where
  "AddressInfo_BEncode inet_ntop a =
     (case inet_ntop (ai_ip a) of
        None \<Rightarrow> write_all
          [bencode_start_dict,
           write_entry 99 (bencode_write_uint64 (ucast (ai_rank a))),
           write_entry 100 (bencode_write_bytestring (ai_dialect a)),
           write_entry 101 (bencode_write_bytestring (ai_pubkey a)),
           \<lambda>b. (False, b)]
      | Some ipstr \<Rightarrow> write_msg
          [write_entry 99 (bencode_write_uint64 (ucast (ai_rank a))),
           write_entry 100 (bencode_write_bytestring (ai_dialect a)),
           write_entry 101 (bencode_write_bytestring (ai_pubkey a)),
           write_entry 105 (bencode_write_bytestring (take 128 ipstr)),
           write_entry 112 (bencode_write_uint64 (ucast (ai_port a))),
           bencode_write_uint64_entry [118] proto_version])"

text \<open>The test on ranks and ports, which lets 65536 through.\<close>

definition rank_or_port :: "u64 \<Rightarrow> bool" where
  "rank_or_port i \<longleftrightarrow> \<not> (i > 65536 \<or> i \<le> 0)"

definition AddressInfo_DecodeKey ::
  "(byte list \<Rightarrow> ipv6addr option) \<Rightarrow> AddressInfo \<Rightarrow> buf \<Rightarrow> buf \<Rightarrow> (bool \<times> AddressInfo \<times> buf) result" where
  "AddressInfo_DecodeKey inet_pton = decode_key
     [Return_On [99] (checked_int rank_or_port (\<lambda>s i. s\<lparr>ai_rank := ucast i\<rparr>)),
      Return_On [100] (string_value (\<lambda>str. \<not> length str \<ge> 128) (\<lambda>s str. s\<lparr>ai_dialect := c_str str\<rparr>)),
      Return_On [101] (item_value (aligned_BDecode 32) (\<lambda>s k. s\<lparr>ai_pubkey := k\<rparr>)),
      Return_On [105] (string_value (\<lambda>str. \<not> length str \<ge> 128 \<and> inet_pton (c_str str) \<noteq> None)
                        (\<lambda>s str. s\<lparr>ai_ip := the (inet_pton (c_str str))\<rparr>)),
      Return_On [112] (checked_int rank_or_port (\<lambda>s i. s\<lparr>ai_port := ucast i\<rparr>)),
      Return_On [118] (checked_int (\<lambda>i. i = proto_version) (\<lambda>s i. s))] return_false"

definition AddressInfo_BDecode :: "(byte list \<Rightarrow> ipv6addr option) \<Rightarrow> buf \<Rightarrow> (AddressInfo option \<times> buf) result" where
  "AddressInfo_BDecode inet_pton = decode_object (AddressInfo_DecodeKey inet_pton) new_AddressInfo"

section \<open>Router contacts\<close>

record 'srv RouterContact =
  rc_addrs :: "AddressInfo list"
  rc_netID :: NetID
  rc_enckey :: key
  rc_pubkey :: key
  rc_signature :: "byte list"
  rc_nickname :: "byte list"
  rc_last_updated :: llarp_time_t
  rc_version :: u64
  rc_routerVersion :: "RouterVersion option"
  rc_signed_bt_dict :: "byte list"
  rc_srvRecords :: "'srv list"

text \<open>The functions the contact is encoded, decoded and signed with that are not part of the sources.\<close>

record 'srv rc_env =
  env_order :: byte_order
  env_ntop :: "ipv6addr \<Rightarrow> byte list option"
  env_pton :: "byte list \<Rightarrow> ipv6addr option"
  env_srv_enc :: "'srv \<Rightarrow> writer"
  env_srv_dec :: "buf \<Rightarrow> ('srv option \<times> buf) result"
  env_verify :: "key \<Rightarrow> byte list \<Rightarrow> byte list \<Rightarrow> bool"
  env_list1 :: "byte list \<Rightarrow> (u64 \<times> byte list \<times> byte list) option"
  env_netid :: NetID

definition MAX_RC_SIZE :: nat where
  "MAX_RC_SIZE = 1024"

definition rc_lifetime :: llarp_time_t where
  "rc_lifetime = 24 * 60 * 60 * 1000"

definition rc_expire_age :: llarp_time_t where
  "rc_expire_age = rc_lifetime * 10"

definition RouterContact_Clear :: "'srv RouterContact \<Rightarrow> 'srv RouterContact" where
  "RouterContact_Clear rc = rc\<lparr>rc_addrs := [], rc_signature := replicate 64 0, rc_nickname := replicate 32 0,
     rc_enckey := zero_key, rc_pubkey := zero_key, rc_routerVersion := None, rc_last_updated := 0,
     rc_srvRecords := [], rc_version := proto_version\<rparr>"

definition new_RouterContact :: "NetID \<Rightarrow> 'srv RouterContact" where
  "new_RouterContact netid = RouterContact_Clear \<lparr>rc_addrs = [], rc_netID = netid, rc_enckey = zero_key,
     rc_pubkey = zero_key, rc_signature = replicate 64 0, rc_nickname = replicate 32 0, rc_last_updated = 0,
     rc_version = proto_version, rc_routerVersion = None, rc_signed_bt_dict = [], rc_srvRecords = []\<rparr>"

definition Nick :: "'srv RouterContact \<Rightarrow> byte list" where
  "Nick rc = c_str (rc_nickname rc)"

definition HasNick :: "'srv RouterContact \<Rightarrow> bool" where
  "HasNick rc \<longleftrightarrow> rc_nickname rc ! 0 \<noteq> 0"

definition SetNick :: "byte list \<Rightarrow> 'srv RouterContact \<Rightarrow> 'srv RouterContact" where
  "SetNick nick rc = rc\<lparr>rc_nickname := zero_pad 32 (take (min (length nick) 32) nick)\<rparr>"

definition IsPublicRouter :: "'srv RouterContact \<Rightarrow> bool" where
  "IsPublicRouter rc \<longleftrightarrow> (if rc_routerVersion rc = None then False else rc_addrs rc \<noteq> [])"

definition RouterContact_Age :: "'srv RouterContact \<Rightarrow> llarp_time_t \<Rightarrow> llarp_time_t" where
  "RouterContact_Age rc now = (if now > rc_last_updated rc then now - rc_last_updated rc else 0)"

definition RouterContact_IsExpired :: "'srv RouterContact \<Rightarrow> llarp_time_t \<Rightarrow> bool" where
  "RouterContact_IsExpired rc now \<longleftrightarrow> RouterContact_Age rc now \<ge> rc_expire_age"

definition TimeUntilExpires :: "'srv RouterContact \<Rightarrow> llarp_time_t \<Rightarrow> llarp_time_t" where
  "TimeUntilExpires rc now =
     (let expiresAt = rc_last_updated rc + rc_lifetime in if now < expiresAt then expiresAt - now else 0)"

definition RouterContact_ExpiresSoon :: "'srv RouterContact \<Rightarrow> llarp_time_t \<Rightarrow> llarp_time_t \<Rightarrow> bool" where
  "RouterContact_ExpiresSoon rc now dlt \<longleftrightarrow> TimeUntilExpires rc now \<le> dlt"

definition RouterContact_OtherIsNewer :: "'srv RouterContact \<Rightarrow> 'srv RouterContact \<Rightarrow> bool" where
  "RouterContact_OtherIsNewer rc other \<longleftrightarrow> rc_last_updated rc < rc_last_updated other"

definition FromOurNetwork :: "NetID \<Rightarrow> 'srv RouterContact \<Rightarrow> bool" where
  "FromOurNetwork netid rc \<longleftrightarrow> NetID_eq (rc_netID rc) netid"

definition BEncodeSignedSection :: "'srv rc_env \<Rightarrow> 'srv RouterContact \<Rightarrow> writer" where
  "BEncodeSignedSection env rc = write_msg
     ([write_entry 97 (BEncodeWriteList (AddressInfo_BEncode (env_ntop env)) (rc_addrs rc)),
       write_entry 105 (NetID_BEncode (rc_netID rc)),
       write_entry 107 (aligned_BEncode (rc_pubkey rc))]
      @ (if Nick rc \<noteq> [] then [write_entry 110 (bencode_write_bytestring (Nick rc))] else [])
      @ [write_entry 112 (aligned_BEncode (rc_enckey rc))]
      @ (case rc_routerVersion rc of None \<Rightarrow> [] | Some v \<Rightarrow> [BEncodeWriteDictEntry 114 (RouterVersion_BEncode v)])
      @ (if rc_version rc > 0 then [BEncodeWriteDictList 115 (env_srv_enc env) (rc_srvRecords rc)] else [])
      @ [write_entry 117 (bencode_write_uint64 (time_count (rc_last_updated rc))),
         bencode_write_uint64_entry [118] (rc_version rc),
         write_entry 120 (BEncodeWriteList aligned_BEncode [])]
      @ (if rc_version rc = 0 then [write_entry 122 (aligned_BEncode (rc_signature rc))] else []))"

definition RouterContact_BEncode :: "'srv rc_env \<Rightarrow> 'srv RouterContact \<Rightarrow> writer" where
  "RouterContact_BEncode env rc =
     (if rc_version rc = 0 then BEncodeSignedSection env rc
      else if rc_version rc = 1 then write_all
        [writef (ch_l # wire_uint64 1 @ dec_digits (length (rc_signature rc)) @ [ch_colon]),
         buf_write (rc_signature rc),
         buf_write (rc_signed_bt_dict rc),
         writef [ch_e]]
      else (\<lambda>b. (False, b)))"

definition RouterContact_DecodeKey ::
  "'srv rc_env \<Rightarrow> 'srv RouterContact \<Rightarrow> buf \<Rightarrow> buf \<Rightarrow> (bool \<times> 'srv RouterContact \<times> buf) result" where
  "RouterContact_DecodeKey env = decode_key
     [Field (field_list [97] (AddressInfo_BDecode (env_pton env)) rc_addrs (\<lambda>v. rc_addrs_update (\<lambda>_. v))),
      Field (field_entry [105] NetID_BDecode rc_netID (\<lambda>v. rc_netID_update (\<lambda>_. v))),
      Field (field_entry [107] (aligned_BDecode 32) rc_pubkey (\<lambda>v. rc_pubkey_update (\<lambda>_. v))),
      Return_On [114] (item_value RouterVersion_BDecode (\<lambda>s r. s\<lparr>rc_routerVersion := Some r\<rparr>)),
      Return_On [110] (string_value (\<lambda>str. \<not> length str > 32) (\<lambda>s str. s\<lparr>rc_nickname := zero_pad 32 str\<rparr>)),
      Field (field_list [115] (env_srv_dec env) rc_srvRecords (\<lambda>v. rc_srvRecords_update (\<lambda>_. v))),
      Field (field_entry [112] (aligned_BDecode 32) rc_enckey (\<lambda>v. rc_enckey_update (\<lambda>_. v))),
      Field (field_int [117] time_of_count rc_last_updated (\<lambda>v. rc_last_updated_update (\<lambda>_. v))),
      Field (field_int [118] id rc_version (\<lambda>v. rc_version_update (\<lambda>_. v))),
      Return_On [120] discard_value,
      Field (field_entry [122] (aligned_BDecode 64) rc_signature (\<lambda>v. rc_signature_update (\<lambda>_. v)))]
     read_or_discard"

text \<open>\<open>env_list1\<close> reads the outer version, the signature string and the signed dictionary of version 1.\<close>

definition DecodeVersion_1 ::
  "'srv rc_env \<Rightarrow> byte list \<Rightarrow> byte list \<Rightarrow> 'srv RouterContact \<Rightarrow> (bool \<times> 'srv RouterContact) result" where
  "DecodeVersion_1 env sigstr dict rc =
     (let rc1 = rc\<lparr>rc_signed_bt_dict := dict\<rparr> in
      if length sigstr \<noteq> 64 then Inr (False, rc1)
      else bindE (bencode_decode_dict (RouterContact_DecodeKey env) (rc1\<lparr>rc_signature := sigstr\<rparr>) (mk_buf dict))
        (\<lambda>(ok, rc2, _). Inr (ok, rc2)))"

definition RouterContact_BDecode ::
  "'srv rc_env \<Rightarrow> 'srv RouterContact \<Rightarrow> buf \<Rightarrow> ('srv RouterContact option \<times> buf) result" where
  "RouterContact_BDecode env rc0 b =
     (let rc = RouterContact_Clear rc0 in
      bindE (deref b) (\<lambda>c.
        if c = ch_d then
          bindE (bencode_decode_dict (RouterContact_DecodeKey env) rc b)
            (\<lambda>(ok, rc', b'). Inr (if ok then Some rc' else None, b'))
        else if c \<noteq> ch_l then Inr (None, b)
        else case env_list1 env (view_remaining b) of
            None \<Rightarrow> Inr (None, b)
          | Some (outer_version, sigstr, dict) \<Rightarrow>
              if outer_version = 1 then
                bindE (DecodeVersion_1 env sigstr dict rc) (\<lambda>(ok, rc').
                  if \<not> ok then Inr (None, b)
                  else bindE (bencode_discard b) (\<lambda>(ok', b'). Inr (if ok' then Some rc' else None, b')))
              else Inr (None, b)))"

definition VerifySignature :: "'srv rc_env \<Rightarrow> 'srv RouterContact \<Rightarrow> bool" where
  "VerifySignature env rc =
     (if rc_version rc = 0 then
        (case encode_into MAX_RC_SIZE (RouterContact_BEncode env (rc\<lparr>rc_signature := replicate 64 0\<rparr>)) of
           None \<Rightarrow> False
         | Some bs \<Rightarrow> env_verify env (rc_pubkey rc) bs (rc_signature rc))
      else if rc_version rc = 1 then env_verify env (rc_pubkey rc) (rc_signed_bt_dict rc) (rc_signature rc)
      else False)"

definition RouterContact_Verify :: "'srv rc_env \<Rightarrow> bool \<Rightarrow> 'srv RouterContact \<Rightarrow> llarp_time_t \<Rightarrow> bool \<Rightarrow> bool" where
  "RouterContact_Verify env BlockBogons rc now allowExpired =
     (if \<not> NetID_eq (rc_netID rc) (env_netid env) then False
      else if RouterContact_IsExpired rc now \<and> \<not> allowExpired then False
      else if list_ex (\<lambda>a. IsBogonIP (env_order env) (V6 (ai_ip a)) \<and> BlockBogons) (rc_addrs rc) then False
      else VerifySignature env rc)"

definition RouterContact_Sign ::
  "'srv rc_env \<Rightarrow> ('sk \<Rightarrow> byte list \<Rightarrow> byte list option) \<Rightarrow> ('sk \<Rightarrow> key) \<Rightarrow> llarp_time_t \<Rightarrow> 'sk
     \<Rightarrow> 'srv RouterContact \<Rightarrow> bool \<times> 'srv RouterContact" where
  "RouterContact_Sign env sign topublic now secretkey rc =
     (let rc1 = rc\<lparr>rc_pubkey := topublic secretkey, rc_signature := replicate 64 0, rc_last_updated := now\<rparr> in
      case encode_into MAX_RC_SIZE (BEncodeSignedSection env rc1) of
        None \<Rightarrow> (False, rc1)
      | Some bs \<Rightarrow>
          let rc2 = rc1\<lparr>rc_signed_bt_dict := bs\<rparr> in
          if rc_version rc2 = 0 \<or> rc_version rc2 = 1 then
            (case sign secretkey bs of None \<Rightarrow> (False, rc2) | Some sg \<Rightarrow> (True, rc2\<lparr>rc_signature := sg\<rparr>))
          else (False, rc2))"

end
