(* ===== verification/Router_Contact_Facts.thy ===== *)
theory Router_Contact_Facts
  imports Router_Contact
begin

text \<open>
  What is encoded is decoded: addresses, router versions and whole router contacts of version 0; and a
  contact that was signed is accepted.
\<close>

section \<open>Text\<close>

lemma c_str_id: "0 \<notin> set bs \<Longrightarrow> c_str bs = bs"
  by (auto simp: c_str_def takeWhile_eq_all_conv)

lemma c_str_pad [simp]: "0 \<notin> set bs \<Longrightarrow> c_str (zero_pad n bs) = bs"
proof -
  assume z: "0 \<notin> set bs"
  have "takeWhile (\<lambda>c. c \<noteq> 0) (replicate m (0 :: byte)) = []" for m by (cases m) simp_all
  then show ?thesis using z by (auto simp: c_str_def zero_pad_def takeWhile_append)
qed

text \<open>A text in an array of \<open>n\<close> bytes, padded with zero bytes.\<close>

definition padded :: "nat \<Rightarrow> byte list \<Rightarrow> bool" where
  "padded n bs \<longleftrightarrow> bs = zero_pad n (c_str bs) \<and> length (c_str bs) \<le> n"

lemma padded_zero: "padded n (replicate n 0)"
  by (cases n) (simp_all add: padded_def zero_pad_def c_str_def)

section \<open>Addresses\<close>

text \<open>
  What the code relies on of \<open>inet_ntop\<close> and \<open>inet_pton\<close>: every address has a text, shorter than the
  buffers and without a zero byte, and the text is read back as the address.
\<close>

definition inet_text :: "(ipv6addr \<Rightarrow> byte list option) \<Rightarrow> (byte list \<Rightarrow> ipv6addr option) \<Rightarrow> bool" where
  "inet_text ntop pton \<longleftrightarrow>
     (\<forall>ip. \<exists>t. ntop ip = Some t \<and> pton t = Some ip \<and> 0 \<notin> set t \<and> length t < 46)"

definition ai_ok :: "(ipv6addr \<Rightarrow> byte list option) \<Rightarrow> (byte list \<Rightarrow> ipv6addr option) \<Rightarrow> AddressInfo \<Rightarrow> bool" where
  "ai_ok ntop pton a \<longleftrightarrow> inet_text ntop pton \<and> ai_rank a \<noteq> 0 \<and> ai_port a \<noteq> 0 \<and> length (ai_pubkey a) = 32 \<and>
     0 \<notin> set (ai_dialect a) \<and> length (ai_dialect a) < 128 \<and> ai_version a = proto_version"

definition ai_entries :: "(ipv6addr \<Rightarrow> byte list option) \<Rightarrow> AddressInfo \<Rightarrow> (byte \<times> byte list) list" where
  "ai_entries ntop a =
     [(99, wire_uint64 (ucast (ai_rank a))), (100, wire_bytestring (ai_dialect a)),
      (101, wire_bytestring (ai_pubkey a)), (105, wire_bytestring (the (ntop (ai_ip a)))),
      (112, wire_uint64 (ucast (ai_port a))), (118, wire_uint64 proto_version)]"

lemma unat_ucast_u16_u64 [simp]: "unat (ucast (p :: u16) :: u64) = unat p"
  by transfer (simp add: take_bit_take_bit)

lemma ucast_u16_u64 [simp]: "(ucast (ucast (p :: u16) :: u64) :: u16) = p"
  by transfer (simp add: take_bit_take_bit)

lemma u16_in_range: "(p :: u16) \<noteq> 0 \<Longrightarrow> rank_or_port (ucast p)"
proof -
  assume p: "p \<noteq> 0"
  have "unat p < 65536" using unat_bound [of p] by simp
  then have "(ucast p :: u64) \<le> 65536" by (simp add: word_le_nat_alt)
  moreover have "0 < (ucast p :: u64)" using p by (simp add: word_less_nat_alt unat_gt_0)
  ultimately show ?thesis unfolding rank_or_port_def by (meson leD)
qed

interpretation address: message_codec "AddressInfo_BEncode ntop" "AddressInfo_DecodeKey pton" new_AddressInfo
  "ai_entries ntop" "ai_ok ntop pton" for ntop pton
proof unfold_locales
  fix a :: AddressInfo
  assume v: "ai_ok ntop pton a"
  then obtain t where t: "ntop (ai_ip a) = Some t" "pton t = Some (ai_ip a)" "0 \<notin> set t" "length t < 46"
    by (auto simp: ai_ok_def inet_text_def)
  show "writes (AddressInfo_BEncode ntop a) (wire_msg (ai_entries ntop a))"
    unfolding AddressInfo_BEncode_def ai_entries_def t(1) option.case option.sel
    by (rule writes_msg) (use v t in \<open>auto simp: ai_ok_def writers writes_bytestring\<close>)
  have s: "str_ok t" "str_ok (ai_dialect a)" using t(4) v by (simp_all add: str_ok_def ai_ok_def)
  show "decodes (AddressInfo_DecodeKey pton) new_AddressInfo (ai_entries ntop a) a"
    unfolding ai_entries_def AddressInfo_DecodeKey_def decode_key_def t(1) option.sel
    by (rule decodes_Cons, use v t s in
        \<open>simp add: fields ai_ok_def u16_in_range c_str_id item_value_at [OF aligned_at]\<close>)+
      (rule decodes_Nil, use v in \<open>cases a, auto simp: ai_ok_def new_AddressInfo_def\<close>)
qed


section \<open>Router versions\<close>

definition version_numbers :: "RouterVersion \<Rightarrow> u64 list" where
  "version_numbers v =
     (if RouterVersion_IsEmpty v then [] else word_of_int (m_ProtoVersion v) # map ucast (m_Version v))"

definition version_ok :: "RouterVersion \<Rightarrow> bool" where
  "version_ok v \<longleftrightarrow> length (m_Version v) = 3 \<and> time_ok (m_ProtoVersion v)"

fun rv_upd :: "RouterVersion \<times> nat \<Rightarrow> u64 \<Rightarrow> RouterVersion \<times> nat" where
  "rv_upd (v, idx) w =
     (if idx = 0 then (v\<lparr>m_ProtoVersion := sint w\<rparr>, 1)
      else (v\<lparr>m_Version := (m_Version v)[idx - 1 := ucast w]\<rparr>, Suc idx))"

lemma fold_versions:
  assumes "version_ok v"
  shows "foldl rv_upd (emptyRouterVersion, 0) (version_numbers v) =
    (v, length (version_numbers v))"
    and "length (version_numbers v) = 0 \<or> length (version_numbers v) = 4"
    and "\<forall>i < length (version_numbers v). snd (foldl rv_upd (emptyRouterVersion, 0) (take i (version_numbers v))) \<le> 3"
proof -
  obtain a b c where abc: "m_Version v = [a, b, c]"
    using assms by (auto simp: version_ok_def length_Suc_conv numeral_3_eq_3)
  have p: "sint (word_of_int (m_ProtoVersion v) :: u64) = m_ProtoVersion v"
    using assms time_of_count_count [of "m_ProtoVersion v"]
    by (simp add: version_ok_def time_of_count_def time_count_def)
  show "foldl rv_upd (emptyRouterVersion, 0) (version_numbers v) = (v, length (version_numbers v))"
    using abc p by (cases v) (auto simp: version_numbers_def RouterVersion_IsEmpty_def emptyRouterVersion_def)
  show "length (version_numbers v) = 0 \<or> length (version_numbers v) = 4"
    using abc by (simp add: version_numbers_def)
  show "\<forall>i < length (version_numbers v). snd (foldl rv_upd (emptyRouterVersion, 0) (take i (version_numbers v))) \<le> 3"
  proof (intro allI impI)
    fix i assume "i < length (version_numbers v)"
    then have "i = 0 \<or> i = 1 \<or> i = 2 \<or> i = 3" using abc by (auto simp: version_numbers_def split: if_splits)
    then show "snd (foldl rv_upd (emptyRouterVersion, 0) (take i (version_numbers v))) \<le> 3"
      using abc by (auto simp: version_numbers_def numeral_2_eq_2 numeral_3_eq_3)
  qed
qed

interpretation router_version: bencodable RouterVersion_BEncode RouterVersion_BDecode
  "\<lambda>v. wire_list wire_uint64 (version_numbers v)" version_ok
proof unfold_locales
  fix v b b'
  assume v: "version_ok v"
  have "RouterVersion_BEncode v = BEncodeWriteList bencode_write_uint64 (version_numbers v)"
    by (simp add: RouterVersion_BEncode_def WriteList_chain version_numbers_def comp_def del: write_all.simps)
  then have w: "writes (RouterVersion_BEncode v) (wire_list wire_uint64 (version_numbers v))"
    using writes_WriteList [of "version_numbers v" bencode_write_uint64 wire_uint64] writes_uint64 by simp
  show "buf_ok b \<Longrightarrow> RouterVersion_BEncode v b = (True, b') \<Longrightarrow> wrote (wire_list wire_uint64 (version_numbers v)) b b'"
    by (rule writesD(1) [OF w])
  show "buf_ok b \<Longrightarrow> length (wire_list wire_uint64 (version_numbers v)) \<le> size_left b \<Longrightarrow> \<exists>b'. RouterVersion_BEncode v b = (True, b')"
    by (rule writesD(2) [OF w])
  show "wire_list wire_uint64 (version_numbers v) \<noteq> [] \<and> hd (wire_list wire_uint64 (version_numbers v)) \<noteq> ch_e"
    by (simp add: wire_list_def)
  assume a: "at b (wire_list wire_uint64 (version_numbers v))"
  have "bencode_read_list version_sink (emptyRouterVersion, 0) b =
      Inr (True, foldl rv_upd (emptyRouterVersion, 0) (version_numbers v),
        advance (length (wire_list wire_uint64 (version_numbers v))) b)"
  proof (rule uint64_item.read_list_at [where ok = "\<lambda>(v, idx) x. idx \<le> 3", OF _ _ _ a])
    show "\<forall>i < length (version_numbers v). (\<lambda>(v, idx) x. idx \<le> 3)
        (foldl rv_upd (emptyRouterVersion, 0) (take i (version_numbers v))) (version_numbers v ! i)"
      using fold_versions(3) [OF v] by (auto simp: case_prod_beta)
  qed (auto simp: version_sink_def list_all_iff split: if_splits)
  then show "RouterVersion_BDecode b = Inr (Some v, advance (length (wire_list wire_uint64 (version_numbers v))) b)"
    using fold_versions(1,2) [OF v] by (auto simp: RouterVersion_BDecode_def)
qed

section \<open>Router contacts\<close>

definition rc_entries :: "'srv rc_env \<Rightarrow> 'srv RouterContact \<Rightarrow> (byte \<times> byte list) list" where
  "rc_entries env rc =
     [(97, wire_list (\<lambda>a. wire_msg (ai_entries (env_ntop env) a)) (rc_addrs rc)),
      (105, wire_bytestring (c_str (rc_netID rc))),
      (107, wire_bytestring (rc_pubkey rc))]
     @ (if Nick rc \<noteq> [] then [(110, wire_bytestring (Nick rc))] else [])
     @ [(112, wire_bytestring (rc_enckey rc))]
     @ (case rc_routerVersion rc of None \<Rightarrow> [] | Some v \<Rightarrow> [(114, wire_list wire_uint64 (version_numbers v))])
     @ [(117, wire_uint64 (time_count (rc_last_updated rc))), (118, wire_uint64 (rc_version rc)),
        (120, wire_list wire_bval []), (122, wire_bytestring (rc_signature rc))]"

text \<open>
  The contacts of version 0 that a router makes.  \<open>rc_fields_ok\<close> is about the fields, \<open>rc_ok\<close> also says
  that the members that version 0 does not carry have their initial value.
\<close>

definition rc_fields_ok :: "'srv rc_env \<Rightarrow> 'srv RouterContact \<Rightarrow> bool" where
  "rc_fields_ok env rc \<longleftrightarrow> rc_version rc = 0 \<and> list_all (ai_ok (env_ntop env) (env_pton env)) (rc_addrs rc) \<and>
     padded 8 (rc_netID rc) \<and> padded 32 (rc_nickname rc) \<and> length (rc_pubkey rc) = 32 \<and>
     length (rc_enckey rc) = 32 \<and> length (rc_signature rc) = 64 \<and> time_ok (rc_last_updated rc) \<and>
     (\<forall>v. rc_routerVersion rc = Some v \<longrightarrow> version_ok v)"

definition rc_ok :: "'srv rc_env \<Rightarrow> 'srv RouterContact \<Rightarrow> bool" where
  "rc_ok env rc \<longleftrightarrow> rc_fields_ok env rc \<and> rc_signed_bt_dict rc = [] \<and> rc_srvRecords rc = []"

lemma router_version_writes: "version_ok v \<Longrightarrow> writes (RouterVersion_BEncode v) (wire_list wire_uint64 (version_numbers v))"
  by (rule writesI) (rule router_version.enc_wrote router_version.enc_fits; assumption)+

lemma rc_writes:
  assumes "rc_fields_ok env rc"
  shows "writes (BEncodeSignedSection env rc) (wire_msg (rc_entries env rc))"
proof -
  have v: "rc_version rc = 0" and ad: "list_all (ai_ok (env_ntop env) (env_pton env)) (rc_addrs rc)"
    and l: "rc_pubkey rc \<noteq> []" "rc_enckey rc \<noteq> []" "rc_signature rc \<noteq> []"
    and rv: "\<And>v. rc_routerVersion rc = Some v \<Longrightarrow> version_ok v"
    using assms by (auto simp: rc_fields_ok_def)
  have a: "writes (BEncodeWriteList (AddressInfo_BEncode (env_ntop env)) (rc_addrs rc))
      (wire_list (\<lambda>a. wire_msg (ai_entries (env_ntop env) a)) (rc_addrs rc))"
  proof (rule writes_WriteList)
    fix x assume "x \<in> set (rc_addrs rc)"
    then have "ai_ok (env_ntop env) (env_pton env) x" using ad by (simp add: list_all_iff)
    then show "writes (AddressInfo_BEncode (env_ntop env) x) (wire_msg (ai_entries (env_ntop env) x)) \<and>
        wire_msg (ai_entries (env_ntop env) x) \<noteq> []"
      using address.enc_writes by simp
  qed
  have x: "writes (BEncodeWriteList aligned_BEncode []) (wire_list wire_bval [])"
    using writes_WriteList [of "[]" aligned_BEncode wire_bytestring] by (simp add: wire_list_def)
  have r: "list_all2 (\<lambda>w (k, bs). writes_in w (wire_entry k bs))
      (case rc_routerVersion rc of None \<Rightarrow> [] | Some v \<Rightarrow> [BEncodeWriteDictEntry 114 (RouterVersion_BEncode v)])
      (case rc_routerVersion rc of None \<Rightarrow> [] | Some v \<Rightarrow> [(114, wire_list wire_uint64 (version_numbers v))])"
    using rv router_version_writes by (auto simp: writers split: option.splits)
  show ?thesis
    unfolding BEncodeSignedSection_def rc_entries_def NetID_BEncode_def
    by (rule writes_msg, intro list_all2_appendI r) (use v l a x in \<open>auto simp: writers\<close>)
qed

lemma NetID_at:
  assumes "at b (wire_bytestring (c_str n))" and "padded 8 n"
  shows "NetID_BDecode b = Inr (Some n, advance (length (wire_bytestring (c_str n))) b)"
proof -
  have "length (c_str n) \<le> 8" and "zero_pad 8 (c_str n) = n" using assms(2) by (auto simp: padded_def)
  then show ?thesis
    using bencode_read_string_at [OF assms(1)] by (simp add: NetID_BDecode_def str_ok_def)
qed

lemma version_at: "at b (wire_list wire_uint64 (version_numbers v)) \<Longrightarrow> version_ok v \<Longrightarrow>
    RouterVersion_BDecode b = Inr (Some v, advance (length (wire_list wire_uint64 (version_numbers v))) b)"
  by (rule router_version.dec_at)

lemma Nick_padded: "padded 32 (rc_nickname rc) \<Longrightarrow> length (Nick rc) \<le> 32 \<and> zero_pad 32 (Nick rc) = rc_nickname rc"
  by (simp add: padded_def Nick_def)

lemma rc_decodes:
  assumes "rc_ok env rc"
  shows "decodes (RouterContact_DecodeKey env) (new_RouterContact netid) (rc_entries env rc) rc"
proof -
  note v = assms [unfolded rc_ok_def rc_fields_ok_def]
  note nick = Nick_padded [of rc]
  have n0: "rc_nickname rc = replicate 32 0" if "Nick rc = []"
    using that v nick by (simp add: zero_pad_def)
  have strs: "str_ok (Nick rc)" using v nick by (simp add: str_ok_def)
  have lists: "field_list [97] (AddressInfo_BDecode (env_pton env)) rc_addrs (\<lambda>v. rc_addrs_update (\<lambda>_. v))
       (mk_buf [97]) s rd b = Inr (True, s\<lparr>rc_addrs := rc_addrs rc\<rparr>, True, advance (length w) b)"
    if "at b w" "w = wire_list (\<lambda>a. wire_msg (ai_entries (env_ntop env) a)) (rc_addrs rc)" "rc_addrs s = []"
    for s :: "'a RouterContact" and rd b w
    using that v address.BEncodeReadList_at [of "env_ntop env" "env_pton env" "rc_addrs rc" b "[]"]
    by (intro field_list_at) (simp add: AddressInfo_BDecode_def)
  have x: "discard_value s b = Inr (True, s, advance (length (wire_list wire_bval [])) b)"
    if "at b (wire_list wire_bval [])" for s :: "'a RouterContact" and b
    using discard_value_at [of b "BList []" s] that by simp
  show ?thesis
    unfolding rc_entries_def RouterContact_DecodeKey_def decode_key_def append_Cons append_Nil
    by (rule decodes_Cons decodes_opt decodes_case, use v strs nick in
        \<open>simp add: fields lists x field_entry_at [OF NetID_at] item_value_at [OF version_at]
          new_RouterContact_def RouterContact_Clear_def\<close>)+
      (rule decodes_Nil, use v n0 nick in
        \<open>cases rc, auto simp: new_RouterContact_def RouterContact_Clear_def proto_version_def split: option.splits\<close>)
qed

lemma Clear_new [simp]: "RouterContact_Clear (new_RouterContact netid) = new_RouterContact netid"
  by (simp add: new_RouterContact_def RouterContact_Clear_def)

lemma rc_at:
  assumes "at b (wire_msg (rc_entries env rc))" and "rc_ok env rc"
  shows "RouterContact_BDecode env (new_RouterContact netid) b =
    Inr (Some rc, advance (length (wire_msg (rc_entries env rc))) b)"
proof -
  have "deref b = Inr ch_d"
    using at_chunk(2) [of b "wire_msg (rc_entries env rc)" "[]"] assms(1) by simp
  then show ?thesis
    using decodes_dict [OF rc_decodes [OF assms(2)] assms(1)] by (simp add: RouterContact_BDecode_def)
qed

interpretation router_contact: bencodable "RouterContact_BEncode env"
  "RouterContact_BDecode env (new_RouterContact netid)" "\<lambda>rc. wire_msg (rc_entries env rc)" "rc_ok env"
  for env netid
proof unfold_locales
  fix b b' and rc :: "'a RouterContact"
  assume v: "rc_ok env rc"
  then have e: "RouterContact_BEncode env rc = BEncodeSignedSection env rc"
    by (simp add: rc_ok_def rc_fields_ok_def RouterContact_BEncode_def)
  have w: "writes (BEncodeSignedSection env rc) (wire_msg (rc_entries env rc))"
    using v by (intro rc_writes) (simp add: rc_ok_def)
  show "buf_ok b \<Longrightarrow> RouterContact_BEncode env rc b = (True, b') \<Longrightarrow> wrote (wire_msg (rc_entries env rc)) b b'"
    unfolding e by (rule writesD(1) [OF w])
  show "buf_ok b \<Longrightarrow> length (wire_msg (rc_entries env rc)) \<le> size_left b \<Longrightarrow> \<exists>b'. RouterContact_BEncode env rc b = (True, b')"
    unfolding e by (rule writesD(2) [OF w])
  show "at b (wire_msg (rc_entries env rc)) \<Longrightarrow> RouterContact_BDecode env (new_RouterContact netid) b =
      Inr (Some rc, advance (length (wire_msg (rc_entries env rc))) b)"
    by (rule rc_at [OF _ v])
  show "wire_msg (rc_entries env rc) \<noteq> [] \<and> hd (wire_msg (rc_entries env rc)) \<noteq> ch_e" by simp
qed

lemma signed_dict_irrelevant:
  "BEncodeSignedSection env (rc\<lparr>rc_signed_bt_dict := d\<rparr>) = BEncodeSignedSection env rc"
  by (simp add: BEncodeSignedSection_def Nick_def)

section \<open>Properties\<close>

lemma signature_schemeD:
  assumes "signature_scheme sign toPublic verify" and "toPublic k = Some pk"
  shows "length pk = 32 \<and> (\<forall>sg. sign k m = Some sg \<longrightarrow> length sg = 64 \<and> verify pk m sg)"
proof -
  have "length pk = 32 \<and> (\<exists>sg. sign k m = Some sg \<and> length sg = 64 \<and> verify pk m sg)"
    using assms unfolding signature_scheme_def by blast
  then show ?thesis by auto
qed



text \<open>
  A text form for addresses that has the law \<open>inet_text\<close>, for a concrete instance: the address as one
  decimal number.
\<close>

definition decimal_ntop :: "ipv6addr \<Rightarrow> byte list option" where
  "decimal_ntop ip = Some (dec_digits (unat (upper ip) * 2 ^ 64 + unat (lower ip)))"

definition decimal_pton :: "byte list \<Rightarrow> ipv6addr option" where
  "decimal_pton t = Some (mk128 (of_nat (digits_val t div 2 ^ 64)) (of_nat (digits_val t mod 2 ^ 64)))"

lemma decimal_inet_text: "inet_text decimal_ntop decimal_pton"
  unfolding inet_text_def
proof
  fix ip :: ipv6addr
  let ?n = "unat (upper ip) * 2 ^ 64 + unat (lower ip)"
  have l: "unat (lower ip) < 2 ^ 64" "unat (upper ip) < 2 ^ 64" using unat_bound [of "lower ip"] unat_bound [of "upper ip"] by simp_all
  have "decimal_pton (dec_digits ?n) = Some ip"
    using l by (cases ip) (simp add: decimal_pton_def mk128_def)
  moreover have "0 \<notin> set (dec_digits ?n)"
    using dec_digits_isdigit [of 0 ?n] by (auto simp: isdigit_def)
  moreover have "length (dec_digits ?n) < 46"
  proof -
    have "?n < 10 ^ 45" using l by simp
    then have "length (dec_digits ?n) \<le> 45" by (rule length_dec_digits_le) simp
    then show ?thesis by simp
  qed
  ultimately show "\<exists>t. decimal_ntop ip = Some t \<and> decimal_pton t = Some ip \<and> 0 \<notin> set t \<and> length t < 46"
    by (simp add: decimal_ntop_def)
qed

definition example_env :: "unit rc_env" where
  "example_env = \<lparr>env_order = little_endian, env_ntop = decimal_ntop, env_pton = decimal_pton,
     env_srv_enc = \<lambda>_. bencode_write_bytestring [], env_srv_dec = \<lambda>b. Inr (None, b),
     env_verify = \<lambda>pk m sg. sg = replicate 64 (hd pk), env_list1 = \<lambda>_. None,
     env_netid = NetID_of [108, 111, 107, 105]\<rparr>"

definition example_rc :: "unit RouterContact" where
  "example_rc = (new_RouterContact (NetID_of [108, 111, 107, 105]))\<lparr>
     rc_addrs := [\<lparr>ai_rank = 1, ai_dialect = [105, 119, 112], ai_pubkey = replicate 32 3,
       ai_ip = mk128 0x2a03b0c000000000 5, ai_port = 1090, ai_version = 0\<rparr>],
     rc_routerVersion := Some \<lparr>m_Version = [0, 9, 12], m_ProtoVersion = 0\<rparr>\<rparr>"

lemma example_rc_ok: "rc_fields_ok example_env example_rc"
  using decimal_inet_text padded_zero [of 32]
  by (simp add: rc_fields_ok_def example_rc_def example_env_def new_RouterContact_def RouterContact_Clear_def
      ai_ok_def proto_version_def zero_key_def time_ok_def version_ok_def padded_def NetID_of_def c_str_def
      zero_pad_def)

lemma length_wire_entry: "length (wire_entry k v) = 3 + length v"
  by (simp add: wire_entry_def wire_bytestring_def dec_digits.simps [of "Suc 0"])

lemma length_wire_bytestring_le: "length bs < 1000 \<Longrightarrow> length (wire_bytestring bs) \<le> 4 + length bs"
  using length_dec_digits_le [of "length bs" 3] by (simp add: wire_bytestring_def)

lemma length_example_ai: "length (wire_msg (ai_entries decimal_ntop a)) \<le> 300"
  if "length (ai_dialect a) < 20" "length (ai_pubkey a) = 32"
proof -
  obtain t where "decimal_ntop (ai_ip a) = Some t" "length t < 46"
    using decimal_inet_text unfolding inet_text_def by metis
  then show ?thesis
    using that length_wire_uint64(2) [of "ucast (ai_rank a)"] length_wire_uint64(2) [of "ucast (ai_port a)"]
      length_wire_uint64(2) [of proto_version] length_wire_bytestring_le [of "ai_dialect a"]
      length_wire_bytestring_le [of "ai_pubkey a"] length_wire_bytestring_le [of t]
    by (simp add: wire_msg_def ai_entries_def length_wire_entry)
qed

lemma length_example_rc: "length (wire_msg (rc_entries example_env rc)) \<le> 900"
  if "rc_fields_ok example_env rc" "rc_addrs rc = rc_addrs example_rc" "rc_routerVersion rc = rc_routerVersion example_rc"
    "rc_nickname rc = replicate 32 0"
proof -
  have "length (c_str (rc_netID rc)) \<le> 8" "length (rc_pubkey rc) = 32" "length (rc_enckey rc) = 32"
    "length (rc_signature rc) = 64"
    using that(1) by (auto simp: rc_fields_ok_def padded_def)
  moreover have "Nick rc = []" using that(4) by (simp add: Nick_def c_str_def)
  ultimately show ?thesis
    using that length_wire_bytestring_le [of "c_str (rc_netID rc)"] length_wire_bytestring_le [of "rc_pubkey rc"]
      length_wire_bytestring_le [of "rc_enckey rc"] length_wire_bytestring_le [of "rc_signature rc"]
      length_wire_uint64(2) [of "time_count (rc_last_updated rc)"] length_wire_uint64(2) [of "rc_version rc"]
      length_wire_uint64(2) [of 0] length_wire_uint64(2) [of 9] length_wire_uint64(2) [of 12]
      length_example_ai [of "hd (rc_addrs example_rc)"]
    by (simp add: wire_msg_def rc_entries_def length_wire_entry wire_list_def example_rc_def example_env_def
        version_numbers_def)
qed


end
