(* ===== verification/Hash_Map.thy ===== *)
theory Hash_Map
  imports Llarp_Prelude
begin

text \<open>
  \<open>std::unordered_map\<close> as the sources use it: the entries in the order of iteration, each key once.
  \<open>emplace\<close> leaves an entry that is there alone.
\<close>

definition map_emplace :: "'k \<Rightarrow> 'v \<Rightarrow> ('k \<times> 'v) list \<Rightarrow> ('k \<times> 'v) list" where
  "map_emplace k v m = (if k \<in> fst ` set m then m else m @ [(k, v)])"

definition map_erase :: "'k \<Rightarrow> ('k \<times> 'v) list \<Rightarrow> ('k \<times> 'v) list" where
  "map_erase k m = filter (\<lambda>e. fst e \<noteq> k) m"

text \<open>Assignment to the value of an entry.\<close>

definition map_update :: "'k \<Rightarrow> 'v \<Rightarrow> ('k \<times> 'v) list \<Rightarrow> ('k \<times> 'v) list" where
  "map_update k v m = map (\<lambda>e. if fst e = k then (k, v) else e) m"

lemma map_of_emplace: "map_of (map_emplace k v m) = (if map_of m k = None then (map_of m)(k \<mapsto> v) else map_of m)"
proof (cases "map_of m k")
  case None
  then show ?thesis by (auto simp: map_emplace_def map_add_def fun_eq_iff simp flip: map_of_eq_None_iff split: option.splits)
next
  case (Some v')
  then have "k \<in> fst ` set m" by (force dest: map_of_SomeD)
  then show ?thesis using Some by (simp add: map_emplace_def)
qed

lemma map_of_map_erase: "map_of (map_erase k m) = (map_of m)(k := None)"
  by (induction m) (auto simp: map_erase_def fun_eq_iff)

lemma keys_erase [simp]: "fst ` set (map_erase k m) = fst ` set m - {k}"
  by (auto simp: map_erase_def)

lemma keys_emplace [simp]: "fst ` set (map_emplace k v m) = insert k (fst ` set m)"
  by (auto simp: map_emplace_def)

lemma distinct_erase [simp]: "distinct (map fst m) \<Longrightarrow> distinct (map fst (map_erase k m))"
  by (simp add: map_erase_def distinct_map_filter)

lemma distinct_emplace [simp]: "distinct (map fst m) \<Longrightarrow> distinct (map fst (map_emplace k v m))"
  by (simp add: map_emplace_def)

lemma fold_map_erase: "map_of (fold map_erase fps fs) = (\<lambda>f. if f \<in> set fps then None else map_of fs f)"
  by (induction fps arbitrary: fs) (auto simp: map_of_map_erase fun_eq_iff)

lemma map_of_filter_value: "distinct (map fst m) \<Longrightarrow> map_of (filter (\<lambda>item. \<not> p (snd item)) m) k =
    (case map_of m k of Some e \<Rightarrow> if p e then None else Some e | None \<Rightarrow> None)"
proof (induction m)
  case (Cons item m)
  then have "map_of m (fst item) = None" by (simp add: map_of_eq_None_iff)
  then show ?case using Cons by (cases item) (auto split: option.splits)
qed simp

lemma erase_subset: "set (map_erase k m) \<subseteq> set m"
  by (simp add: map_erase_def)

end
