(* ===== verification/Node_DB.thy ===== *)
theory Node_DB
  imports Router_Contact_Facts Hash_Map "HOL-Library.Char_ord" "HOL-Library.List_Lexorder"
begin

text \<open>
  \<open>llarp::NodeDB\<close> (\<open>llarp/nodedb.cpp\<close>): the router contacts a router knows, kept in memory and mirrored
  in a directory with one file per router.  The entries are an \<open>unordered_map\<close>; here they are listed in
  the order the map is iterated in, and a new entry comes last.  Work for the disk thread is queued and
  run later, in order.  The names of the files come from \<open>oxenc\<close>, which is a parameter.
\<close>

section \<open>Entries\<close>

record 'srv Entry =
  entry_rc :: "'srv RouterContact"
  insertedAt :: llarp_time_t

type_synonym fpath = "char \<times> string"

datatype 'srv disk_job = Write_RCs "'srv RouterContact list" | Remove_Files "fpath list"

record 'srv NodeDB =
  m_Entries :: "(key \<times> 'srv Entry) list"
  m_Root :: string
  disk_jobs :: "'srv disk_job list"
  m_NextFlushAt :: llarp_time_t

definition new_Entry :: "llarp_time_t \<Rightarrow> 'srv RouterContact \<Rightarrow> 'srv Entry" where
  "new_Entry now rc = \<lparr>entry_rc = rc, insertedAt = now\<rparr>"

definition FlushInterval :: llarp_time_t where
  "FlushInterval = 5 * 60 * 1000"

definition new_NodeDB :: "string \<Rightarrow> llarp_time_t \<Rightarrow> 'srv NodeDB" where
  "new_NodeDB root now = \<lparr>m_Entries = [], m_Root = root, disk_jobs = [], m_NextFlushAt = now + FlushInterval\<rparr>"

definition memory_NodeDB :: "'srv NodeDB" where
  "memory_NodeDB = \<lparr>m_Entries = [], m_Root = [], disk_jobs = [], m_NextFlushAt = 0\<rparr>"

section \<open>Operations in memory\<close>

definition NodeDB_Has :: "key \<Rightarrow> 'srv NodeDB \<Rightarrow> bool" where
  "NodeDB_Has pk db \<longleftrightarrow> map_of (m_Entries db) pk \<noteq> None"

definition NodeDB_Get :: "key \<Rightarrow> 'srv NodeDB \<Rightarrow> 'srv RouterContact option" where
  "NodeDB_Get pk db = map_option entry_rc (map_of (m_Entries db) pk)"

definition NumLoaded :: "'srv NodeDB \<Rightarrow> nat" where
  "NumLoaded db = length (m_Entries db)"

definition NodeDB_Put :: "llarp_time_t \<Rightarrow> 'srv RouterContact \<Rightarrow> 'srv NodeDB \<Rightarrow> 'srv NodeDB" where
  "NodeDB_Put now rc db =
     db\<lparr>m_Entries := map_emplace (rc_pubkey rc) (new_Entry now rc) (map_erase (rc_pubkey rc) (m_Entries db))\<rparr>"

definition PutIfNewer :: "llarp_time_t \<Rightarrow> 'srv RouterContact \<Rightarrow> 'srv NodeDB \<Rightarrow> 'srv NodeDB" where
  "PutIfNewer now rc db =
     (let itr = map_of (m_Entries db) (rc_pubkey rc) in
      if itr = None \<or> RouterContact_OtherIsNewer (entry_rc (the itr)) rc
      then let m = (if itr \<noteq> None then map_erase (rc_pubkey rc) (m_Entries db) else m_Entries db)
           in db\<lparr>m_Entries := map_emplace (rc_pubkey rc) (new_Entry now rc) m\<rparr>
      else db)"

definition VisitAll :: "'srv NodeDB \<Rightarrow> 'srv RouterContact list" where
  "VisitAll db = map (\<lambda>item. entry_rc (snd item)) (m_Entries db)"

definition VisitInsertedBefore :: "llarp_time_t \<Rightarrow> 'srv NodeDB \<Rightarrow> 'srv RouterContact list" where
  "VisitInsertedBefore insertedBefore db =
     map (\<lambda>item. entry_rc (snd item)) (filter (\<lambda>item. insertedAt (snd item) < insertedBefore) (m_Entries db))"

text \<open>\<open>std::shuffle\<close> is an argument.\<close>

definition GetRandom ::
  "('srv RouterContact list \<Rightarrow> 'srv RouterContact list) \<Rightarrow> ('srv RouterContact \<Rightarrow> bool) \<Rightarrow> 'srv NodeDB
     \<Rightarrow> 'srv RouterContact option" where
  "GetRandom shuffle visit db = find visit (shuffle (VisitAll db))"

definition closest_step :: "key \<Rightarrow> 'srv RouterContact \<Rightarrow> 'srv RouterContact \<Rightarrow> 'srv RouterContact" where
  "closest_step location rc otherRC =
     (if IsZero (rc_pubkey rc) then otherRC
      else if XorMetric location (rc_pubkey otherRC) (rc_pubkey rc) then otherRC else rc)"

definition FindClosestTo :: "NetID \<Rightarrow> key \<Rightarrow> 'srv NodeDB \<Rightarrow> 'srv RouterContact" where
  "FindClosestTo netid location db = foldl (closest_step location) (new_RouterContact netid) (VisitAll db)"

definition FindManyClosestTo :: "key \<Rightarrow> nat \<Rightarrow> 'srv NodeDB \<Rightarrow> 'srv RouterContact list" where
  "FindManyClosestTo location numRouters db =
     take numRouters (sort_key (\<lambda>rc. key_xor location (rc_pubkey rc)) (VisitAll db))"

section \<open>The directory\<close>

text \<open>The text forms of a key that \<open>oxenc\<close> gives.\<close>

record oxenc_names =
  to_hex :: "byte list \<Rightarrow> string"
  to_base32z :: "byte list \<Rightarrow> string"

definition skiplist_subdirs :: string where
  "skiplist_subdirs = ''0123456789abcdef''"

definition RC_FILE_EXT :: string where
  "RC_FILE_EXT = ''.signed''"

definition RouterID_ToString :: "oxenc_names \<Rightarrow> key \<Rightarrow> string" where
  "RouterID_ToString ox k = to_base32z ox k @ ''.snode''"

definition GetPathForPubkey :: "oxenc_names \<Rightarrow> key \<Rightarrow> fpath" where
  "GetPathForPubkey ox pubkey = (to_hex ox pubkey ! 0, RouterID_ToString ox pubkey @ RC_FILE_EXT)"

type_synonym files = "(fpath \<times> byte list) list"

definition file_put :: "fpath \<Rightarrow> byte list \<Rightarrow> files \<Rightarrow> files" where
  "file_put f bs fs = (f, bs) # map_erase f fs"

definition RouterContact_Write :: "'srv rc_env \<Rightarrow> fpath \<Rightarrow> 'srv RouterContact \<Rightarrow> files \<Rightarrow> bool \<times> files" where
  "RouterContact_Write env fname rc fs =
     (case encode_into MAX_RC_SIZE (RouterContact_BEncode env rc) of
        None \<Rightarrow> (False, fs)
      | Some bs \<Rightarrow> (True, file_put fname bs fs))"

text \<open>
  \<open>tmp\<close> is the array of \<open>MAX_RC_SIZE\<close> bytes that the file is read into.  It is not initialised, and the
  decoder is given all of it.
\<close>

definition RouterContact_Read ::
  "'srv rc_env \<Rightarrow> NetID \<Rightarrow> byte list \<Rightarrow> fpath \<Rightarrow> files \<Rightarrow> 'srv RouterContact option result" where
  "RouterContact_Read env netid tmp fname fs =
     (case map_of fs fname of
        None \<Rightarrow> Inr None
      | Some bs \<Rightarrow>
          if length bs > length tmp then Inr None
          else bindE (RouterContact_BDecode env (new_RouterContact netid) (mk_buf (bs @ drop (length bs) tmp)))
                 (\<lambda>(rc, _). Inr rc))"

text \<open>\<open>IterDir\<close> collects the names that do not begin with a dot and visits them in order.\<close>

definition dir_entries :: "files \<Rightarrow> char \<Rightarrow> string list" where
  "dir_entries fs ch =
     sort (remdups (map (\<lambda>e. snd (fst e))
       (filter (\<lambda>e. fst (fst e) = ch \<and> snd (fst e) \<noteq> [] \<and> hd (snd (fst e)) \<noteq> CHR ''.'') fs)))"

definition path_extension :: "string \<Rightarrow> string" where
  "path_extension n =
     (let e = rev (takeWhile (\<lambda>c. c \<noteq> CHR ''.'') (rev n))
      in if Suc (length e) < length n then CHR ''.'' # e else [])"

record 'srv load_env =
  le_env :: "'srv rc_env"
  le_netid :: NetID
  le_tmp :: "fpath \<Rightarrow> byte list"
  le_bogons :: bool
  le_now :: llarp_time_t

definition load_file ::
  "'srv load_env \<Rightarrow> files \<Rightarrow> fpath \<Rightarrow> (key \<times> 'srv Entry) list \<times> fpath list
     \<Rightarrow> ((key \<times> 'srv Entry) list \<times> fpath list) result" where
  "load_file le fs f = (\<lambda>(m, purge).
     if path_extension (snd f) \<noteq> RC_FILE_EXT then Inr (m, purge)
     else bindE (RouterContact_Read (le_env le) (le_netid le) (le_tmp le f) f fs) (\<lambda>r. case r of
         None \<Rightarrow> Inr (m, f # purge)
       | Some rc \<Rightarrow>
           if \<not> FromOurNetwork (env_netid (le_env le)) rc then Inr (m, purge)
           else if RouterContact_Verify (le_env le) (le_bogons le) rc (le_now le) True
           then Inr (map_emplace (rc_pubkey rc) (new_Entry (le_now le) rc) m, purge)
           else Inr (m, f # purge)))"

fun load_files ::
  "'srv load_env \<Rightarrow> files \<Rightarrow> fpath list \<Rightarrow> (key \<times> 'srv Entry) list \<times> fpath list
     \<Rightarrow> ((key \<times> 'srv Entry) list \<times> fpath list) result" where
  "load_files le fs [] s = Inr s"
| "load_files le fs (f # fps) s = bindE (load_file le fs f s) (load_files le fs fps)"

definition LoadFromDisk :: "'srv load_env \<Rightarrow> 'srv NodeDB \<Rightarrow> files \<Rightarrow> ('srv NodeDB \<times> files) result" where
  "LoadFromDisk le db fs =
     (if m_Root db = [] then Inr (db, fs)
      else bindE (load_files le fs (concat (map (\<lambda>ch. map (Pair ch) (dir_entries fs ch)) skiplist_subdirs)) (m_Entries db, []))
        (\<lambda>(m, purge). Inr (db\<lparr>m_Entries := m\<rparr>, fold map_erase purge fs)))"

definition SaveToDisk :: "'srv rc_env \<Rightarrow> oxenc_names \<Rightarrow> 'srv NodeDB \<Rightarrow> files \<Rightarrow> files" where
  "SaveToDisk env ox db fs =
     (if m_Root db = [] then fs
      else fold (\<lambda>item fs. snd (RouterContact_Write env (GetPathForPubkey ox (fst item)) (entry_rc (snd item)) fs))
             (m_Entries db) fs)"

section \<open>Operations that queue work for the disk\<close>

definition AsyncRemoveManyFromDisk :: "oxenc_names \<Rightarrow> key list \<Rightarrow> 'srv NodeDB \<Rightarrow> 'srv NodeDB" where
  "AsyncRemoveManyFromDisk ox remove db =
     (if m_Root db = [] then db
      else db\<lparr>disk_jobs := disk_jobs db @ [Remove_Files (map (GetPathForPubkey ox) remove)]\<rparr>)"

definition NodeDB_Remove :: "oxenc_names \<Rightarrow> key \<Rightarrow> 'srv NodeDB \<Rightarrow> 'srv NodeDB" where
  "NodeDB_Remove ox pk db = AsyncRemoveManyFromDisk ox [pk] (db\<lparr>m_Entries := map_erase pk (m_Entries db)\<rparr>)"

text \<open>The loop of \<open>RemoveIf\<close> and \<open>RemoveStaleRCs\<close>: drop the entries that match and collect their keys.\<close>

definition remove_entries :: "oxenc_names \<Rightarrow> ('srv Entry \<Rightarrow> bool) \<Rightarrow> 'srv NodeDB \<Rightarrow> 'srv NodeDB" where
  "remove_entries ox p db =
     (let removed = map (\<lambda>item. rc_pubkey (entry_rc (snd item))) (filter (\<lambda>item. p (snd item)) (m_Entries db));
          db' = db\<lparr>m_Entries := filter (\<lambda>item. \<not> p (snd item)) (m_Entries db)\<rparr>
      in if removed \<noteq> [] then AsyncRemoveManyFromDisk ox removed db' else db')"

definition NodeDB_RemoveIf :: "oxenc_names \<Rightarrow> ('srv RouterContact \<Rightarrow> bool) \<Rightarrow> 'srv NodeDB \<Rightarrow> 'srv NodeDB" where
  "NodeDB_RemoveIf ox visit db = remove_entries ox (\<lambda>e. visit (entry_rc e)) db"

definition RemoveStaleRCs :: "oxenc_names \<Rightarrow> key set \<Rightarrow> llarp_time_t \<Rightarrow> 'srv NodeDB \<Rightarrow> 'srv NodeDB" where
  "RemoveStaleRCs ox keep cutoff db =
     remove_entries ox (\<lambda>e. insertedAt e < cutoff \<and> rc_pubkey (entry_rc e) \<notin> keep) db"

definition NodeDB_Tick :: "llarp_time_t \<Rightarrow> 'srv NodeDB \<Rightarrow> 'srv NodeDB" where
  "NodeDB_Tick now db =
     (if m_NextFlushAt db = 0 then db
      else if now > m_NextFlushAt db
      then db\<lparr>m_NextFlushAt := m_NextFlushAt db + FlushInterval, disk_jobs := disk_jobs db @ [Write_RCs (VisitAll db)]\<rparr>
      else db)"

fun run_disk_job :: "'srv rc_env \<Rightarrow> oxenc_names \<Rightarrow> 'srv disk_job \<Rightarrow> files \<Rightarrow> files" where
  "run_disk_job env ox (Write_RCs rcs) fs =
     fold (\<lambda>rc fs. snd (RouterContact_Write env (GetPathForPubkey ox (rc_pubkey rc)) rc fs)) rcs fs"
| "run_disk_job env ox (Remove_Files fps) fs = fold map_erase fps fs"

definition run_disk :: "'srv rc_env \<Rightarrow> oxenc_names \<Rightarrow> 'srv NodeDB \<Rightarrow> files \<Rightarrow> 'srv NodeDB \<times> files" where
  "run_disk env ox db fs = (db\<lparr>disk_jobs := []\<rparr>, fold (run_disk_job env ox) (disk_jobs db) fs)"

end
