(* ===== verification/Node_DB_Facts.thy ===== *)
theory Node_DB_Facts
  imports Node_DB
begin

text \<open>
  What the router database promises: it is a map from keys to contacts in which the newer contact wins,
  its searches return the nearest routers, and what is saved is what a restart loads.
\<close>

section \<open>The invariant\<close>

definition nodedb_ok :: "'srv NodeDB \<Rightarrow> bool" where
  "nodedb_ok db \<longleftrightarrow> distinct (map fst (m_Entries db)) \<and>
     list_all (\<lambda>(k, e). rc_pubkey (entry_rc e) = k \<and> key_ok k) (m_Entries db)"

lemma nodedb_okI:
  assumes "nodedb_ok db" and "key_ok (rc_pubkey rc)" and "set m \<subseteq> set (m_Entries db)" and "distinct (map fst m)"
  shows "nodedb_ok (db\<lparr>m_Entries := map_emplace (rc_pubkey rc) (new_Entry now rc) m\<rparr>)"
  using assms by (auto simp: nodedb_ok_def list_all_iff map_emplace_def new_Entry_def)

lemma nodedb_distinct: "nodedb_ok db \<Longrightarrow> distinct (map fst (m_Entries db))"
  by (simp add: nodedb_ok_def)

lemma Put_ok: "nodedb_ok db \<Longrightarrow> key_ok (rc_pubkey rc) \<Longrightarrow> nodedb_ok (NodeDB_Put now rc db)"
  by (simp add: NodeDB_Put_def nodedb_okI erase_subset nodedb_distinct)

lemma PutIfNewer_ok: "nodedb_ok db \<Longrightarrow> key_ok (rc_pubkey rc) \<Longrightarrow> nodedb_ok (PutIfNewer now rc db)"
  by (simp add: PutIfNewer_def Let_def nodedb_okI erase_subset nodedb_distinct)

lemma filter_ok: "nodedb_ok db \<Longrightarrow> nodedb_ok (db\<lparr>m_Entries := filter p (m_Entries db)\<rparr>)"
  by (auto simp: nodedb_ok_def list_all_iff distinct_map_filter)

lemma Async_Entries [simp]: "m_Entries (AsyncRemoveManyFromDisk ox ks db) = m_Entries db"
  by (simp add: AsyncRemoveManyFromDisk_def)

lemma remove_entries_Entries [simp]:
  "m_Entries (remove_entries ox p db) = filter (\<lambda>item. \<not> p (snd item)) (m_Entries db)"
  by (simp add: remove_entries_def Let_def)

lemma nodedb_ok_cong: "m_Entries db' = m_Entries db \<Longrightarrow> nodedb_ok db' = nodedb_ok db"
  by (simp add: nodedb_ok_def)

lemma remove_entries_ok: "nodedb_ok db \<Longrightarrow> nodedb_ok (remove_entries ox p db)"
  using filter_ok [of db "\<lambda>item. \<not> p (snd item)"] by (simp add: nodedb_ok_def)

lemma Remove_ok: "nodedb_ok db \<Longrightarrow> nodedb_ok (NodeDB_Remove ox pk db)"
  using filter_ok [of db "\<lambda>e. fst e \<noteq> pk"] by (simp add: nodedb_ok_def NodeDB_Remove_def map_erase_def)

section \<open>The newer contact wins\<close>

lemma Get_PutIfNewer:
  "NodeDB_Get k (PutIfNewer now rc db) =
     (if k = rc_pubkey rc
      then (case NodeDB_Get k db of
              None \<Rightarrow> Some rc
            | Some old \<Rightarrow> Some (if RouterContact_OtherIsNewer old rc then rc else old))
      else NodeDB_Get k db)"
  by (cases "map_of (m_Entries db) (rc_pubkey rc)")
    (auto simp: NodeDB_Get_def PutIfNewer_def map_of_emplace map_of_map_erase new_Entry_def)

definition best_of :: "'srv RouterContact option \<Rightarrow> 'srv RouterContact \<Rightarrow> 'srv RouterContact option" where
  "best_of r rc = (case r of None \<Rightarrow> Some rc | Some old \<Rightarrow> Some (if RouterContact_OtherIsNewer old rc then rc else old))"

lemma best_of_simps [simp]:
  "best_of None rc = Some rc"
  "best_of (Some old) rc = Some (if rc_last_updated old < rc_last_updated rc then rc else old)"
  by (simp_all add: best_of_def RouterContact_OtherIsNewer_def)

lemma Get_new [simp]: "NodeDB_Get k (new_NodeDB root t) = None"
  by (simp add: NodeDB_Get_def new_NodeDB_def)

lemma Get_fold_PutIfNewer:
  "NodeDB_Get k (fold (\<lambda>(now, rc). PutIfNewer now rc) puts db) =
     foldl best_of (NodeDB_Get k db) (filter (\<lambda>rc. rc_pubkey rc = k) (map snd puts))"
  by (induction puts arbitrary: db) (auto simp: Get_PutIfNewer best_of_def split: option.splits)

definition first_newest :: "'srv RouterContact \<Rightarrow> 'srv RouterContact list \<Rightarrow> bool" where
  "first_newest r rcs \<longleftrightarrow> (\<exists>pre post. rcs = pre @ r # post \<and>
     list_all (\<lambda>x. rc_last_updated x < rc_last_updated r) pre \<and>
     list_all (\<lambda>x. rc_last_updated x \<le> rc_last_updated r) post)"

lemma foldl_best_of: "rcs \<noteq> [] \<Longrightarrow> \<exists>r. foldl best_of None rcs = Some r \<and> first_newest r rcs"
proof (induction rcs rule: rev_induct)
  case (snoc x rcs)
  show ?case
  proof (cases "rcs = []")
    case True
    then show ?thesis by (auto simp: first_newest_def intro: exI [of _ "[]"])
  next
    case False
    then obtain r pre post where r: "foldl best_of None rcs = Some r" "rcs = pre @ r # post"
      "list_all (\<lambda>x. rc_last_updated x < rc_last_updated r) pre"
      "list_all (\<lambda>x. rc_last_updated x \<le> rc_last_updated r) post"
      using snoc.IH unfolding first_newest_def by blast
    show ?thesis
    proof (cases "rc_last_updated r < rc_last_updated x")
      case True
      then have "first_newest x (rcs @ [x])"
        unfolding first_newest_def using r
        by (intro exI [of _ rcs] exI [of _ "[]"]) (auto simp: list_all_iff)
      then show ?thesis using True r(1) by simp
    next
      case False
      then have "first_newest r (rcs @ [x])"
        unfolding first_newest_def using r
        by (intro exI [of _ pre] exI [of _ "post @ [x]"]) (auto simp: list_all_iff)
      then show ?thesis using False r(1) by simp
    qed
  qed
qed simp

text \<open>
  Claim C28.  After any sequence of \<open>PutIfNewer\<close> on an empty database, \<open>Get\<close> returns, for every key, the
  contact of that key with the latest update time among those that were put, and of several such the
  one that came first; nothing is returned for a key no contact was put for.
\<close>

theorem nodedb_keeps_newest:
  "case NodeDB_Get k (fold (\<lambda>(now, rc). PutIfNewer now rc) puts (new_NodeDB root t)) of
     None \<Rightarrow> filter (\<lambda>rc. rc_pubkey rc = k) (map snd puts) = []
   | Some r \<Rightarrow> first_newest r (filter (\<lambda>rc. rc_pubkey rc = k) (map snd puts))"
  using foldl_best_of [of "filter (\<lambda>rc. rc_pubkey rc = k) (map snd puts)"]
  by (cases "filter (\<lambda>rc. rc_pubkey rc = k) (map snd puts) = []") (auto simp: Get_fold_PutIfNewer)


section \<open>The nearest routers\<close>

definition known_keys :: "'srv NodeDB \<Rightarrow> key set" where
  "known_keys db = fst ` set (m_Entries db)"

lemma VisitAll_keys: "nodedb_ok db \<Longrightarrow> map rc_pubkey (VisitAll db) = map fst (m_Entries db)"
  by (auto simp: nodedb_ok_def VisitAll_def list_all_iff)

lemma VisitAll_Get: "nodedb_ok db \<Longrightarrow> rc \<in> set (VisitAll db) \<longleftrightarrow> NodeDB_Get (rc_pubkey rc) db = Some rc"
  by (force simp: nodedb_ok_def VisitAll_def NodeDB_Get_def list_all_iff dest: map_of_SomeD)

lemma VisitAll_distinct: "nodedb_ok db \<Longrightarrow> distinct (map rc_pubkey (VisitAll db))"
  by (simp add: VisitAll_keys nodedb_distinct)

lemma key_of_known: "nodedb_ok db \<Longrightarrow> rc \<in> set (VisitAll db) \<Longrightarrow> key_ok (rc_pubkey rc)"
  by (auto simp: nodedb_ok_def VisitAll_def list_all_iff)

definition nearest_first :: "key \<Rightarrow> 'srv NodeDB \<Rightarrow> 'srv RouterContact list" where
  "nearest_first location db = sort_key (\<lambda>rc. key_xor location (rc_pubkey rc)) (VisitAll db)"

lemma key_xor_eq: "key_ok a \<Longrightarrow> key_ok b \<Longrightarrow> key_ok c \<Longrightarrow> key_xor a b = key_xor a c \<longleftrightarrow> b = c"
  by (auto simp: key_ok_def intro: key_xor_inj)

lemma nearest_first_strict:
  assumes "nodedb_ok db" and "key_ok location"
  shows "sorted_wrt (\<lambda>a b. XorMetric location (rc_pubkey a) (rc_pubkey b)) (nearest_first location db)"
proof -
  let ?d = "\<lambda>rc :: 'a RouterContact. key_xor location (rc_pubkey rc)"
  let ?xs = "nearest_first location db"
  have set: "set ?xs = set (VisitAll db)" by (simp add: nearest_first_def)
  have "inj_on ?d (set (VisitAll db))"
    using assms VisitAll_distinct [OF assms(1)] key_of_known [OF assms(1)]
    by (auto simp: inj_on_def key_xor_eq distinct_map)
  moreover have "distinct (VisitAll db)" using VisitAll_distinct [OF assms(1)] by (simp add: distinct_map)
  ultimately have "distinct (map ?d ?xs)" by (simp add: distinct_map set nearest_first_def)
  moreover have "sorted (map ?d ?xs)" by (simp add: nearest_first_def)
  ultimately have "sorted_wrt (<) (map ?d ?xs)" by (simp add: strict_sorted_iff)
  then show ?thesis by (simp add: sorted_wrt_map XorMetric_def)
qed

text \<open>The fold of \<open>FindClosestTo\<close>, from a contact that is already set.\<close>

lemma closest_step_fold:
  assumes "list_all (\<lambda>x. \<not> IsZero (rc_pubkey x)) (rc # rcs)"
  shows "foldl (closest_step location) rc rcs \<in> set (rc # rcs) \<and>
    list_all (\<lambda>x. \<not> XorMetric location (rc_pubkey x) (rc_pubkey (foldl (closest_step location) rc rcs))) (rc # rcs)"
  using assms
proof (induction rcs arbitrary: rc)
  case Nil
  then show ?case by (simp add: XorMetric_def)
next
  case (Cons y rcs)
  let ?c = "closest_step location rc y"
  have "?c = rc \<or> ?c = y" by (simp add: closest_step_def)
  then have "list_all (\<lambda>x. \<not> IsZero (rc_pubkey x)) (?c # rcs)" using Cons.prems by auto
  from Cons.IH [OF this] Cons.prems show ?case
    by (auto simp: closest_step_def XorMetric_def split: if_splits)
qed

lemma FindClosestTo_hd:
  assumes "nodedb_ok db" and "key_ok location" and "zero_key \<notin> known_keys db" and "m_Entries db \<noteq> []"
  shows "FindClosestTo netid location db = hd (nearest_first location db)"
proof -
  obtain rc rcs where v: "VisitAll db = rc # rcs" using assms(4) by (cases "VisitAll db") (auto simp: VisitAll_def)
  have z: "IsZero (rc_pubkey x) \<Longrightarrow> x \<in> set (VisitAll db) \<Longrightarrow> rc_pubkey x = zero_key" for x
    using key_of_known [OF assms(1), of x] by (simp add: IsZero_replicate [of "rc_pubkey x"] key_ok_def zero_key_def)
  have "rc_pubkey ` set (VisitAll db) = known_keys db"
    using arg_cong [OF VisitAll_keys [OF assms(1)], of set] by (simp add: known_keys_def)
  then have nz: "list_all (\<lambda>x. \<not> IsZero (rc_pubkey x)) (rc # rcs)"
    using z assms(3) v by (metis (mono_tags, lifting) imageI list_all_iff)
  let ?c = "foldl (closest_step location) rc rcs"
  have "FindClosestTo netid location db = ?c"
    by (simp add: FindClosestTo_def v closest_step_def new_RouterContact_def RouterContact_Clear_def zero_key_def IsZero_def list_all_iff)
  moreover have c: "?c \<in> set (VisitAll db)"
    "\<And>x. x \<in> set (VisitAll db) \<Longrightarrow> \<not> XorMetric location (rc_pubkey x) (rc_pubkey ?c)"
    using closest_step_fold [OF nz, of location] v by (auto simp: list_all_iff)
  obtain h t where h: "nearest_first location db = h # t"
    using v by (cases "nearest_first location db") (auto simp: nearest_first_def)
  have s: "set (h # t) = set (VisitAll db)" using h by (metis nearest_first_def set_sort)
  have "?c = h"
  proof (rule ccontr)
    assume "?c \<noteq> h"
    then have "?c \<in> set t" using c(1) s by auto
    then have "XorMetric location (rc_pubkey h) (rc_pubkey ?c)"
      using nearest_first_strict [OF assms(1,2)] h by simp
    then show False using c(2) [of h] s by auto
  qed
  ultimately show ?thesis using h by simp
qed

text \<open>
  Claim C29.  \<open>FindManyClosestTo\<close> returns the routers nearest to the location, nearest first: as many as
  asked for or all there are, each one strictly closer than the next, and strictly closer than every
  known router that is left out.  \<open>FindClosestTo\<close> returns the first of them.
\<close>

theorem nodedb_finds_nearest:
  assumes "nodedb_ok db" and "key_ok location" and "zero_key \<notin> known_keys db" and "0 < n" and "m_Entries db \<noteq> []"
  shows "let found = FindManyClosestTo location n db in
    length found = min n (NumLoaded db) \<and>
    set found \<subseteq> set (VisitAll db) \<and>
    sorted_wrt (\<lambda>a b. XorMetric location (rc_pubkey a) (rc_pubkey b)) found \<and>
    (\<forall>near \<in> set found. \<forall>far \<in> set (VisitAll db) - set found. XorMetric location (rc_pubkey near) (rc_pubkey far)) \<and>
    FindClosestTo netid location db = hd found"
proof -
  let ?all = "nearest_first location db"
  have found: "FindManyClosestTo location n db = take n ?all" by (simp add: FindManyClosestTo_def nearest_first_def)
  have set: "set ?all = set (VisitAll db)" by (simp add: nearest_first_def)
  have s: "sorted_wrt (\<lambda>a b. XorMetric location (rc_pubkey a) (rc_pubkey b)) (take n ?all @ drop n ?all)"
    using nearest_first_strict [OF assms(1,2)] by simp
  have "set (VisitAll db) - set (take n ?all) \<subseteq> set (drop n ?all)"
    using set set_append [of "take n ?all" "drop n ?all"] by auto
  then have "\<forall>near \<in> set (take n ?all). \<forall>far \<in> set (VisitAll db) - set (take n ?all). XorMetric location (rc_pubkey near) (rc_pubkey far)"
    using s unfolding sorted_wrt_append by blast
  moreover have "length ?all = NumLoaded db" by (simp add: nearest_first_def NumLoaded_def VisitAll_def)
  moreover have "hd (take n ?all) = hd ?all" using assms(4) by (cases ?all; cases n) simp_all
  ultimately show ?thesis
    using s FindClosestTo_hd [OF assms(1-3,5), of netid] set set_take_subset [of n ?all]
    by (simp add: found sorted_wrt_append Let_def)
qed

definition example_contact :: "byte \<Rightarrow> unit RouterContact" where
  "example_contact c = example_rc\<lparr>rc_pubkey := replicate 32 c, rc_signature := replicate 64 c, rc_last_updated := 1000\<rparr>"

definition example_db :: "unit NodeDB" where
  "example_db = NodeDB_Put 1000 (example_contact 6) (NodeDB_Put 1000 (example_contact 5) (new_NodeDB ''nodedb'' 0))"

lemma example_db_entries:
  "m_Entries example_db = [(replicate 32 5, new_Entry 1000 (example_contact 5)), (replicate 32 6, new_Entry 1000 (example_contact 6))]"
  "m_Root example_db = ''nodedb''"
  by (simp_all add: example_db_def NodeDB_Put_def new_NodeDB_def map_emplace_def map_erase_def example_contact_def)

lemma example_db_ok: "nodedb_ok example_db"
  unfolding example_db_def by (intro Put_ok) (simp_all add: nodedb_ok_def new_NodeDB_def example_contact_def key_ok_def)

theorem nodedb_finds_nearest_witness:
  "\<exists>found. found = FindManyClosestTo (replicate 32 1) 4 example_db \<and> length found = 2 \<and>
     FindClosestTo (replicate 8 0) (replicate 32 1) example_db = hd found"
  using nodedb_finds_nearest [of example_db "replicate 32 1" 4 "replicate 8 0"] example_db_ok
  by (simp add: Let_def example_db_entries known_keys_def key_ok_def zero_key_def NumLoaded_def)

section \<open>Save and load\<close>

text \<open>
  What is relied on of the names that \<open>oxenc\<close> makes: the base32z form of a key names that key and no
  other and does not begin with a dot, and the hexadecimal form consists of lower case digits.
\<close>

definition names_ok :: "oxenc_names \<Rightarrow> bool" where
  "names_ok ox \<longleftrightarrow> inj_on (to_base32z ox) {k. key_ok k} \<and>
     (\<forall>k. key_ok k \<longrightarrow> to_base32z ox k \<noteq> [] \<and> hd (to_base32z ox k) \<noteq> CHR ''.'' \<and>
        to_hex ox k \<noteq> [] \<and> set (to_hex ox k) \<subseteq> set skiplist_subdirs)"

lemma names_okD:
  assumes "names_ok ox" and "key_ok k"
  shows "fst (GetPathForPubkey ox k) \<in> set skiplist_subdirs"
    and "snd (GetPathForPubkey ox k) \<noteq> []" and "hd (snd (GetPathForPubkey ox k)) \<noteq> CHR ''.''"
    and "key_ok k' \<Longrightarrow> GetPathForPubkey ox k = GetPathForPubkey ox k' \<longleftrightarrow> k = k'"
proof -
  have n: "to_base32z ox k \<noteq> []" "hd (to_base32z ox k) \<noteq> CHR ''.''" "to_hex ox k \<noteq> []" "set (to_hex ox k) \<subseteq> set skiplist_subdirs"
    using assms by (simp_all add: names_ok_def)
  show "fst (GetPathForPubkey ox k) \<in> set skiplist_subdirs"
    using n(3,4) nth_mem [of 0 "to_hex ox k"] by (auto simp: GetPathForPubkey_def)
  show "snd (GetPathForPubkey ox k) \<noteq> []" "hd (snd (GetPathForPubkey ox k)) \<noteq> CHR ''.''"
    using n(1,2) by (simp_all add: GetPathForPubkey_def RouterID_ToString_def)
  show "key_ok k' \<Longrightarrow> GetPathForPubkey ox k = GetPathForPubkey ox k' \<longleftrightarrow> k = k'"
    using assms by (auto simp: GetPathForPubkey_def RouterID_ToString_def names_ok_def inj_on_def)
qed

lemma extension_of_path: "path_extension (snd (GetPathForPubkey ox k)) = RC_FILE_EXT"
  by (simp add: GetPathForPubkey_def RouterID_ToString_def RC_FILE_EXT_def path_extension_def)

text \<open>The contacts that fit into a file and are accepted when they are read.\<close>

definition storable :: "'srv load_env \<Rightarrow> 'srv RouterContact \<Rightarrow> bool" where
  "storable le rc \<longleftrightarrow> rc_ok (le_env le) rc \<and> length (wire_msg (rc_entries (le_env le) rc)) \<le> MAX_RC_SIZE \<and>
     RouterContact_Verify (le_env le) (le_bogons le) rc (le_now le) True"

lemma storable_writes:
  assumes "storable le rc"
  shows "encode_into MAX_RC_SIZE (RouterContact_BEncode (le_env le) rc) = Some (wire_msg (rc_entries (le_env le) rc))"
proof -
  have "rc_fields_ok (le_env le) rc" using assms by (simp add: storable_def rc_ok_def)
  then have "writes (BEncodeSignedSection (le_env le) rc) (wire_msg (rc_entries (le_env le) rc))" "rc_version rc = 0"
    by (rule rc_writes) (use \<open>rc_fields_ok (le_env le) rc\<close> in \<open>simp add: rc_fields_ok_def\<close>)
  then show ?thesis using assms writes_fresh by (simp add: RouterContact_BEncode_def storable_def)
qed

lemma storable_reads:
  assumes "storable le rc" and "length tmp = MAX_RC_SIZE" and "map_of fs f = Some (wire_msg (rc_entries (le_env le) rc))"
  shows "RouterContact_Read (le_env le) netid tmp f fs = Inr (Some rc)"
proof -
  let ?bs = "wire_msg (rc_entries (le_env le) rc)"
  have "at (mk_buf (?bs @ drop (length ?bs) tmp)) ?bs" using at_mk_buf [of ?bs "drop (length ?bs) tmp"] by simp
  then show ?thesis using assms rc_at [of _ "le_env le" rc netid] by (simp add: RouterContact_Read_def storable_def)
qed

lemma storable_network: "storable le rc \<Longrightarrow> FromOurNetwork (env_netid (le_env le)) rc"
  by (simp add: storable_def RouterContact_Verify_def FromOurNetwork_def split: if_splits)

text \<open>The bytes that the file of a router holds after the database was saved.\<close>

lemma SaveToDisk_file:
  assumes "names_ok ox" and "nodedb_ok db" and "m_Root db \<noteq> []" and "list_all (storable le) (VisitAll db)"
  shows "map_of (SaveToDisk (le_env le) ox db fs) =
    (\<lambda>f. case find (\<lambda>item. GetPathForPubkey ox (fst item) = f) (m_Entries db) of
       Some item \<Rightarrow> Some (wire_msg (rc_entries (le_env le) (entry_rc (snd item)))) | None \<Rightarrow> map_of fs f)"
proof -
  let ?w = "\<lambda>item fs. snd (RouterContact_Write (le_env le) (GetPathForPubkey ox (fst item)) (entry_rc (snd item)) fs)"
  have "distinct (map fst m) \<Longrightarrow> list_all (\<lambda>item. key_ok (fst item) \<and> storable le (entry_rc (snd item))) m \<Longrightarrow>
      map_of (fold ?w m fs) = (\<lambda>f. case find (\<lambda>item. GetPathForPubkey ox (fst item) = f) m of
       Some item \<Rightarrow> Some (wire_msg (rc_entries (le_env le) (entry_rc (snd item)))) | None \<Rightarrow> map_of fs f)" for m
  proof (induction m arbitrary: fs)
    case (Cons item m)
    have k: "key_ok (fst item)" "\<And>x. x \<in> set m \<Longrightarrow> key_ok (fst x)"
      using Cons.prems by (auto simp: list_all_iff)
    have "fst item \<notin> fst ` set m" using Cons.prems(1) by simp
    then have ne: "fst x \<noteq> fst item" if "x \<in> set m" for x using that by (metis imageI)
    have "GetPathForPubkey ox (fst x) \<noteq> GetPathForPubkey ox (fst item)" if "x \<in> set m" for x
      using names_okD(4) [OF assms(1) k(2) [OF that] k(1)] ne [OF that] by simp
    then have n: "find (\<lambda>x. GetPathForPubkey ox (fst x) = GetPathForPubkey ox (fst item)) m = None"
      by (auto simp: find_None_iff)
    have w: "?w item fs = file_put (GetPathForPubkey ox (fst item)) (wire_msg (rc_entries (le_env le) (entry_rc (snd item)))) fs"
      using Cons.prems(2) by (simp add: RouterContact_Write_def storable_writes)
    show ?case
      using Cons.IH [of "?w item fs"] Cons.prems n w
      by (auto simp: fun_eq_iff file_put_def map_of_map_erase split: option.splits)
  qed simp
  moreover have "list_all (\<lambda>item. key_ok (fst item) \<and> storable le (entry_rc (snd item))) (m_Entries db)"
    using assms(2,4) by (auto simp: nodedb_ok_def list_all_iff VisitAll_def)
  ultimately show ?thesis using assms(3) nodedb_distinct [OF assms(2)] by (simp add: SaveToDisk_def)
qed

lemma in_dir_entries:
  "n \<in> set (dir_entries fs ch) \<longleftrightarrow> map_of fs (ch, n) \<noteq> None \<and> n \<noteq> [] \<and> hd n \<noteq> CHR ''.''"
proof -
  have "n \<in> set (dir_entries fs ch) \<longleftrightarrow> (ch, n) \<in> fst ` set fs \<and> n \<noteq> [] \<and> hd n \<noteq> CHR ''.''"
    by (force simp: dir_entries_def)
  also have "(ch, n) \<in> fst ` set fs \<longleftrightarrow> map_of fs (ch, n) \<noteq> None"
    unfolding map_of_eq_None_iff by (rule not_not [symmetric])
  finally show ?thesis .
qed

lemma dir_entries_set:
  "f \<in> set (concat (map (\<lambda>ch. map (Pair ch) (dir_entries fs ch)) chs)) \<longleftrightarrow>
     map_of fs f \<noteq> None \<and> fst f \<in> set chs \<and> snd f \<noteq> [] \<and> hd (snd f) \<noteq> CHR ''.''"
  by (cases f) (auto simp: in_dir_entries image_iff)

text \<open>
  Loading files of which every one that counts holds a storable contact under its own name: nothing is
  purged, and the contacts are added that were not there.
\<close>

lemma load_files_stored:
  assumes "names_ok ox" and "nodedb_ok db" and "list_all (storable le) (VisitAll db)"
    and tmp: "\<And>f. length (le_tmp le f) = MAX_RC_SIZE"
    and "\<And>f. f \<in> set fps \<Longrightarrow> path_extension (snd f) = RC_FILE_EXT \<Longrightarrow>
      \<exists>rc. NodeDB_Get (rc_pubkey rc) db = Some rc \<and> f = GetPathForPubkey ox (rc_pubkey rc) \<and>
        map_of fs f = Some (wire_msg (rc_entries (le_env le) rc))"
  shows "\<exists>m'. load_files le fs fps (m, purge) = Inr (m', purge) \<and>
    (\<forall>k. map_option entry_rc (map_of m' k) =
      (case map_of m k of Some e \<Rightarrow> Some (entry_rc e)
       | None \<Rightarrow> if GetPathForPubkey ox k \<in> set fps then NodeDB_Get k db else None))"
  using assms(5)
proof (induction fps arbitrary: m)
  case (Cons f fps)
  have get_ok: "NodeDB_Get k db = Some r \<Longrightarrow> rc_pubkey r = k \<and> key_ok k \<and> storable le r" for k r
    using assms(2,3) by (auto simp: NodeDB_Get_def nodedb_ok_def list_all_iff VisitAll_def dest!: map_of_SomeD)
  show ?case
  proof (cases "path_extension (snd f) = RC_FILE_EXT")
    case False
    then have f: "GetPathForPubkey ox k \<noteq> f" for k using extension_of_path [of ox k] by metis
    have lf: "load_files le fs (f # fps) (m, purge) = load_files le fs fps (m, purge)"
      using False by (simp add: load_file_def)
    have "GetPathForPubkey ox k \<in> set (f # fps) \<longleftrightarrow> GetPathForPubkey ox k \<in> set fps" for k using f [of k] by simp
    then show ?thesis unfolding lf using Cons.IH [of m, OF Cons.prems] by (simp only: list.set_intros(2))
  next
    case True
    obtain rc where rc: "NodeDB_Get (rc_pubkey rc) db = Some rc" "f = GetPathForPubkey ox (rc_pubkey rc)"
      "map_of fs f = Some (wire_msg (rc_entries (le_env le) rc))"
      using Cons.prems [of f] True by auto
    have ok: "storable le rc" "key_ok (rc_pubkey rc)" using get_ok [OF rc(1)] by simp_all
    let ?m = "map_emplace (rc_pubkey rc) (new_Entry (le_now le) rc) m"
    have "load_file le fs f (m, purge) = Inr (?m, purge)"
      using True storable_reads [OF ok(1) tmp rc(3), of "le_netid le" f] storable_network [OF ok(1)] ok(1)
      by (simp add: load_file_def storable_def)
    moreover obtain m' where m': "load_files le fs fps (?m, purge) = Inr (m', purge)"
      "\<And>k. map_option entry_rc (map_of m' k) = (case map_of ?m k of Some e \<Rightarrow> Some (entry_rc e)
       | None \<Rightarrow> if GetPathForPubkey ox k \<in> set fps then NodeDB_Get k db else None)"
      using Cons.IH [of ?m, OF Cons.prems, OF list.set_intros(2)] by blast
    moreover have "map_option entry_rc (map_of m' k) = (case map_of m k of Some e \<Rightarrow> Some (entry_rc e)
       | None \<Rightarrow> if GetPathForPubkey ox k \<in> set (f # fps) then NodeDB_Get k db else None)" for k
    proof (cases "k = rc_pubkey rc")
      case True
      then show ?thesis using m'(2) [of k] rc(1,2) by (simp add: map_of_emplace new_Entry_def split: option.splits)
    next
      case False
      then have "GetPathForPubkey ox k = f \<Longrightarrow> NodeDB_Get k db = None"
        using get_ok names_okD(4) [OF assms(1) _ ok(2), of k] rc(2) by (cases "NodeDB_Get k db") auto
      then show ?thesis using m'(2) [of k] False by (simp add: map_of_emplace split: option.splits)
    qed
    ultimately show ?thesis by (intro exI [of _ m']) (simp only: load_files.simps bindE_Inr simp_thms)
  qed
qed (simp split: option.splits)


text \<open>A concrete instance: names that spell the bytes of a key out, and the contacts of \<open>example_db\<close>.\<close>

definition spelled_names :: oxenc_names where
  "spelled_names = \<lparr>to_hex = \<lambda>k. ''0'', to_base32z = \<lambda>k. CHR ''y'' # map (\<lambda>b. char_of (unat b)) k\<rparr>"

lemma spelled_names_ok: "names_ok spelled_names"
proof -
  have "inj (\<lambda>b :: byte. char_of (unat b) :: char)"
    by (rule injI) (metis char_of_eq_iff mod_less of_char_of unat_byte_bound word_unat_eq_iff)
  then have "inj_on (map (\<lambda>b :: byte. char_of (unat b) :: char)) {k. key_ok k}"
    by (intro inj_on_subset [OF inj_mapI]) simp_all
  then show ?thesis by (auto simp: names_ok_def spelled_names_def skiplist_subdirs_def inj_on_def)
qed

definition example_load :: "unit load_env" where
  "example_load = \<lparr>le_env = example_env, le_netid = replicate 8 0, le_tmp = \<lambda>f. replicate 1024 0xAA,
     le_bogons = False, le_now = 2000\<rparr>"

lemma example_contact_ok: "rc_ok example_env (example_contact c)"
  using example_rc_ok
  by (simp add: rc_ok_def rc_fields_ok_def example_contact_def time_ok_def example_rc_def new_RouterContact_def RouterContact_Clear_def)

lemma example_contact_length: "rc_fields_ok example_env rc \<Longrightarrow> rc_addrs rc = rc_addrs example_rc \<Longrightarrow>
    rc_routerVersion rc = rc_routerVersion example_rc \<Longrightarrow> rc_nickname rc = replicate 32 0 \<Longrightarrow>
    encode_into MAX_RC_SIZE (BEncodeSignedSection example_env rc) = Some (wire_msg (rc_entries example_env rc)) \<and>
    length (wire_msg (rc_entries example_env rc)) \<le> MAX_RC_SIZE"
  using length_example_rc [of rc] writes_fresh [OF rc_writes, of example_env rc MAX_RC_SIZE] by (simp add: MAX_RC_SIZE_def)

lemma example_storable: "storable example_load (example_contact c)"
proof -
  let ?z = "(example_contact c)\<lparr>rc_signature := replicate 64 0\<rparr>"
  have ok: "rc_fields_ok example_env (example_contact c)" using example_contact_ok by (simp add: rc_ok_def)
  then have ok': "rc_fields_ok example_env ?z" by (simp add: rc_fields_ok_def)
  have f: "rc_addrs (example_contact c) = rc_addrs example_rc" "rc_routerVersion (example_contact c) = rc_routerVersion example_rc"
    "rc_nickname (example_contact c) = replicate 32 0" "rc_version (example_contact c) = 0"
    using ok by (simp_all add: example_contact_def example_rc_def new_RouterContact_def RouterContact_Clear_def rc_fields_ok_def)
  have "encode_into MAX_RC_SIZE (BEncodeSignedSection example_env ?z) = Some (wire_msg (rc_entries example_env ?z))"
    using example_contact_length [OF ok'] f by simp
  then have "VerifySignature example_env (example_contact c)"
    using f by (simp add: VerifySignature_def RouterContact_BEncode_def) (simp add: example_env_def example_contact_def)
  moreover have "rc_netID (example_contact c) = env_netid example_env"
    by (simp add: example_contact_def example_env_def example_rc_def new_RouterContact_def RouterContact_Clear_def)
  ultimately have "RouterContact_Verify example_env False (example_contact c) 2000 True"
    by (simp add: RouterContact_Verify_def NetID_eq_def list_ex_iff)
  then show ?thesis
    using example_contact_ok [of c] example_contact_length [OF ok] f by (simp add: storable_def example_load_def)
qed


section \<open>Removal\<close>

lemma run_disk_files: "m_Root db \<noteq> [] \<Longrightarrow> disk_jobs db = [] \<Longrightarrow>
    snd (run_disk env ox (if ks \<noteq> [] then AsyncRemoveManyFromDisk ox ks db else db) fs) =
      fold map_erase (map (GetPathForPubkey ox) ks) fs"
  by (simp add: run_disk_def AsyncRemoveManyFromDisk_def)

lemma run_disk_removed:
  assumes "m_Root db \<noteq> []" and "disk_jobs db = []"
  shows "snd (run_disk env ox (remove_entries ox p db) fs) = fold map_erase (map (GetPathForPubkey ox)
    (map (\<lambda>item. rc_pubkey (entry_rc (snd item))) (filter (\<lambda>item. p (snd item)) (m_Entries db)))) fs"
  unfolding remove_entries_def Let_def by (rule run_disk_files) (simp_all add: assms)

lemma removed_keys:
  assumes "nodedb_ok db"
  shows "(\<lambda>item. rc_pubkey (entry_rc (snd item))) ` set (filter (\<lambda>item. p (snd item)) (m_Entries db)) =
    known_keys db - fst ` set (filter (\<lambda>item. \<not> p (snd item)) (m_Entries db))"
proof -
  let ?A = "set (m_Entries db)" and ?B = "set (filter (\<lambda>item. \<not> p (snd item)) (m_Entries db))"
  have "(\<lambda>item. rc_pubkey (entry_rc (snd item))) ` set (filter (\<lambda>item. p (snd item)) (m_Entries db)) = fst ` (?A - ?B)"
    using assms by (intro image_cong) (auto simp: nodedb_ok_def list_all_iff)
  also have "\<dots> = fst ` ?A - fst ` ?B"
    using nodedb_distinct [OF assms] by (intro inj_on_image_set_diff) (auto simp: distinct_map)
  finally show ?thesis by (simp only: known_keys_def)
qed

text \<open>
  Claim C31.  \<open>RemoveStaleRCs\<close> removes exactly the contacts that were inserted before the cutoff and are
  not to be kept, from memory at once and, when the disk thread has run, from the directory too, where
  every other file is left alone.
\<close>

theorem nodedb_removes_stale:
  assumes "nodedb_ok db" and "m_Root db \<noteq> []" and "disk_jobs db = []" and "db' = RemoveStaleRCs ox keep cutoff db"
  shows "nodedb_ok db' \<and>
    NodeDB_Get k db' =
      (case map_of (m_Entries db) k of
         Some e \<Rightarrow> if insertedAt e < cutoff \<and> k \<notin> keep then None else Some (entry_rc e) | None \<Rightarrow> None) \<and>
    map_of (snd (run_disk env ox db' fs)) f =
      (if f \<in> GetPathForPubkey ox ` (known_keys db - known_keys db') then None else map_of fs f)"
proof -
  let ?p = "\<lambda>e :: 'a Entry. insertedAt e < cutoff \<and> rc_pubkey (entry_rc e) \<notin> keep"
  let ?m = "filter (\<lambda>item. ?p (snd item)) (m_Entries db)"
  have key: "(k, e) \<in> set (m_Entries db) \<Longrightarrow> rc_pubkey (entry_rc e) = k" for k e
    using assms(1) by (auto simp: nodedb_ok_def list_all_iff)
  have m': "m_Entries db' = filter (\<lambda>item. \<not> ?p (snd item)) (m_Entries db)"
    unfolding assms(4) RemoveStaleRCs_def by (rule remove_entries_Entries)
  have get: "NodeDB_Get k db' = (case map_of (m_Entries db) k of
      Some e \<Rightarrow> if insertedAt e < cutoff \<and> k \<notin> keep then None else Some (entry_rc e) | None \<Rightarrow> None)"
    unfolding NodeDB_Get_def m' map_of_filter_value [OF nodedb_distinct [OF assms(1)], where p = ?p]
    by (auto split: option.splits dest: map_of_SomeD key)
  have "map_of (snd (run_disk env ox db' fs)) f =
      (if f \<in> GetPathForPubkey ox ` (known_keys db - known_keys db') then None else map_of fs f)"
    using removed_keys [OF assms(1), of ?p]
    unfolding assms(4) RemoveStaleRCs_def run_disk_removed [OF assms(2,3)] fold_map_erase known_keys_def remove_entries_Entries
    by (simp only: set_map)
  then show ?thesis using get remove_entries_ok [OF assms(1)] by (simp add: assms(4) RemoveStaleRCs_def)
qed

theorem nodedb_removes_stale_witness:
  "NodeDB_Get (replicate 32 5) (RemoveStaleRCs spelled_names {replicate 32 5} 2000 example_db) = Some (example_contact 5)"
proof -
  have m: "map_of (m_Entries example_db) (replicate 32 5) = Some (new_Entry 1000 (example_contact 5))"
    "m_Root example_db \<noteq> []"
    unfolding example_db_entries by simp_all
  have j: "disk_jobs example_db = []" by (simp add: example_db_def NodeDB_Put_def new_NodeDB_def)
  show ?thesis
    using nodedb_removes_stale [OF example_db_ok m(2) j refl, of spelled_names "{replicate 32 5}" 2000 "replicate 32 5"]
    by (simp add: m new_Entry_def)
qed

end
