(* ===== verification/Dht_Bucket.thy ===== *)
theory Dht_Bucket
  imports Dht_Key
begin

text \<open>
  \<open>llarp::dht::Bucket\<close> (\<open>llarp/dht/bucket.hpp\<close>): the nodes a router knows, ordered by the distance of
  their key from its own.  The value type is a parameter, as in the template, through the two members
  the code uses of it: \<open>ID\<close> and \<open>operator<\<close>.  A \<open>std::set<Key_t>\<close> is a finite set; where the code runs
  through it, it does so in the order of the keys.
\<close>

record 'v Bucket =
  us_key :: key
  nodes :: "(key \<times> 'v) list"

definition new_Bucket :: "key \<Rightarrow> 'v Bucket" where
  "new_Bucket k = \<lparr>us_key = k, nodes = []\<rparr>"

definition Bucket_size :: "'v Bucket \<Rightarrow> nat" where
  "Bucket_size B = length (nodes B)"

section \<open>Selecting nodes\<close>

text \<open>\<open>std::set_difference\<close> with a comparator for each direction.\<close>

fun set_difference :: "('a \<Rightarrow> 'b \<Rightarrow> bool) \<Rightarrow> ('b \<Rightarrow> 'a \<Rightarrow> bool) \<Rightarrow> 'a list \<Rightarrow> 'b list \<Rightarrow> 'a list" where
  "set_difference lt gt [] ys = []"
| "set_difference lt gt xs [] = xs"
| "set_difference lt gt (x # xs) (y # ys) =
     (if lt x y then x # set_difference lt gt xs (y # ys)
      else if gt y x then set_difference lt gt (x # xs) ys
      else set_difference lt gt xs ys)"

definition GetRandomNodeExcluding :: "u64 \<Rightarrow> key set \<Rightarrow> 'v Bucket \<Rightarrow> key option" where
  "GetRandomNodeExcluding random exclude B =
     (let candidates = set_difference (\<lambda>lhs rhs. fst lhs < rhs) (\<lambda>lhs rhs. lhs < fst rhs)
                         (nodes B) (sorted_list_of_set exclude)
      in if candidates = [] then None
         else Some (fst (candidates ! (unat random mod length candidates))))"

definition closer_of :: "key \<Rightarrow> key \<times> key \<Rightarrow> key \<Rightarrow> key \<times> key" where
  "closer_of target = (\<lambda>(mindist, result) k.
     let curDist = key_xor k target in if curDist < mindist then (curDist, k) else (mindist, result))"

text \<open>\<open>result\<close> is a reference: it keeps its old value when no node is closer than the initial distance.\<close>

definition FindClosest :: "key \<Rightarrow> key \<Rightarrow> 'v Bucket \<Rightarrow> bool \<times> key" where
  "FindClosest target result B =
     (let (mindist, result') = foldl (closer_of target) (Fill 0xff, result) (map fst (nodes B))
      in (Bucket_size B > 0, result'))"

definition FindCloseExcluding :: "key \<Rightarrow> key \<Rightarrow> key set \<Rightarrow> 'v Bucket \<Rightarrow> bool \<times> key" where
  "FindCloseExcluding target result exclude B =
     (let maxdist = Fill 0xff;
          (mindist, result') = foldl (closer_of target) (Fill 0xff, result)
             (filter (\<lambda>k. k \<notin> exclude) (map fst (nodes B)))
      in (mindist < maxdist, result'))"

fun near_loop :: "key \<Rightarrow> 'v Bucket \<Rightarrow> nat \<Rightarrow> key \<Rightarrow> key set \<Rightarrow> key set \<Rightarrow> bool \<times> key set" where
  "near_loop target B 0 peer s result = (True, result)"
| "near_loop target B (Suc N) peer s result =
     (let (ok, peer') = FindCloseExcluding target peer s B
      in if \<not> ok then (False, result)
         else near_loop target B N peer' (insert peer' s) (insert peer' result))"

definition GetManyNearExcluding :: "key \<Rightarrow> key set \<Rightarrow> nat \<Rightarrow> key set \<Rightarrow> 'v Bucket \<Rightarrow> bool \<times> key set" where
  "GetManyNearExcluding target result N exclude B = near_loop target B N zero_key exclude result"

text \<open>
  \<open>GetManyRandom\<close> draws until it has \<open>N\<close> new keys.  The draws are an argument; \<open>None\<close> means that they
  were used up.
\<close>

fun random_loop :: "u64 list \<Rightarrow> key list \<Rightarrow> nat \<Rightarrow> key set \<Rightarrow> key set option" where
  "random_loop draws ks 0 result = Some result"
| "random_loop [] ks (Suc N) result = None"
| "random_loop (r # draws) ks (Suc N) result =
     (let k = ks ! (unat r mod length ks)
      in if k \<in> result then random_loop draws ks (Suc N) result
         else random_loop draws ks N (insert k result))"

definition GetManyRandom :: "u64 list \<Rightarrow> key set \<Rightarrow> nat \<Rightarrow> 'v Bucket \<Rightarrow> (bool \<times> key set) option" where
  "GetManyRandom draws result N B =
     (if Bucket_size B < N \<or> nodes B = [] then Some (False, result)
      else if Bucket_size B = N then Some (True, result \<union> set (map fst (nodes B)))
      else case random_loop draws (map fst (nodes B)) N result of
          None \<Rightarrow> None
        | Some result' \<Rightarrow> Some (card result' = N, result'))"

section \<open>Changing the bucket\<close>

definition PutNode :: "('v \<Rightarrow> key) \<Rightarrow> ('v \<Rightarrow> 'v \<Rightarrow> bool) \<Rightarrow> 'v \<Rightarrow> 'v Bucket \<Rightarrow> 'v Bucket" where
  "PutNode ID older val B =
     (let itr = omap_find (XorMetric (us_key B)) (ID val) (nodes B)
      in if itr = None \<or> older (the itr) val
         then B\<lparr>nodes := omap_put (XorMetric (us_key B)) (ID val) val (nodes B)\<rparr>
         else B)"

definition DelNode :: "key \<Rightarrow> 'v Bucket \<Rightarrow> 'v Bucket" where
  "DelNode k B =
     (if omap_find (XorMetric (us_key B)) k (nodes B) \<noteq> None
      then B\<lparr>nodes := omap_erase (XorMetric (us_key B)) k (nodes B)\<rparr> else B)"

definition HasNode :: "key \<Rightarrow> 'v Bucket \<Rightarrow> bool" where
  "HasNode k B \<longleftrightarrow> omap_find (XorMetric (us_key B)) k (nodes B) \<noteq> None"

definition Bucket_RemoveIf :: "(key \<Rightarrow> bool) \<Rightarrow> 'v Bucket \<Rightarrow> 'v Bucket" where
  "Bucket_RemoveIf pred B = B\<lparr>nodes := filter (\<lambda>item. \<not> pred (fst item)) (nodes B)\<rparr>"

definition Bucket_Clear :: "'v Bucket \<Rightarrow> 'v Bucket" where
  "Bucket_Clear B = B\<lparr>nodes := []\<rparr>"

section \<open>The invariant\<close>

definition bucket_ok :: "'v Bucket \<Rightarrow> bool" where
  "bucket_ok B \<longleftrightarrow> key_ok (us_key B) \<and> metric.ok (us_key B) (nodes B)"

abbreviation known :: "'v Bucket \<Rightarrow> key set" where
  "known B \<equiv> fst ` set (nodes B)"

lemma bucket_ok_new: "key_ok k \<Longrightarrow> bucket_ok (new_Bucket k)"
  by (simp add: bucket_ok_def new_Bucket_def)

lemma known_length: "bucket_ok B \<Longrightarrow> k \<in> known B \<Longrightarrow> length k = 32"
  by (auto simp: bucket_ok_def metric.ok_def key_ok_def)

lemma bucket_okD:
  assumes "bucket_ok B"
  shows "key_ok (us_key B)" and "metric.ok (us_key B) (nodes B)"
    and "key_ok k \<Longrightarrow> length k = length (us_key B)"
  using assms unfolding bucket_ok_def key_ok_def by auto

lemma bucket_distinct: "bucket_ok B \<Longrightarrow> distinct (map fst (nodes B))"
  by (rule metric.ok_distinct) (rule bucket_okD)

lemma us_ops [simp]:
  "us_key (PutNode ID older v B) = us_key B" "us_key (DelNode k B) = us_key B" "us_key (Bucket_RemoveIf p B) = us_key B"
  by (simp_all add: PutNode_def DelNode_def Bucket_RemoveIf_def Let_def)

lemma find_node: "bucket_ok B \<Longrightarrow> key_ok k \<Longrightarrow> omap_find (XorMetric (us_key B)) k (nodes B) = map_of (nodes B) k"
  by (rule metric.find_map_of) (rule bucket_okD; assumption)+

lemma bucket_okI: "bucket_ok B \<Longrightarrow> metric.ok (us_key B) m \<Longrightarrow> bucket_ok (B\<lparr>nodes := m\<rparr>)"
  by (simp add: bucket_ok_def)

lemma PutNode_ok:
  assumes "bucket_ok B" and "key_ok (ID v)"
  shows "bucket_ok (PutNode ID older v B)"
proof -
  have "metric.ok (us_key B) (omap_put (XorMetric (us_key B)) (ID v) v (nodes B))"
    using assms by (intro metric.ok_put bucket_okD)
  then show ?thesis using assms(1) by (simp add: PutNode_def Let_def bucket_okI)
qed

lemma DelNode_ok:
  assumes "bucket_ok B" and "key_ok k"
  shows "bucket_ok (DelNode k B)"
proof -
  have "metric.ok (us_key B) (omap_erase (XorMetric (us_key B)) k (nodes B))"
    using assms by (intro metric.ok_erase bucket_okD)
  then show ?thesis using assms(1) by (simp add: DelNode_def bucket_okI)
qed

lemma RemoveIf_ok: "bucket_ok B \<Longrightarrow> bucket_ok (Bucket_RemoveIf p B)"
  by (simp add: bucket_ok_def Bucket_RemoveIf_def metric.ok_filter)

lemma map_of_PutNode:
  assumes "bucket_ok B" and "key_ok (ID v)"
  shows "map_of (nodes (PutNode ID older v B)) =
    (case map_of (nodes B) (ID v) of
       None \<Rightarrow> (map_of (nodes B))(ID v \<mapsto> v)
     | Some w \<Rightarrow> if older w v then (map_of (nodes B))(ID v \<mapsto> v) else map_of (nodes B))"
proof -
  have "map_of (omap_put (XorMetric (us_key B)) (ID v) v (nodes B)) = (map_of (nodes B))(ID v \<mapsto> v)"
    using assms by (intro metric.map_of_put bucket_okD)
  then show ?thesis using find_node [OF assms] by (simp add: PutNode_def Let_def split: option.splits)
qed

lemma map_of_DelNode:
  assumes "bucket_ok B" and "key_ok k"
  shows "map_of (nodes (DelNode k B)) = (map_of (nodes B))(k := None)"
proof -
  have "map_of (omap_erase (XorMetric (us_key B)) k (nodes B)) = (map_of (nodes B))(k := None)"
    using assms by (intro metric.map_of_erase bucket_okD)
  then show ?thesis
    using find_node [OF assms] by (auto simp: DelNode_def fun_eq_iff)
qed

lemma map_of_RemoveIf: "map_of (nodes (Bucket_RemoveIf p B)) = (\<lambda>k. if p k then None else map_of (nodes B) k)"
  using metric.map_of_filter_key [of "\<lambda>k. \<not> p k" "nodes B"]
  by (auto simp: Bucket_RemoveIf_def fun_eq_iff)

section \<open>The closest node\<close>

lemma closest_fold:
  assumes "foldl (closer_of t) (d, r) ks = (d', r')"
  shows "d' = d \<and> r' = r \<and> (\<forall>k \<in> set ks. \<not> key_xor k t < d) \<or>
    r' \<in> set ks \<and> d' = key_xor r' t \<and> d' < d \<and> (\<forall>k \<in> set ks. d' \<le> key_xor k t)"
  using assms
proof (induction ks arbitrary: d r)
  case Nil
  then show ?case by simp
next
  case (Cons k ks)
  show ?case
  proof (cases "key_xor k t < d")
    case True
    then have "foldl (closer_of t) (key_xor k t, k) ks = (d', r')"
      using Cons.prems by (simp add: closer_of_def)
    from Cons.IH [OF this] show ?thesis using True by auto
  next
    case False
    then have "foldl (closer_of t) (d, r) ks = (d', r')"
      using Cons.prems by (simp add: closer_of_def)
    from Cons.IH [OF this] show ?thesis using False by auto
  qed
qed

text \<open>The nodes the selection can return: the one at the greatest distance is never closer than it.\<close>

definition candidates :: "key \<Rightarrow> key set \<Rightarrow> 'v Bucket \<Rightarrow> key set" where
  "candidates t exclude B = {k \<in> known B. k \<notin> exclude \<and> key_xor k t \<noteq> Fill 0xff}"

lemma below_Fill: "length k = 32 \<Longrightarrow> length t = 32 \<Longrightarrow> key_xor k t < Fill 0xff \<longleftrightarrow> key_xor k t \<noteq> Fill 0xff"
  using Fill_greatest [of "key_xor k t" 32] by (auto simp: Fill_def less_le)

lemma candidate_iff:
  assumes "bucket_ok B" and "key_ok t" and k: "k \<in> known B" and "k \<notin> exclude"
  shows "key_xor k t < Fill 0xff \<longleftrightarrow> k \<in> candidates t exclude B"
proof -
  have "length k = 32" "length t = 32" using known_length [OF assms(1) k] assms(2) by (simp_all add: key_ok_def)
  then show ?thesis using below_Fill k assms(4) unfolding candidates_def by blast
qed

lemma FindCloseExcluding_spec:
  assumes "bucket_ok B" and "key_ok t" and "FindCloseExcluding t r exclude B = (ok, r')"
  shows "ok \<longleftrightarrow> candidates t exclude B \<noteq> {}"
    and "ok \<Longrightarrow> r' \<in> candidates t exclude B \<and> (\<forall>k \<in> candidates t exclude B. key_xor r' t \<le> key_xor k t)"
proof -
  let ?ks = "filter (\<lambda>k. k \<notin> exclude) (map fst (nodes B))"
  obtain d where d: "foldl (closer_of t) (Fill 0xff, r) ?ks = (d, r')" "ok \<longleftrightarrow> d < Fill 0xff"
    using assms(3) by (auto simp: FindCloseExcluding_def Let_def split: prod.splits)
  have below: "key_xor k t < Fill 0xff \<longleftrightarrow> k \<in> candidates t exclude B" if "k \<in> set ?ks" for k
    using candidate_iff [OF assms(1,2), of k exclude] that by auto
  have sub: "candidates t exclude B \<subseteq> set ?ks" by (auto simp: candidates_def)
  consider (none) "d = Fill 0xff" "\<forall>k \<in> set ?ks. \<not> key_xor k t < Fill 0xff"
    | (some) "r' \<in> set ?ks" "d = key_xor r' t" "d < Fill 0xff" "\<forall>k \<in> set ?ks. d \<le> key_xor k t"
    using closest_fold [OF d(1)] by blast
  then have "(ok \<longleftrightarrow> candidates t exclude B \<noteq> {}) \<and> (ok \<longrightarrow> r' \<in> candidates t exclude B \<and>
      (\<forall>k \<in> candidates t exclude B. key_xor r' t \<le> key_xor k t))"
  proof cases
    case none
    then have "candidates t exclude B = {}" using below sub by blast
    then show ?thesis using none d(2) by simp
  next
    case some
    then have "r' \<in> candidates t exclude B" using below by blast
    then show ?thesis using some d(2) sub by auto
  qed
  then show "ok \<longleftrightarrow> candidates t exclude B \<noteq> {}"
    and "ok \<Longrightarrow> r' \<in> candidates t exclude B \<and> (\<forall>k \<in> candidates t exclude B. key_xor r' t \<le> key_xor k t)"
    by blast+
qed

lemma FindClosest_spec:
  assumes "bucket_ok B" and "key_ok t" and "FindClosest t r B = (ok, r')"
  shows "ok \<longleftrightarrow> known B \<noteq> {}"
    and "candidates t {} B \<noteq> {} \<Longrightarrow>
      r' \<in> known B \<and> (\<forall>k \<in> known B. key_xor r' t \<le> key_xor k t)"
    and "candidates t {} B = {} \<Longrightarrow> r' = r"
proof -
  obtain d r1 where d1: "foldl (closer_of t) (Fill 0xff, r) (map fst (nodes B)) = (d, r1)"
    by (cases "foldl (closer_of t) (Fill 0xff, r) (map fst (nodes B))")
  then have "ok \<longleftrightarrow> Bucket_size B > 0" and "r1 = r'" using assms(3) by (simp_all add: FindClosest_def)
  then show "ok \<longleftrightarrow> known B \<noteq> {}" by (simp add: Bucket_size_def)
  have d: "foldl (closer_of t) (Fill 0xff, r) (map fst (nodes B)) = (d, r')"
    using d1 \<open>r1 = r'\<close> by simp
  have below: "key_xor k t < Fill 0xff \<longleftrightarrow> k \<in> candidates t {} B" if "k \<in> known B" for k
    by (rule candidate_iff [OF assms(1,2) that]) simp
  have sub: "candidates t {} B \<subseteq> known B" by (auto simp: candidates_def)
  consider (none) "r' = r" "\<forall>k \<in> known B. \<not> key_xor k t < Fill 0xff"
    | (some) "r' \<in> known B" "d = key_xor r' t" "d < Fill 0xff" "\<forall>k \<in> known B. d \<le> key_xor k t"
    using closest_fold [OF d] unfolding set_map by blast
  then have "(candidates t {} B \<noteq> {} \<longrightarrow> r' \<in> known B \<and> (\<forall>k \<in> known B. key_xor r' t \<le> key_xor k t)) \<and>
      (candidates t {} B = {} \<longrightarrow> r' = r)"
  proof cases
    case none
    then have "candidates t {} B = {}" using below sub by (meson equals0I subsetD)
    then show ?thesis using none by simp
  next
    case some
    then have "candidates t {} B \<noteq> {}" using below by blast
    then show ?thesis using some by simp
  qed
  then show "candidates t {} B \<noteq> {} \<Longrightarrow> r' \<in> known B \<and> (\<forall>k \<in> known B. key_xor r' t \<le> key_xor k t)"
    and "candidates t {} B = {} \<Longrightarrow> r' = r" by blast+
qed

section \<open>The nearest nodes\<close>

lemma finite_candidates [simp]: "finite (candidates t exclude B)"
  by (simp add: candidates_def)

lemma candidates_insert: "candidates t (insert p s) B = candidates t s B - {p}"
  by (auto simp: candidates_def)

lemma distance_inj:
  assumes "bucket_ok B" "key_ok t" "x \<in> known B" "y \<in> known B" "key_xor x t = key_xor y t"
  shows "x = y"
proof (rule key_xor_inj [of t])
  show "length t = length x" "length t = length y"
    using known_length [OF assms(1)] assms(2-4) by (auto simp: key_ok_def)
  show "key_xor t x = key_xor t y" using assms(5) by (simp only: key_xor_commute [of t])
qed

definition nearest :: "key \<Rightarrow> nat \<Rightarrow> key set \<Rightarrow> key set \<Rightarrow> bool" where
  "nearest t N C S \<longleftrightarrow> S \<subseteq> C \<and> card S = N \<and> (\<forall>x \<in> S. \<forall>y \<in> C - S. key_xor x t < key_xor y t)"

lemma near_loop_spec:
  assumes "bucket_ok B" and "key_ok t"
  shows "near_loop t B N p s R = (ok, R') \<Longrightarrow>
    (ok \<longleftrightarrow> N \<le> card (candidates t s B)) \<and> (ok \<longrightarrow> (\<exists>S. nearest t N (candidates t s B) S \<and> R' = R \<union> S))"
proof (induction N arbitrary: p s R)
  case 0
  then show ?case by (auto simp: nearest_def)
next
  case (Suc N)
  let ?C = "candidates t s B"
  obtain ok1 p' where f: "FindCloseExcluding t p s B = (ok1, p')" by (cases "FindCloseExcluding t p s B")
  note spec = FindCloseExcluding_spec [OF assms f]
  show ?case
  proof (cases ok1)
    case False
    then have "?C = {}" using spec(1) by blast
    then show ?thesis using Suc.prems f False by simp
  next
    case True
    note p = spec(2) [OF True]
    have "near_loop t B N p' (insert p' s) (insert p' R) = (ok, R')"
      using Suc.prems f True by simp
    note ih = Suc.IH [OF this, unfolded candidates_insert]
    have c: "card ?C = Suc (card (?C - {p'}))" using p by (intro card.remove) simp_all
    have "nearest t (Suc N) ?C (insert p' S)" if n: "nearest t N (?C - {p'}) S" for S
    proof -
      have "S \<subseteq> ?C" using n by (auto simp: nearest_def)
      then have "finite S" by (rule finite_subset) simp
      moreover have "key_xor p' t < key_xor y t" if "y \<in> ?C - insert p' S" for y
      proof -
        have "y \<noteq> p'" "y \<in> known B" "p' \<in> known B" using that p by (auto simp: candidates_def)
        then have "key_xor p' t \<noteq> key_xor y t" using distance_inj [OF assms] by metis
        then show ?thesis using p that by (auto simp: less_le)
      qed
      moreover have "p' \<notin> S" using n by (auto simp: nearest_def)
      ultimately show ?thesis using n p by (auto simp: nearest_def)
    qed
    then show ?thesis using ih c by auto
  qed
qed

section \<open>The bucket as a map\<close>

datatype 'v bucket_op = OpPut 'v | OpDel key | OpHas key | OpRemoveIf "key \<Rightarrow> bool" | OpClear

fun bucket_call ::
  "('v \<Rightarrow> key) \<Rightarrow> ('v \<Rightarrow> 'v \<Rightarrow> bool) \<Rightarrow> 'v bucket_op \<Rightarrow> 'v Bucket \<Rightarrow> (bool option \<times> 'v Bucket) result" where
  "bucket_call ID older (OpPut v) B = Inr (None, PutNode ID older v B)"
| "bucket_call ID older (OpDel k) B = Inr (None, DelNode k B)"
| "bucket_call ID older (OpHas k) B = Inr (Some (HasNode k B), B)"
| "bucket_call ID older (OpRemoveIf p) B = Inr (None, Bucket_RemoveIf p B)"
| "bucket_call ID older OpClear B = Inr (None, Bucket_Clear B)"

fun map_call ::
  "('v \<Rightarrow> key) \<Rightarrow> ('v \<Rightarrow> 'v \<Rightarrow> bool) \<Rightarrow> 'v bucket_op \<Rightarrow> (key \<rightharpoonup> 'v) \<Rightarrow> bool option \<times> (key \<rightharpoonup> 'v)" where
  "map_call ID older (OpPut v) m =
     (None, case m (ID v) of None \<Rightarrow> m(ID v \<mapsto> v) | Some w \<Rightarrow> if older w v then m(ID v \<mapsto> v) else m)"
| "map_call ID older (OpDel k) m = (None, m(k := None))"
| "map_call ID older (OpHas k) m = (Some (m k \<noteq> None), m)"
| "map_call ID older (OpRemoveIf p) m = (None, \<lambda>k. if p k then None else m k)"
| "map_call ID older OpClear m = (None, Map.empty)"

fun op_ok :: "('v \<Rightarrow> key) \<Rightarrow> 'v bucket_op \<Rightarrow> bool" where
  "op_ok ID (OpPut v) = key_ok (ID v)"
| "op_ok ID (OpDel k) = key_ok k"
| "op_ok ID (OpHas k) = key_ok k"
| "op_ok ID (OpRemoveIf p) = True"
| "op_ok ID OpClear = True"

definition bucket_rel :: "'v Bucket \<Rightarrow> (key \<rightharpoonup> 'v) \<Rightarrow> bool" where
  "bucket_rel B m \<longleftrightarrow> bucket_ok B \<and> map_of (nodes B) = m"

interpretation bucket_map: simulation "bucket_call ID older" "map_call ID older" bucket_rel "op_ok ID"
  for ID :: "'v \<Rightarrow> key" and older
proof unfold_locales
  fix B :: "'v Bucket" and m op
  assume r: "bucket_rel B m" and ok: "op_ok ID op"
  then have B: "bucket_ok B" and m: "map_of (nodes B) = m" by (simp_all add: bucket_rel_def)
  show "\<exists>B'. bucket_call ID older op B = Inr (fst (map_call ID older op m), B') \<and>
      bucket_rel B' (snd (map_call ID older op m))"
  proof (cases op)
    case (OpPut v)
    then show ?thesis
      using PutNode_ok [OF B] map_of_PutNode [OF B] ok m by (auto simp: bucket_rel_def)
  next
    case (OpDel k)
    then show ?thesis
      using DelNode_ok [OF B] map_of_DelNode [OF B] ok m by (auto simp: bucket_rel_def)
  next
    case (OpHas k)
    then show ?thesis using find_node [OF B] ok m r by (auto simp: HasNode_def)
  next
    case (OpRemoveIf p)
    then show ?thesis
      using RemoveIf_ok [OF B] map_of_RemoveIf [of p B] m by (auto simp: bucket_rel_def)
  next
    case OpClear
    then show ?thesis using B by (simp add: bucket_rel_def Bucket_Clear_def bucket_okI)
  qed
qed

section \<open>Properties\<close>

text \<open>
  Claim C20.  A bucket behaves as a finite map from keys to nodes through every sequence of calls: a
  node is stored when its key is unknown or the stored one is older, whatever the distances are, and
  is found again until it is removed.
\<close>

theorem bucket_refines_map:
  assumes "key_ok k" and "list_all (op_ok ID) ops"
  shows "\<exists>B. run_ops (bucket_call ID older) ops (new_Bucket k) =
      Inr (fst (run_spec (map_call ID older) ops Map.empty), B) \<and>
    bucket_ok B \<and> map_of (nodes B) = snd (run_spec (map_call ID older) ops Map.empty)"
proof -
  have "bucket_rel (new_Bucket k) (Map.empty :: key \<rightharpoonup> 'a)"
    using bucket_ok_new [OF assms(1)] by (simp add: bucket_rel_def new_Bucket_def)
  from bucket_map.run_simulates [OF this assms(2), of older] show ?thesis
    by (simp add: bucket_rel_def)
qed

theorem bucket_refines_map_witness:
  "let k = (\<lambda>n :: byte. n # replicate 31 0); ID = (\<lambda>(n, t). k n); older = (\<lambda>(n, t) (n', t' :: nat). t < t');
     ops = [OpPut (1, 5), OpPut (2, 5), OpPut (1, 3), OpHas (k 1), OpDel (k 1), OpHas (k 1), OpHas (k 2)]
   in \<exists>B. run_ops (bucket_call ID older) ops (new_Bucket (k 9)) =
        Inr (fst (run_spec (map_call ID older) ops Map.empty), B) \<and>
      bucket_ok B \<and> map_of (nodes B) = snd (run_spec (map_call ID older) ops Map.empty)"
  unfolding Let_def by (rule bucket_refines_map) (simp_all add: key_ok_def)

text \<open>
  Claim C21.  \<open>GetManyNearExcluding\<close> succeeds exactly when there are enough admissible nodes, and then
  returns as many as asked for, none of them excluded, each closer to the target than every admissible
  node that is left out.  Not admissible is, besides the excluded nodes, the one at distance
  \<open>ff..ff\<close>.
\<close>

theorem GetManyNearExcluding_nearest:
  assumes "bucket_ok B" and "key_ok t" and "GetManyNearExcluding t {} N exclude B = (ok, R)"
  shows "(ok \<longleftrightarrow> N \<le> card (candidates t exclude B)) \<and> (ok \<longrightarrow> nearest t N (candidates t exclude B) R)"
  using near_loop_spec [OF assms(1,2) assms(3) [unfolded GetManyNearExcluding_def]] by auto

theorem GetManyNearExcluding_nearest_witness:
  "let k = (\<lambda>n :: byte. n # replicate 31 0);
     B = \<lparr>us_key = k 0, nodes = [(k 1, ()), (k 2, ()), (k 4, ()), (k 9, ())]\<rparr>;
     (ok, R) = GetManyNearExcluding (k 3) {} 2 {k 2} B
   in (ok \<longleftrightarrow> 2 \<le> card (candidates (k 3) {k 2} B)) \<and> (ok \<longrightarrow> nearest (k 3) 2 (candidates (k 3) {k 2} B) R)"
proof -
  let ?k = "\<lambda>n :: byte. n # replicate 31 0"
  let ?B = "\<lparr>us_key = ?k 0, nodes = [(?k 1, ()), (?k 2, ()), (?k 4, ()), (?k 9, ())]\<rparr>"
  have "bucket_ok ?B"
    unfolding bucket_ok_def metric.ok_def by (simp add: key_ok_def XorMetric_def)
  then show ?thesis
    using GetManyNearExcluding_nearest [of ?B "?k 3" 2 "{?k 2}"]
    by (simp add: key_ok_def Let_def split: prod.splits)
qed

text \<open>
  \<open>std::set_difference\<close> needs both ranges sorted by its comparator, but the bucket is sorted by
  distance and the excluded set by key.  When the two orders differ an excluded node can be returned.
\<close>

lemma GetRandomNodeExcluding_excluded:
  "let k = (\<lambda>n :: byte. n # replicate 31 0);
     B = PutNode id (\<lambda>_ _. False) (k 1) (PutNode id (\<lambda>_ _. False) (k 2) (new_Bucket (Fill 255)))
   in GetRandomNodeExcluding 1 {k 1} B = Some (k 1)"
  by code_simp

text \<open>A bucket whose only node is at the greatest distance reports success and leaves the result alone.\<close>

lemma FindClosest_unset:
  "let B = PutNode id (\<lambda>_ _. False) (Fill 255) (new_Bucket zero_key)
   in FindClosest zero_key r B = (True, r)"
  by code_simp

end
