(* ===== verification/Tagged_Codec.thy ===== *)
theory Tagged_Codec
  imports Dict_Codec
begin

text \<open>
  Messages that say in their first entry what class they are of.  A parser reads the tag, makes a fresh
  object of the class and hands the rest of the dictionary to its \<open>DecodeKey\<close>.  The DHT, the routing
  layer and the link layer have such a parser each; what they share is here.
\<close>

section \<open>Handing the rest to a class\<close>

lemma decodes_lift:
  assumes "decodes D s es s'"
    and "\<And>s s1 k b b'. D s k b = Inr (True, s1, b') \<Longrightarrow> D' (f s) k b = Inr (True, f s1, b')"
  shows "decodes D' (f s) es (f s')"
  using assms(1)
proof (induction es arbitrary: s)
  case Nil
  then show ?case by (simp add: decodes.simps)
next
  case (Cons e es)
  obtain k bs where e: "e = (k, bs)" by (cases e)
  then obtain s1 where "\<And>b. at b bs \<Longrightarrow> D s (mk_buf [k]) b = Inr (True, s1, advance (length bs) b)"
    "decodes D s1 es s'" using Cons.prems by (auto simp: decodes.simps)
  then show ?case using Cons.IH assms(2) e by (auto intro!: decodes_Cons [where ?s1.0 = "f s1"])
qed

text \<open>
  The first key of a dictionary has to be \<open>k\<close> and its value a string of one byte, which is passed on.
\<close>

definition read_tag :: "byte list \<Rightarrow> buf \<Rightarrow> buf \<Rightarrow> (byte option \<times> buf) result" where
  "read_tag k key b =
     (if \<not> startswith key k then Inr (None, b)
      else bindE (bencode_read_string b) (\<lambda>(r, b'). case r of
          None \<Rightarrow> Inr (None, b')
        | Some strbuf \<Rightarrow> if sz strbuf \<noteq> 1 then Inr (None, b') else Inr (Some (mem strbuf ! 0), b')))"

lemma read_tag_at:
  assumes "at b (wire_bytestring [t])"
  shows "read_tag [k] (mk_buf [k]) b = Inr (Some t, advance (length (wire_bytestring [t])) b)"
  using bencode_read_string_at [OF assms] by (simp add: read_tag_def str_ok_def)

section \<open>The contract of a tagged class\<close>

text \<open>
  \<open>s0\<close> is the object the parser starts from and \<open>received x\<close> what arrives when \<open>x\<close> was sent: members that
  are not on the wire have the value of \<open>s0\<close>.
\<close>

locale tagged_codec =
  fixes enc :: "'m \<Rightarrow> writer"
    and D :: "'m \<Rightarrow> buf \<Rightarrow> buf \<Rightarrow> (bool \<times> 'm \<times> buf) result"
    and s0 :: 'm
    and tagkey tag :: byte
    and entries :: "'m \<Rightarrow> (byte \<times> byte list) list"
    and valid :: "'m \<Rightarrow> bool"
    and received :: "'m \<Rightarrow> 'm"
  assumes enc_writes: "valid x \<Longrightarrow> writes (enc x) (wire_msg ((tagkey, wire_bytestring [tag]) # entries x))"
    and key_decodes: "valid x \<Longrightarrow> decodes D s0 (entries x) (received x)"
begin

abbreviation tagged_wire :: "'m \<Rightarrow> byte list" where
  "tagged_wire x \<equiv> wire_msg ((tagkey, wire_bytestring [tag]) # entries x)"

lemma dispatch_at:
  assumes "valid x" and "at b (tagged_wire x)"
    and first: "\<And>b. at b (wire_bytestring [tag]) \<Longrightarrow>
      sink i b (Some (mk_buf [tagkey])) = Inr (True, f s0, advance (length (wire_bytestring [tag])) b)"
    and rest: "\<And>s s1 k b b'. D s k b = Inr (True, s1, b') \<Longrightarrow> sink (f s) b (Some k) = Inr (True, f s1, b')"
  shows "bencode_read_dict sink i b = sink (f (received x)) (advance (length (tagged_wire x)) b) None"
proof (rule decodes_read_dict [OF _ assms(2)])
  have "decodes (\<lambda>s k b. sink s b (Some k)) (f s0) (entries x) (f (received x))"
    by (rule decodes_lift [OF key_decodes [OF assms(1)]]) (rule rest)
  then show "decodes (\<lambda>s k b. sink s b (Some k)) i ((tagkey, wire_bytestring [tag]) # entries x) (f (received x))"
    by (rule decodes_Cons [rotated]) (rule first)
qed

lemma tagged_wrote: "valid x \<Longrightarrow> buf_ok b \<Longrightarrow> enc x b = (True, b') \<Longrightarrow> wrote (tagged_wire x) b b'"
  using writesD(1) enc_writes by blast

lemma tagged_fits: "valid x \<Longrightarrow> buf_ok b \<Longrightarrow> length (tagged_wire x) \<le> size_left b \<Longrightarrow> \<exists>b'. enc x b = (True, b')"
  using writesD(2) enc_writes by blast

end

end
