(* ===== verification/Dht_Messages.thy ===== *)
theory Dht_Messages
  imports Tagged_Codec Router_Contact_Facts
begin

text \<open>
  The messages of the DHT (\<open>llarp/dht/messages\<close>) and the decoder that tells them apart
  (\<open>llarp/dht/message.cpp\<close>).  The two messages about names are written by \<open>oxenc::bt_serialize\<close>, which
  is a parameter.
\<close>

section \<open>Messages\<close>

type_synonym pathid = "byte list"

definition zero_pathid :: pathid where
  "zero_pathid = replicate 16 0"

record IMessage =
  msg_From :: key
  msg_pathID :: pathid
  msg_version :: u64

record FindRouterMessage = IMessage +
  fr_targetKey :: key
  fr_iterative :: bool
  fr_exploritory :: bool
  fr_txid :: u64
  fr_version :: u64

record 'srv GotRouterMessage = IMessage +
  gr_foundRCs :: "'srv RouterContact list"
  gr_nearKeys :: "key list"
  gr_closerTarget :: "key option"
  gr_txid :: u64
  gr_relayed :: bool

record FindIntroMessage = IMessage +
  fi_location :: key
  fi_tagName :: "byte list"
  fi_txID :: u64
  fi_relayed :: bool
  fi_relayOrder :: u64

record GotIntroMessage = IMessage +
  gi_found :: "EncryptedIntroSet list"
  gi_txid :: u64
  gi_closer :: "key option"

record PublishIntroMessage = IMessage +
  pi_introset :: EncryptedIntroSet
  pi_relayed :: bool
  pi_relayOrder :: u64
  pi_txID :: u64

record FindNameMessage = IMessage +
  fn_NameHash :: key
  fn_TxID :: u64

record GotNameMessage = IMessage +
  gn_nonce :: "byte list"
  gn_ciphertext :: "byte list"
  gn_TxID :: u64

datatype 'srv dht_message =
    FindNameMsg FindNameMessage
  | GotNameMsg GotNameMessage
  | FindIntroMsg FindIntroMessage
  | RelayedFindRouterMsg FindRouterMessage
  | FindRouterMsg FindRouterMessage
  | GotRouterMsg "'srv GotRouterMessage"
  | PublishIntroMsg PublishIntroMessage
  | RelayedGotIntroMsg GotIntroMessage
  | GotIntroMsg GotIntroMessage

text \<open>The constructors the decoder uses.\<close>

definition new_FindRouterMessage :: "key \<Rightarrow> FindRouterMessage" where
  "new_FindRouterMessage from = \<lparr>msg_From = from, msg_pathID = zero_pathid, msg_version = proto_version,
     fr_targetKey = zero_key, fr_iterative = False, fr_exploritory = False, fr_txid = 0, fr_version = 0\<rparr>"

definition new_GotRouterMessage :: "key \<Rightarrow> bool \<Rightarrow> 'srv GotRouterMessage" where
  "new_GotRouterMessage from tunneled = \<lparr>msg_From = from, msg_pathID = zero_pathid, msg_version = proto_version,
     gr_foundRCs = [], gr_nearKeys = [], gr_closerTarget = None, gr_txid = 0, gr_relayed = tunneled\<rparr>"

definition new_FindIntroMessage :: "key \<Rightarrow> bool \<Rightarrow> u64 \<Rightarrow> FindIntroMessage" where
  "new_FindIntroMessage from relay order = \<lparr>msg_From = from, msg_pathID = zero_pathid, msg_version = proto_version,
     fi_location = zero_key, fi_tagName = replicate 16 0, fi_txID = 0, fi_relayed = relay, fi_relayOrder = order\<rparr>"

definition new_GotIntroMessage :: "key \<Rightarrow> GotIntroMessage" where
  "new_GotIntroMessage from = \<lparr>msg_From = from, msg_pathID = zero_pathid, msg_version = proto_version,
     gi_found = [], gi_txid = 0, gi_closer = None\<rparr>"

definition new_PublishIntroMessage :: "key \<Rightarrow> bool \<Rightarrow> PublishIntroMessage" where
  "new_PublishIntroMessage from relayed = \<lparr>msg_From = from, msg_pathID = zero_pathid, msg_version = proto_version,
     pi_introset = new_EncryptedIntroSet, pi_relayed = relayed, pi_relayOrder = 0, pi_txID = 0\<rparr>"

definition new_FindNameMessage :: "key \<Rightarrow> key \<Rightarrow> u64 \<Rightarrow> FindNameMessage" where
  "new_FindNameMessage from namehash txid = \<lparr>msg_From = from, msg_pathID = zero_pathid, msg_version = proto_version,
     fn_NameHash = namehash, fn_TxID = txid\<rparr>"

definition NameSizeLimit :: nat where
  "NameSizeLimit = 128"

text \<open>This constructor throws when the data are too long; the decoder calls it with no data.\<close>

definition new_GotNameMessage :: "key \<Rightarrow> u64 \<Rightarrow> byte list \<Rightarrow> byte list \<Rightarrow> GotNameMessage result" where
  "new_GotNameMessage from txid nonce ciphertext =
     (if length ciphertext > NameSizeLimit then Inl (Cxx_Throw ''name data too big'')
      else Inr \<lparr>msg_From = from, msg_pathID = zero_pathid, msg_version = proto_version,
        gn_nonce = nonce, gn_ciphertext = ciphertext, gn_TxID = txid\<rparr>)"

section \<open>Encoding\<close>

definition FindRouterMessage_BEncode :: "FindRouterMessage \<Rightarrow> writer" where
  "FindRouterMessage_BEncode m = write_msg
     [write_entry 65 (bencode_write_bytestring [82]),
      write_entry 69 (bencode_write_uint64 (if fr_exploritory m then 1 else 0)),
      write_entry 73 (bencode_write_uint64 (if fr_iterative m then 1 else 0)),
      write_entry 75 (bencode_write_bytestring (fr_targetKey m)),
      write_entry 84 (bencode_write_uint64 (fr_txid m)),
      write_entry 86 (bencode_write_uint64 (fr_version m))]"

definition GotRouterMessage_BEncode :: "'srv rc_env \<Rightarrow> 'srv GotRouterMessage \<Rightarrow> writer" where
  "GotRouterMessage_BEncode env m = write_msg
     ([BEncodeWriteDictMsgType 65 83]
      @ (case gr_closerTarget m of None \<Rightarrow> [] | Some k \<Rightarrow> [BEncodeWriteDictEntry 75 (aligned_BEncode k)])
      @ (if gr_nearKeys m \<noteq> [] then [BEncodeWriteDictList 78 aligned_BEncode (gr_nearKeys m)] else [])
      @ [BEncodeWriteDictList 82 (RouterContact_BEncode env) (gr_foundRCs m),
         BEncodeWriteDictInt 84 (gr_txid m),
         BEncodeWriteDictInt 86 (msg_version m)])"

text \<open>A tag is empty when its first byte is zero.\<close>

definition Tag_Empty :: "byte list \<Rightarrow> bool" where
  "Tag_Empty t \<longleftrightarrow> t ! 0 = 0"

definition FindIntroMessage_BEncode :: "FindIntroMessage \<Rightarrow> writer" where
  "FindIntroMessage_BEncode m = write_msg
     ([BEncodeWriteDictMsgType 65 70]
      @ (if Tag_Empty (fi_tagName m)
         then [BEncodeWriteDictInt 79 (fi_relayOrder m), BEncodeWriteDictEntry 83 (aligned_BEncode (fi_location m))]
         else [BEncodeWriteDictEntry 78 (aligned_BEncode (fi_tagName m)), BEncodeWriteDictInt 79 (fi_relayOrder m)])
      @ [BEncodeWriteDictInt 84 (fi_txID m), BEncodeWriteDictInt 86 proto_version])"

definition GotIntroMessage_BEncode :: "GotIntroMessage \<Rightarrow> writer" where
  "GotIntroMessage_BEncode m = write_msg
     ([BEncodeWriteDictMsgType 65 71, BEncodeWriteDictList 73 EncryptedIntroSet_BEncode (gi_found m)]
      @ (case gi_closer m of None \<Rightarrow> [] | Some k \<Rightarrow> [BEncodeWriteDictEntry 75 (aligned_BEncode k)])
      @ [BEncodeWriteDictInt 84 (gi_txid m), BEncodeWriteDictInt 86 (msg_version m)])"

definition PublishIntroMessage_BEncode :: "PublishIntroMessage \<Rightarrow> writer" where
  "PublishIntroMessage_BEncode m = write_msg
     [BEncodeWriteDictMsgType 65 73,
      BEncodeWriteDictEntry 73 (EncryptedIntroSet_BEncode (pi_introset m)),
      BEncodeWriteDictInt 79 (pi_relayOrder m),
      BEncodeWriteDictInt 82 (if pi_relayed m then 1 else 0),
      BEncodeWriteDictInt 84 (pi_txID m),
      BEncodeWriteDictInt 86 proto_version]"

text \<open>The values of \<open>oxenc::bt_dict\<close> that occur, and the dictionary given in the order of its keys.\<close>

datatype bt_value = Bt_String "byte list" | Bt_Int u64

type_synonym bt_serializer = "(byte \<times> bt_value) list \<Rightarrow> byte list"

definition FindNameMessage_BEncode :: "bt_serializer \<Rightarrow> FindNameMessage \<Rightarrow> writer" where
  "FindNameMessage_BEncode bt_serialize m =
     buf_write (bt_serialize [(65, Bt_String [78]), (72, Bt_String (fn_NameHash m)), (84, Bt_Int (fn_TxID m))])"

definition GotNameMessage_BEncode :: "bt_serializer \<Rightarrow> GotNameMessage \<Rightarrow> writer" where
  "GotNameMessage_BEncode bt_serialize m =
     buf_write (bt_serialize [(65, Bt_String [77]), (68, Bt_String (gn_ciphertext m)),
       (78, Bt_String (gn_nonce m)), (84, Bt_Int (gn_TxID m))])"

fun dht_BEncode :: "'srv rc_env \<Rightarrow> bt_serializer \<Rightarrow> 'srv dht_message \<Rightarrow> writer" where
  "dht_BEncode env ser (FindNameMsg m) = FindNameMessage_BEncode ser m"
| "dht_BEncode env ser (GotNameMsg m) = GotNameMessage_BEncode ser m"
| "dht_BEncode env ser (FindIntroMsg m) = FindIntroMessage_BEncode m"
| "dht_BEncode env ser (RelayedFindRouterMsg m) = FindRouterMessage_BEncode m"
| "dht_BEncode env ser (FindRouterMsg m) = FindRouterMessage_BEncode m"
| "dht_BEncode env ser (GotRouterMsg m) = GotRouterMessage_BEncode env m"
| "dht_BEncode env ser (PublishIntroMsg m) = PublishIntroMessage_BEncode m"
| "dht_BEncode env ser (RelayedGotIntroMsg m) = GotIntroMessage_BEncode m"
| "dht_BEncode env ser (GotIntroMsg m) = GotIntroMessage_BEncode m"

section \<open>Decoding\<close>

definition FindRouterMessage_DecodeKey ::
  "FindRouterMessage \<Rightarrow> buf \<Rightarrow> buf \<Rightarrow> (bool \<times> FindRouterMessage \<times> buf) result" where
  "FindRouterMessage_DecodeKey = decode_key
     [Return_On [69] (int_value (\<lambda>s v. s\<lparr>fr_exploritory := v \<noteq> 0\<rparr>)),
      Return_On [73] (int_value (\<lambda>s v. s\<lparr>fr_iterative := v \<noteq> 0\<rparr>)),
      Return_On [75] (string_value (\<lambda>str. length str = 32) (\<lambda>s str. s\<lparr>fr_targetKey := str\<rparr>)),
      Return_On [84] (int_value (\<lambda>s v. s\<lparr>fr_txid := v\<rparr>)),
      Return_On [86] (int_value (\<lambda>s v. s\<lparr>fr_version := v\<rparr>))] return_false"

definition GotRouterMessage_DecodeKey ::
  "'srv rc_env \<Rightarrow> NetID \<Rightarrow> 'srv GotRouterMessage \<Rightarrow> buf \<Rightarrow> buf \<Rightarrow> (bool \<times> 'srv GotRouterMessage \<times> buf) result" where
  "GotRouterMessage_DecodeKey env netid = decode_key
     [Return_On [75] (\<lambda>s b.
        if gr_closerTarget s \<noteq> None then Inr (False, s, b)
        else item_value (aligned_BDecode 32) (\<lambda>s k. s\<lparr>gr_closerTarget := Some k\<rparr>)
          (s\<lparr>gr_closerTarget := Some zero_key\<rparr>) b),
      Return_On [78] (list_value (aligned_BDecode 32) gr_nearKeys (\<lambda>s ks. s\<lparr>gr_nearKeys := ks\<rparr>)),
      Return_On [82] (list_value (RouterContact_BDecode env (new_RouterContact netid)) gr_foundRCs
        (\<lambda>s rcs. s\<lparr>gr_foundRCs := rcs\<rparr>)),
      Return_On [84] (int_value (\<lambda>s v. s\<lparr>gr_txid := v\<rparr>)),
      Field (field_version [86] proto_version msg_version (\<lambda>v. msg_version_update (\<lambda>_. v)))] return_read"

definition FindIntroMessage_DecodeKey ::
  "FindIntroMessage \<Rightarrow> buf \<Rightarrow> buf \<Rightarrow> (bool \<times> FindIntroMessage \<times> buf) result" where
  "FindIntroMessage_DecodeKey = decode_key
     [Field (field_entry [78] (aligned_BDecode 16) fi_tagName (\<lambda>v. fi_tagName_update (\<lambda>_. v))),
      Field (field_int [79] id fi_relayOrder (\<lambda>v. fi_relayOrder_update (\<lambda>_. v))),
      Field (field_entry [83] (aligned_BDecode 32) fi_location (\<lambda>v. fi_location_update (\<lambda>_. v))),
      Field (field_int [84] id fi_txID (\<lambda>v. fi_txID_update (\<lambda>_. v))),
      Field (field_version [86] proto_version msg_version (\<lambda>v. msg_version_update (\<lambda>_. v)))] return_read"

definition GotIntroMessage_DecodeKey ::
  "GotIntroMessage \<Rightarrow> buf \<Rightarrow> buf \<Rightarrow> (bool \<times> GotIntroMessage \<times> buf) result" where
  "GotIntroMessage_DecodeKey = decode_key
     [Return_On [73] (list_value EncryptedIntroSet_BDecode gi_found (\<lambda>s l. s\<lparr>gi_found := l\<rparr>)),
      Return_On [75] (\<lambda>s b.
        if gi_closer s \<noteq> None then Inr (False, s, b)
        else item_value (aligned_BDecode 32) (\<lambda>s k. s\<lparr>gi_closer := Some k\<rparr>) s b),
      Field (field_int [84] id gi_txid (\<lambda>v. gi_txid_update (\<lambda>_. v))),
      Field (field_int [86] id msg_version (\<lambda>v. msg_version_update (\<lambda>_. v)))] return_read"

text \<open>
  The early returns of the source are left out here: a key that one attempt has read does not match a
  later one.  \<open>relayed\<close> is read through an integer.
\<close>

definition PublishIntroMessage_DecodeKey ::
  "PublishIntroMessage \<Rightarrow> buf \<Rightarrow> buf \<Rightarrow> (bool \<times> PublishIntroMessage \<times> buf) result" where
  "PublishIntroMessage_DecodeKey = decode_key
     [Field (field_entry [73] EncryptedIntroSet_BDecode pi_introset (\<lambda>v. pi_introset_update (\<lambda>_. v))),
      Field (field_int [79] id pi_relayOrder (\<lambda>v. pi_relayOrder_update (\<lambda>_. v))),
      Field (field_int [82] id (\<lambda>s. if pi_relayed s then 1 else 0) (\<lambda>v. pi_relayed_update (\<lambda>_. v \<noteq> 0))),
      Field (field_int [84] id pi_txID (\<lambda>v. pi_txID_update (\<lambda>_. v))),
      Field (field_int [86] id msg_version (\<lambda>v. msg_version_update (\<lambda>_. v)))] return_read"

definition FindNameMessage_DecodeKey ::
  "FindNameMessage \<Rightarrow> buf \<Rightarrow> buf \<Rightarrow> (bool \<times> FindNameMessage \<times> buf) result" where
  "FindNameMessage_DecodeKey = decode_key
     [Return_On [72] (item_value (aligned_BDecode 32) (\<lambda>s k. s\<lparr>fn_NameHash := k\<rparr>)),
      Return_On [84] (int_value (\<lambda>s v. s\<lparr>fn_TxID := v\<rparr>))] read_or_discard"

definition GotNameMessage_DecodeKey ::
  "GotNameMessage \<Rightarrow> buf \<Rightarrow> buf \<Rightarrow> (bool \<times> GotNameMessage \<times> buf) result" where
  "GotNameMessage_DecodeKey = decode_key
     [Return_On [68] (string_value (\<lambda>str. \<not> length str > NameSizeLimit) (\<lambda>s str. s\<lparr>gn_ciphertext := str\<rparr>)),
      Return_On [78] (string_value (\<lambda>str. length str = 24) (\<lambda>s str. s\<lparr>gn_nonce := str\<rparr>)),
      Return_On [84] (int_value (\<lambda>s v. s\<lparr>gn_TxID := v\<rparr>))] read_or_discard"

text \<open>The virtual \<open>DecodeKey\<close>.\<close>

definition into :: "('m \<Rightarrow> 'c) \<Rightarrow> (bool \<times> 'm \<times> buf) result \<Rightarrow> (bool \<times> 'c \<times> buf) result" where
  "into c r = bindE r (\<lambda>(ok, m, b). Inr (ok, c m, b))"

fun dht_DecodeKey ::
  "'srv rc_env \<Rightarrow> NetID \<Rightarrow> 'srv dht_message \<Rightarrow> buf \<Rightarrow> buf \<Rightarrow> (bool \<times> 'srv dht_message \<times> buf) result" where
  "dht_DecodeKey env netid (FindNameMsg m) k b = into FindNameMsg (FindNameMessage_DecodeKey m k b)"
| "dht_DecodeKey env netid (GotNameMsg m) k b = into GotNameMsg (GotNameMessage_DecodeKey m k b)"
| "dht_DecodeKey env netid (FindIntroMsg m) k b = into FindIntroMsg (FindIntroMessage_DecodeKey m k b)"
| "dht_DecodeKey env netid (RelayedFindRouterMsg m) k b = into RelayedFindRouterMsg (FindRouterMessage_DecodeKey m k b)"
| "dht_DecodeKey env netid (FindRouterMsg m) k b = into FindRouterMsg (FindRouterMessage_DecodeKey m k b)"
| "dht_DecodeKey env netid (GotRouterMsg m) k b = into GotRouterMsg (GotRouterMessage_DecodeKey env netid m k b)"
| "dht_DecodeKey env netid (PublishIntroMsg m) k b = into PublishIntroMsg (PublishIntroMessage_DecodeKey m k b)"
| "dht_DecodeKey env netid (RelayedGotIntroMsg m) k b = into RelayedGotIntroMsg (GotIntroMessage_DecodeKey m k b)"
| "dht_DecodeKey env netid (GotIntroMsg m) k b = into GotIntroMsg (GotIntroMessage_DecodeKey m k b)"

text \<open>\<open>MessageDecoder\<close>: the object is made when the first key is read.\<close>

definition message_of_tag :: "key \<Rightarrow> bool \<Rightarrow> byte \<Rightarrow> 'srv dht_message option result" where
  "message_of_tag from relayed c =
     (if c = 78 then Inr (Some (FindNameMsg (new_FindNameMessage from zero_key 0)))
      else if c = 77 then
        bindE (new_GotNameMessage from 0 (replicate 24 0) []) (\<lambda>m. Inr (Some (GotNameMsg m)))
      else if c = 70 then Inr (Some (FindIntroMsg (new_FindIntroMessage from relayed 0)))
      else if c = 82 then
        (if relayed then Inr (Some (RelayedFindRouterMsg (new_FindRouterMessage from)))
         else Inr (Some (FindRouterMsg (new_FindRouterMessage from))))
      else if c = 83 then Inr (Some (GotRouterMsg (new_GotRouterMessage from relayed)))
      else if c = 73 then Inr (Some (PublishIntroMsg (new_PublishIntroMessage from relayed)))
      else if c = 71 then
        (if relayed then Inr (Some (RelayedGotIntroMsg (new_GotIntroMessage zero_key)))
         else Inr (Some (GotIntroMsg (new_GotIntroMessage from))))
      else Inr None)"

definition MessageDecoder ::
  "'srv rc_env \<Rightarrow> NetID \<Rightarrow> key \<Rightarrow> bool \<Rightarrow> ('srv dht_message option) dict_sink" where
  "MessageDecoder env netid from relayed = (\<lambda>msg b key.
     case key of
       None \<Rightarrow> Inr (msg \<noteq> None, msg, b)
     | Some k \<Rightarrow>
         (case msg of
            None \<Rightarrow>
              bindE (read_tag [65] k b) (\<lambda>(t, b'). case t of
                  None \<Rightarrow> Inr (False, None, b')
                | Some c \<Rightarrow> bindE (message_of_tag from relayed c) (\<lambda>m. Inr (m \<noteq> None, m, b')))
          | Some m \<Rightarrow> into Some (dht_DecodeKey env netid m k b)))"

definition DecodeMesssage ::
  "'srv rc_env \<Rightarrow> NetID \<Rightarrow> key \<Rightarrow> bool \<Rightarrow> buf \<Rightarrow> ('srv dht_message option \<times> buf) result" where
  "DecodeMesssage env netid from relayed b =
     bindE (bencode_read_dict (MessageDecoder env netid from relayed) None b)
       (\<lambda>(ok, msg, b'). Inr (if ok then msg else None, b'))"

definition DecodeMesssageList ::
  "'srv rc_env \<Rightarrow> NetID \<Rightarrow> key \<Rightarrow> bool \<Rightarrow> 'srv dht_message list \<Rightarrow> buf
     \<Rightarrow> (bool \<times> 'srv dht_message list \<times> buf) result" where
  "DecodeMesssageList env netid from relayed l b =
     bencode_read_list (\<lambda>l b has.
       if \<not> has then Inr (True, l, b)
       else bindE (DecodeMesssage env netid from relayed b) (\<lambda>(msg, b').
         case msg of None \<Rightarrow> Inr (False, l, b') | Some m \<Rightarrow> Inr (True, l @ [m], b'))) l b"

end
