(* ===== verification/Rc_Lookup.thy ===== *)
theory Rc_Lookup
  imports Node_DB_Facts Dht_Bucket Dht_Messages
begin

text \<open>
  \<open>llarp::RCLookupHandler\<close> (\<open>llarp/router/rc_lookup_handler.cpp\<close>): which routers may be talked to, what is
  done with a contact that was received, and who waits for which contact.  It works on the node
  database and on the buckets of the DHT, so the part of the state that the DHT and the handler share is
  declared here.  Messages that are sent and callbacks that are called are recorded in \<open>events\<close>, in
  order; a callback is a number.  The event loop runs a job that is queued from its own thread at once.
\<close>

section \<open>State\<close>

type_synonym callback = nat

datatype RCRequestResult = RC_Success | RC_InvalidRouter | RC_RouterNotFound | RC_BadRC

record 'srv RCLookupHandler =
  strictConnectPubkeys :: "key set"
  bootstrapRCList :: "'srv RouterContact list"
  useWhitelist :: bool
  isServiceNode :: bool
  whitelistRouters :: "key list"
  greylistRouters :: "key list"
  greenlistRouters :: "key list"
  pendingCallbacks :: "(key \<times> callback list) list"
  routerLookupTimes :: "(key \<times> llarp_time_t) list"

datatype 'srv dht_event =
    Sent_To key "'srv dht_message"
  | Sent_On_Path pathid "'srv dht_message"
  | Callback callback key "'srv RouterContact option" RCRequestResult
  | Intro_Callback callback "EncryptedIntroSet list"
  | Gossip "'srv RouterContact"
  | To_Pathset pathid "'srv dht_message"
  | Anonymous_Lookup key
  | Queued_CheckRC "'srv RouterContact"

record 'srv dht_world =
  rclookup :: "'srv RCLookupHandler"
  nodedb :: "'srv NodeDB"
  dht_nodes :: "'srv RouterContact Bucket"
  dht_services :: "EncryptedIntroSet Bucket"
  ids :: u64
  clock :: llarp_time_t
  events :: "'srv dht_event list"

text \<open>
  What stays fixed while messages are handled.  The paths (\<open>path/path_context.cpp\<close>), the profiles of the
  routers (\<open>profiling.cpp\<close>) and the endpoints of hidden services appear as the answers they give:
  \<open>cfg_path\<close> is \<open>GetByUpstream\<close> of a path that ends here, \<open>cfg_pathset\<close> is \<open>GetLocalPathSet\<close> together with
  what its handler returns, \<open>cfg_bad\<close> is \<open>IsBadForConnect\<close>, \<open>cfg_anon\<close> says that an endpoint took over a
  lookup.  \<open>cfg_random\<close> is the random target of an exploration.
\<close>

record 'srv dht_config =
  cfg_env :: "'srv rc_env"
  cfg_bogons :: bool
  cfg_netid :: NetID
  cfg_verify :: "key \<Rightarrow> byte list \<Rightarrow> byte list \<Rightarrow> bool"
  ourKey :: key
  our_rc :: "'srv RouterContact"
  allowTransit :: bool
  cfg_path :: "pathid \<Rightarrow> bool"
  cfg_pathset :: "pathid \<Rightarrow> bool option"
  cfg_bad :: "key \<Rightarrow> bool"
  cfg_anon :: "key \<Rightarrow> bool"
  cfg_random :: "u64 \<Rightarrow> key"

definition new_RCLookupHandler :: "'srv RCLookupHandler" where
  "new_RCLookupHandler = \<lparr>strictConnectPubkeys = {}, bootstrapRCList = [], useWhitelist = False, isServiceNode = False,
     whitelistRouters = [], greylistRouters = [], greenlistRouters = [], pendingCallbacks = [], routerLookupTimes = []\<rparr>"

definition RCLookupHandler_Init ::
  "key set \<Rightarrow> 'srv RouterContact list \<Rightarrow> bool \<Rightarrow> bool \<Rightarrow> 'srv RCLookupHandler \<Rightarrow> 'srv RCLookupHandler" where
  "RCLookupHandler_Init strict bootstrap useWhitelist_arg isServiceNode_arg h =
     h\<lparr>strictConnectPubkeys := strict, bootstrapRCList := bootstrap, useWhitelist := useWhitelist_arg,
       isServiceNode := isServiceNode_arg\<rparr>"

definition emit :: "'srv dht_event \<Rightarrow> 'srv dht_world \<Rightarrow> 'srv dht_world" where
  "emit e w = w\<lparr>events := events w @ [e]\<rparr>"

section \<open>Which routers are allowed\<close>

definition AddValidRouter :: "key \<Rightarrow> 'srv RCLookupHandler \<Rightarrow> 'srv RCLookupHandler" where
  "AddValidRouter router h = h\<lparr>whitelistRouters := List.insert router (whitelistRouters h)\<rparr>"

definition RemoveValidRouter :: "key \<Rightarrow> 'srv RCLookupHandler \<Rightarrow> 'srv RCLookupHandler" where
  "RemoveValidRouter router h = h\<lparr>whitelistRouters := removeAll router (whitelistRouters h)\<rparr>"

definition loadColourList :: "key list \<Rightarrow> key list" where
  "loadColourList new_beige = remdups new_beige"

definition SetRouterWhitelist :: "key list \<Rightarrow> key list \<Rightarrow> key list \<Rightarrow> 'srv RCLookupHandler \<Rightarrow> 'srv RCLookupHandler" where
  "SetRouterWhitelist whitelist greylist greenlist h =
     (if whitelist = [] then h
      else h\<lparr>whitelistRouters := loadColourList whitelist, greylistRouters := loadColourList greylist,
             greenlistRouters := loadColourList greenlist\<rparr>)"

definition HaveReceivedWhitelist :: "'srv RCLookupHandler \<Rightarrow> bool" where
  "HaveReceivedWhitelist h \<longleftrightarrow> whitelistRouters h \<noteq> []"

definition RemoteInBootstrap :: "key \<Rightarrow> 'srv RCLookupHandler \<Rightarrow> bool" where
  "RemoteInBootstrap remote h \<longleftrightarrow> list_ex (\<lambda>rc. rc_pubkey rc = remote) (bootstrapRCList h)"

definition not_strict :: "key \<Rightarrow> 'srv RCLookupHandler \<Rightarrow> bool" where
  "not_strict remote h \<longleftrightarrow>
     strictConnectPubkeys h \<noteq> {} \<and> remote \<notin> strictConnectPubkeys h \<and> \<not> RemoteInBootstrap remote h"

definition IsGreylisted :: "key \<Rightarrow> 'srv RCLookupHandler \<Rightarrow> bool" where
  "IsGreylisted remote h =
     (if not_strict remote h then False
      else if \<not> useWhitelist h then False
      else remote \<in> set (greylistRouters h))"

definition IsGreenlisted :: "key \<Rightarrow> 'srv RCLookupHandler \<Rightarrow> bool" where
  "IsGreenlisted remote h \<longleftrightarrow> remote \<in> set (greenlistRouters h)"

definition IsRegistered :: "key \<Rightarrow> 'srv RCLookupHandler \<Rightarrow> bool" where
  "IsRegistered remote h \<longleftrightarrow>
     remote \<in> set (whitelistRouters h) \<or> remote \<in> set (greylistRouters h) \<or> remote \<in> set (greenlistRouters h)"

definition PathIsAllowed :: "key \<Rightarrow> 'srv RCLookupHandler \<Rightarrow> bool" where
  "PathIsAllowed remote h =
     (if not_strict remote h then False
      else if \<not> useWhitelist h then True
      else remote \<in> set (whitelistRouters h))"

definition SessionIsAllowed :: "key \<Rightarrow> 'srv RCLookupHandler \<Rightarrow> bool" where
  "SessionIsAllowed remote h =
     (if not_strict remote h then False
      else if \<not> useWhitelist h then True
      else remote \<in> set (whitelistRouters h) \<or> remote \<in> set (greylistRouters h))"

definition GetRandomWhitelistRouter :: "u64 \<Rightarrow> 'srv RCLookupHandler \<Rightarrow> key option" where
  "GetRandomWhitelistRouter randint h =
     (let len = length (whitelistRouters h)
      in if len = 0 then None
         else if len > 1 then Some (whitelistRouters h ! (unat randint mod len))
         else Some (whitelistRouters h ! 0))"

section \<open>Contacts that arrive\<close>

definition PutRCNode :: "'srv RouterContact \<Rightarrow> 'srv dht_world \<Rightarrow> 'srv dht_world" where
  "PutRCNode rc w = w\<lparr>dht_nodes := PutNode rc_pubkey RouterContact_OtherIsNewer rc (dht_nodes w)\<rparr>"

definition DelRCNode :: "key \<Rightarrow> 'srv dht_world \<Rightarrow> 'srv dht_world" where
  "DelRCNode k w = w\<lparr>dht_nodes := DelNode k (dht_nodes w)\<rparr>"

definition CheckRC :: "'srv dht_config \<Rightarrow> 'srv RouterContact \<Rightarrow> 'srv dht_world \<Rightarrow> bool \<times> 'srv dht_world" where
  "CheckRC cfg rc w =
     (if \<not> SessionIsAllowed (rc_pubkey rc) (rclookup w) then (False, DelRCNode (rc_pubkey rc) w)
      else if \<not> RouterContact_Verify (cfg_env cfg) (cfg_bogons cfg) rc (clock w) True then (False, w)
      else if IsPublicRouter rc
      then (True, PutRCNode rc (w\<lparr>nodedb := PutIfNewer (clock w) rc (nodedb w)\<rparr>))
      else (True, w))"

text \<open>Here \<open>CheckRC\<close> is handed to a worker thread.\<close>

definition CheckRenegotiateValid ::
  "'srv RouterContact \<Rightarrow> 'srv RouterContact \<Rightarrow> 'srv dht_world \<Rightarrow> bool \<times> 'srv dht_world" where
  "CheckRenegotiateValid newrc oldrc w =
     (if rc_pubkey newrc \<noteq> rc_pubkey oldrc then (False, w)
      else if \<not> SessionIsAllowed (rc_pubkey newrc) (rclookup w) then (False, w)
      else
        let w1 = emit (Queued_CheckRC newrc) w;
            w2 = (if HasNode (rc_pubkey newrc) (dht_nodes w1) then PutRCNode newrc w1 else w1)
        in (True, w2))"

section \<open>Who waits for a contact\<close>

definition HavePendingLookup :: "key \<Rightarrow> 'srv RCLookupHandler \<Rightarrow> bool" where
  "HavePendingLookup remote h \<longleftrightarrow> map_of (pendingCallbacks h) remote \<noteq> None"

definition FinalizeRequest ::
  "key \<Rightarrow> 'srv RouterContact option \<Rightarrow> RCRequestResult \<Rightarrow> 'srv dht_world \<Rightarrow> 'srv dht_world" where
  "FinalizeRequest router rc result w =
     (let movedCallbacks = (case map_of (pendingCallbacks (rclookup w)) router of None \<Rightarrow> [] | Some cbs \<Rightarrow> cbs)
      in w\<lparr>rclookup := (rclookup w)\<lparr>pendingCallbacks := map_erase router (pendingCallbacks (rclookup w))\<rparr>,
           events := events w @ map (\<lambda>callback. Callback callback router rc result) movedCallbacks\<rparr>)"

definition HandleDHTLookupResult ::
  "'srv dht_config \<Rightarrow> key \<Rightarrow> 'srv RouterContact list \<Rightarrow> 'srv dht_world \<Rightarrow> 'srv dht_world" where
  "HandleDHTLookupResult cfg remote results w =
     (case results of
        [] \<Rightarrow> FinalizeRequest remote None RC_RouterNotFound w
      | rc # _ \<Rightarrow>
          if \<not> SessionIsAllowed remote (rclookup w) then FinalizeRequest remote (Some rc) RC_InvalidRouter w
          else
            let (ok, w1) = CheckRC cfg rc w
            in if \<not> ok then FinalizeRequest remote (Some rc) RC_BadRC w1
               else FinalizeRequest remote (Some rc) RC_Success w1)"

definition HandleDHTLookupForExplore ::
  "'srv dht_config \<Rightarrow> 'srv RouterContact list \<Rightarrow> 'srv dht_world \<Rightarrow> 'srv dht_world" where
  "HandleDHTLookupForExplore cfg results w = fold (\<lambda>rc w. snd (CheckRC cfg rc w)) results w"

end
