(* ===== verification/Tx_Holder.thy ===== *)
theory Tx_Holder
  imports Hash_Map Dht_Key "HOL-Library.Multiset"
begin

text \<open>
  Pending transactions of the DHT (\<open>llarp/dht/tx.hpp\<close>, \<open>txowner.hpp\<close>, \<open>txholder.hpp\<close>).  A transaction is
  known by the peer that was asked and the number of the request; those that look for the same key wait
  together, and only the first of them asks its peer.  The virtual functions of a transaction are a
  record of functions over the state \<open>'w\<close> of the rest of the program.
\<close>

section \<open>Transactions\<close>

record TXOwner =
  tx_node :: key
  tx_id :: u64

definition no_owner :: TXOwner where
  "no_owner = \<lparr>tx_node = zero_key, tx_id = 0\<rparr>"

record ('k, 'v) TX =
  target :: 'k
  peersAsked :: "key set"
  valuesFound :: "'v list"
  whoasked :: TXOwner

record ('k, 'v, 'z, 'w) TX_class =
  Validate :: "'w \<Rightarrow> ('k, 'v, 'z) TX_scheme \<Rightarrow> 'v \<Rightarrow> bool"
  Start :: "('k, 'v, 'z) TX_scheme \<Rightarrow> TXOwner \<Rightarrow> 'w \<Rightarrow> 'w"
  SendReply :: "('k, 'v, 'z) TX_scheme \<Rightarrow> 'w \<Rightarrow> 'w result"

definition OnFound ::
  "('k, 'v, 'z, 'w) TX_class \<Rightarrow> 'w \<Rightarrow> key \<Rightarrow> 'v \<Rightarrow> ('k, 'v, 'z) TX_scheme \<Rightarrow> ('k, 'v, 'z) TX_scheme" where
  "OnFound cls w askedPeer value t =
     (let t1 = t\<lparr>peersAsked := insert askedPeer (peersAsked t)\<rparr>
      in if Validate cls w t1 value then t1\<lparr>valuesFound := valuesFound t1 @ [value]\<rparr> else t1)"

section \<open>The holder\<close>

text \<open>
  \<open>waiting\<close> is an \<open>unordered_multimap\<close>; a new entry comes after those of the same key.
\<close>

record ('k, 'v, 'z) TXHolder =
  waiting :: "('k \<times> TXOwner) list"
  timeouts :: "('k \<times> llarp_time_t) list"
  txs :: "(TXOwner \<times> ('k, 'v, 'z) TX_scheme) list"

definition empty_holder :: "('k, 'v, 'z) TXHolder" where
  "empty_holder = \<lparr>waiting = [], timeouts = [], txs = []\<rparr>"

definition GetPendingLookupFrom :: "TXOwner \<Rightarrow> ('k, 'v, 'z) TXHolder \<Rightarrow> ('k, 'v, 'z) TX_scheme option" where
  "GetPendingLookupFrom owner h = map_of (txs h) owner"

definition HasLookupFor :: "'k \<Rightarrow> ('k, 'v, 'z) TXHolder \<Rightarrow> bool" where
  "HasLookupFor k h \<longleftrightarrow> map_of (timeouts h) k \<noteq> None"

definition HasPendingLookupFrom :: "TXOwner \<Rightarrow> ('k, 'v, 'z) TXHolder \<Rightarrow> bool" where
  "HasPendingLookupFrom owner h \<longleftrightarrow> GetPendingLookupFrom owner h \<noteq> None"

definition waiting_for :: "'k \<Rightarrow> ('k, 'v, 'z) TXHolder \<Rightarrow> TXOwner list" where
  "waiting_for k h = map snd (filter (\<lambda>e. fst e = k) (waiting h))"

text \<open>
  When \<open>tx\<close> has an entry for \<open>askpeer\<close> already, \<open>emplace\<close> destroys the new transaction; \<open>Start\<close> on it is
  then a use of freed memory.
\<close>

definition NewTX ::
  "('k, 'v, 'z, 'w) TX_class \<Rightarrow> TXOwner \<Rightarrow> 'k \<Rightarrow> ('k, 'v, 'z) TX_scheme \<Rightarrow> llarp_time_t \<Rightarrow> llarp_time_t
     \<Rightarrow> ('k, 'v, 'z) TXHolder \<times> 'w \<Rightarrow> (('k, 'v, 'z) TXHolder \<times> 'w) result" where
  "NewTX cls askpeer k t now requestTimeoutMS = (\<lambda>(h, w).
     let freed = (map_of (txs h) askpeer \<noteq> None);
         count = length (waiting_for k h);
         h' = h\<lparr>txs := map_emplace askpeer t (txs h), waiting := waiting h @ [(k, askpeer)],
                timeouts := map_emplace k (now + requestTimeoutMS) (timeouts h)\<rparr>
     in if count = 0 then (if freed then Inl Out_Of_Bounds else Inr (h', Start cls t askpeer w))
        else Inr (h', w))"

fun inform_loop ::
  "('k, 'v, 'z, 'w) TX_class \<Rightarrow> TXOwner \<Rightarrow> 'v list \<Rightarrow> bool \<Rightarrow> TXOwner list
     \<Rightarrow> (TXOwner \<times> ('k, 'v, 'z) TX_scheme) list \<times> 'w \<Rightarrow> ((TXOwner \<times> ('k, 'v, 'z) TX_scheme) list \<times> 'w) result" where
  "inform_loop cls from values sendreply [] (m, w) = Inr (m, w)"
| "inform_loop cls from values sendreply (owner # itr) (m, w) =
     (case map_of m owner of
        None \<Rightarrow> inform_loop cls from values sendreply itr (m, w)
      | Some t \<Rightarrow>
          let t' = fold (OnFound cls w (tx_node from)) values t
          in if sendreply
             then bindE (SendReply cls t' w) (\<lambda>w'. inform_loop cls from values sendreply itr (map_erase owner m, w'))
             else inform_loop cls from values sendreply itr (map_update owner t' m, w))"

definition Inform ::
  "('k, 'v, 'z, 'w) TX_class \<Rightarrow> TXOwner \<Rightarrow> 'k \<Rightarrow> 'v list \<Rightarrow> bool \<Rightarrow> bool
     \<Rightarrow> ('k, 'v, 'z) TXHolder \<times> 'w \<Rightarrow> (('k, 'v, 'z) TXHolder \<times> 'w) result" where
  "Inform cls from key values sendreply removeTimeouts = (\<lambda>(h, w).
     bindE (inform_loop cls from values sendreply (waiting_for key h) (txs h, w)) (\<lambda>(m, w').
       let h1 = h\<lparr>txs := m\<rparr>;
           h2 = (if sendreply then h1\<lparr>waiting := map_erase key (waiting h1)\<rparr> else h1);
           h3 = (if removeTimeouts then h2\<lparr>timeouts := map_erase key (timeouts h2)\<rparr> else h2)
       in Inr (h3, w')))"

definition Found ::
  "('k, 'v, 'z, 'w) TX_class \<Rightarrow> TXOwner \<Rightarrow> 'k \<Rightarrow> 'v list \<Rightarrow> ('k, 'v, 'z) TXHolder \<times> 'w
     \<Rightarrow> (('k, 'v, 'z) TXHolder \<times> 'w) result" where
  "Found cls from k values s = Inform cls from k values True True s"

definition NotFound ::
  "('k, 'v, 'z, 'w) TX_class \<Rightarrow> TXOwner \<Rightarrow> ('k, 'v, 'z) TXHolder \<times> 'w \<Rightarrow> (('k, 'v, 'z) TXHolder \<times> 'w) result" where
  "NotFound cls from = (\<lambda>(h, w). case map_of (txs h) from of
       None \<Rightarrow> Inr (h, w)
     | Some t \<Rightarrow> Inform cls from (target t) [] True True (h, w))"

fun expire_loop ::
  "('k, 'v, 'z, 'w) TX_class \<Rightarrow> llarp_time_t \<Rightarrow> ('k \<times> llarp_time_t) list
     \<Rightarrow> ('k, 'v, 'z) TXHolder \<times> 'w \<Rightarrow> (('k, 'v, 'z) TXHolder \<times> 'w) result" where
  "expire_loop cls now [] s = Inr s"
| "expire_loop cls now ((k, t) # itr) s =
     (if now \<ge> t
      then bindE (Inform cls no_owner k [] True False s) (\<lambda>(h, w).
             expire_loop cls now itr (h\<lparr>timeouts := map_erase k (timeouts h)\<rparr>, w))
      else expire_loop cls now itr s)"

definition Expire ::
  "('k, 'v, 'z, 'w) TX_class \<Rightarrow> llarp_time_t \<Rightarrow> ('k, 'v, 'z) TXHolder \<times> 'w \<Rightarrow> (('k, 'v, 'z) TXHolder \<times> 'w) result" where
  "Expire cls now s = expire_loop cls now (timeouts (fst s)) s"

end
