(* ===== verification/Tx_Holder_Facts.thy ===== *)
theory Tx_Holder_Facts
  imports Tx_Holder
begin

text \<open>
  The holder loses no transaction and answers none twice.  The replies are observed by a class that
  behaves as the given one and keeps a record of the transactions whose \<open>SendReply\<close> was called.
\<close>

section \<open>The invariant\<close>

definition holder_ok :: "('k, 'v, 'z) TXHolder \<Rightarrow> bool" where
  "holder_ok h \<longleftrightarrow> distinct (map fst (timeouts h)) \<and> distinct (map fst (txs h)) \<and> distinct (waiting h) \<and>
     fst ` set (waiting h) = fst ` set (timeouts h) \<and>
     set (waiting h) = (\<lambda>(owner, t). (target t, owner)) ` set (txs h)"

lemma holder_ok_empty [simp]: "holder_ok empty_holder"
  by (simp add: holder_ok_def empty_holder_def)

definition tx_ident :: "('k, 'v, 'z) TX_scheme \<Rightarrow> 'k \<times> TXOwner \<times> 'z" where
  "tx_ident t = (target t, whoasked t, TX.more t)"

lemma OnFound_ident [simp]: "tx_ident (OnFound cls w p v t) = tx_ident t" "target (OnFound cls w p v t) = target t"
  by (simp_all add: OnFound_def tx_ident_def Let_def)

lemma fold_OnFound_ident [simp]: "tx_ident (fold (OnFound cls w p) vs t) = tx_ident t"
  by (induction vs arbitrary: t) simp_all

definition logged ::
  "('k, 'v, 'z, 'w) TX_class \<Rightarrow> ('k, 'v, 'z, 'w \<times> ('k, 'v, 'z) TX_scheme list) TX_class" where
  "logged cls = \<lparr>Validate = \<lambda>s. Validate cls (fst s), Start = \<lambda>t owner s. (Start cls t owner (fst s), snd s),
     SendReply = \<lambda>t s. bindE (SendReply cls t (fst s)) (\<lambda>w'. Inr (w', snd s @ [t]))\<rparr>"

lemma logged_simps [simp]:
  "Validate (logged cls) (w, log) = Validate cls w"
  "Start (logged cls) t owner (w, log) = (Start cls t owner w, log)"
  "SendReply (logged cls) t (w, log) = bindE (SendReply cls t w) (\<lambda>w'. Inr (w', log @ [t]))"
  by (simp_all add: logged_def)

lemma OnFound_logged [simp]: "OnFound (logged cls) (w, log) = OnFound cls w"
  by (simp add: OnFound_def fun_eq_iff)

definition replies :: "('k, 'v, 'z, 'w) TX_class \<Rightarrow> bool" where
  "replies cls \<longleftrightarrow> (\<forall>t w. \<exists>w'. SendReply cls t w = Inr w')"

section \<open>Inform\<close>

lemma inform_loop_logged:
  assumes "replies cls"
  shows "distinct os \<Longrightarrow> set os \<subseteq> fst ` set m \<Longrightarrow>
    \<exists>w' ts. inform_loop (logged cls) from values True os (m, (w, log)) =
        Inr (filter (\<lambda>e. fst e \<notin> set os) m, (w', log @ ts)) \<and>
      inform_loop cls from values True os (m, w) = Inr (filter (\<lambda>e. fst e \<notin> set os) m, w') \<and>
      map tx_ident ts = map (\<lambda>owner. tx_ident (the (map_of m owner))) os"
proof (induction os arbitrary: m w log)
  case Nil
  then show ?case by simp
next
  case (Cons owner os)
  have "owner \<in> fst ` set m" using Cons.prems(2) by simp
  then obtain t where t: "map_of m owner = Some t" by (cases "map_of m owner") (auto simp: map_of_eq_None_iff)
  let ?t = "fold (OnFound cls w (tx_node from)) values t"
  obtain w1 where w1: "SendReply cls ?t w = Inr w1" using assms by (auto simp: replies_def)
  have sub: "distinct os" "set os \<subseteq> fst ` set (map_erase owner m)" using Cons.prems by auto
  obtain w' ts where IH: "inform_loop (logged cls) from values True os (map_erase owner m, (w1, log @ [?t])) =
        Inr (filter (\<lambda>e. fst e \<notin> set os) (map_erase owner m), (w', (log @ [?t]) @ ts))"
      "inform_loop cls from values True os (map_erase owner m, w1) = Inr (filter (\<lambda>e. fst e \<notin> set os) (map_erase owner m), w')"
      "map tx_ident ts = map (\<lambda>owner'. tx_ident (the (map_of (map_erase owner m) owner'))) os"
    using Cons.IH [OF sub, of w1 "log @ [?t]"] by blast
  have "filter (\<lambda>e. fst e \<notin> set os) (map_erase owner m) = filter (\<lambda>e. fst e \<notin> set (owner # os)) m"
    by (auto simp: map_erase_def intro: filter_cong)
  moreover have "map (\<lambda>owner'. tx_ident (the (map_of (map_erase owner m) owner'))) os = map (\<lambda>owner. tx_ident (the (map_of m owner))) os"
    using Cons.prems(1) by (auto simp: map_of_map_erase)
  ultimately show ?case
    using IH t w1 by (intro exI [of _ w'] exI [of _ "?t # ts"]) simp
qed

lemma in_waiting_for: "owner \<in> set (waiting_for k h) \<longleftrightarrow> (k, owner) \<in> set (waiting h)"
  unfolding waiting_for_def by (simp add: image_iff)

lemma in_waiting_for_ok:
  assumes "holder_ok h"
  shows "owner \<in> set (waiting_for k h) \<longleftrightarrow> (\<exists>t. (owner, t) \<in> set (txs h) \<and> target t = k)"
proof -
  have "set (waiting h) = (\<lambda>(owner, t). (target t, owner)) ` set (txs h)" using assms by (simp add: holder_ok_def)
  then show ?thesis unfolding in_waiting_for by auto
qed

lemma holder_distinct: "holder_ok h \<Longrightarrow> distinct (map fst (txs h))"
  by (simp add: holder_ok_def)

lemma waiting_for_ok:
  assumes "holder_ok h"
  shows "distinct (waiting_for k h)" and "set (waiting_for k h) \<subseteq> fst ` set (txs h)"
    and "(owner, t) \<in> set (txs h) \<Longrightarrow> owner \<in> set (waiting_for k h) \<longleftrightarrow> target t = k"
    and "mset (waiting_for k h) = mset (map fst (filter (\<lambda>e. target (snd e) = k) (txs h)))"
proof -
  note mem = in_waiting_for_ok [OF assms] and d = holder_distinct [OF assms]
  have "distinct (filter (\<lambda>e. fst e = k) (waiting h))" using assms by (simp add: holder_ok_def)
  then show dist: "distinct (waiting_for k h)"
    unfolding waiting_for_def distinct_map by (auto intro: inj_onI)
  show "set (waiting_for k h) \<subseteq> fst ` set (txs h)"
    using image_eqI [of _ fst _ "set (txs h)"] by (fastforce simp: mem)
  show "(owner, t) \<in> set (txs h) \<Longrightarrow> owner \<in> set (waiting_for k h) \<longleftrightarrow> target t = k"
    using eq_key_imp_eq_value [OF d] unfolding mem by blast
  have "set (waiting_for k h) = set (map fst (filter (\<lambda>e. target (snd e) = k) (txs h)))"
    by (rule set_eqI) (auto simp: mem intro: rev_image_eqI)
  moreover have "distinct (map fst (filter (\<lambda>e. target (snd e) = k) (txs h)))" using d by (rule distinct_map_filter)
  ultimately show "mset (waiting_for k h) = mset (map fst (filter (\<lambda>e. target (snd e) = k) (txs h)))"
    using dist set_eq_iff_mset_eq_distinct by blast
qed

definition pending_ident :: "('k, 'v, 'z) TXHolder \<Rightarrow> ('k \<times> TXOwner \<times> 'z) multiset" where
  "pending_ident h = mset (map (\<lambda>e. tx_ident (snd e)) (txs h))"

definition answered :: "'k \<Rightarrow> ('k, 'v, 'z) TXHolder \<Rightarrow> ('k, 'v, 'z) TXHolder" where
  "answered k h = h\<lparr>txs := filter (\<lambda>e. target (snd e) \<noteq> k) (txs h), waiting := map_erase k (waiting h),
     timeouts := map_erase k (timeouts h)\<rparr>"

lemma answered_ok:
  assumes "holder_ok h"
  shows "holder_ok (answered k h)"
proof -
  have w: "set (waiting h) = (\<lambda>(owner, t). (target t, owner)) ` set (txs h)" "fst ` set (waiting h) = fst ` set (timeouts h)"
    using assms unfolding holder_ok_def by blast+
  have "set (map_erase k (waiting h)) = (\<lambda>(owner, t). (target t, owner)) ` set (filter (\<lambda>e. target (snd e) \<noteq> k) (txs h))"
    unfolding map_erase_def set_filter w(1) by (auto intro: rev_image_eqI)
  moreover have "fst ` set (map_erase k (waiting h)) = fst ` set (map_erase k (timeouts h))"
    using w(2) by (simp only: keys_erase)
  moreover have "distinct (map fst (timeouts h))" "distinct (map fst (txs h))" "distinct (waiting h)"
    using assms by (simp_all only: holder_ok_def simp_thms)
  ultimately show ?thesis
    unfolding holder_ok_def answered_def by (simp only: TXHolder.simps distinct_erase distinct_map_filter simp_thms)
      (simp add: map_erase_def distinct_map_filter)
qed

lemma Inform_logged:
  assumes "replies cls" and "holder_ok h"
  shows "\<exists>w' ts. (\<forall>rt. Inform (logged cls) from k values True rt (h, (w, log)) =
        Inr ((answered k h)\<lparr>timeouts := if rt then map_erase k (timeouts h) else timeouts h\<rparr>, (w', log @ ts)) \<and>
      Inform cls from k values True rt (h, w) =
        Inr ((answered k h)\<lparr>timeouts := if rt then map_erase k (timeouts h) else timeouts h\<rparr>, w')) \<and>
      mset (map tx_ident ts) + pending_ident (answered k h) = pending_ident h"
proof -
  note wf = waiting_for_ok [OF assms(2), where k = k]
  obtain w' ts where ts: "inform_loop (logged cls) from values True (waiting_for k h) (txs h, (w, log)) =
        Inr (filter (\<lambda>e. fst e \<notin> set (waiting_for k h)) (txs h), (w', log @ ts))"
      "inform_loop cls from values True (waiting_for k h) (txs h, w) =
        Inr (filter (\<lambda>e. fst e \<notin> set (waiting_for k h)) (txs h), w')"
      "map tx_ident ts = map (\<lambda>owner. tx_ident (the (map_of (txs h) owner))) (waiting_for k h)"
    using inform_loop_logged [OF assms(1) wf(1,2)] by metis
  have f: "filter (\<lambda>e. fst e \<notin> set (waiting_for k h)) (txs h) = filter (\<lambda>e. target (snd e) \<noteq> k) (txs h)"
    using wf(3) by (intro filter_cong refl) (simp add: prod_eq_iff split_paired_all)
  have "mset (map tx_ident ts) = image_mset (\<lambda>owner. tx_ident (the (map_of (txs h) owner))) (mset (waiting_for k h))"
    by (simp add: ts(3))
  also have "\<dots> = mset (map (\<lambda>e. tx_ident (the (map_of (txs h) (fst e)))) (filter (\<lambda>e. target (snd e) = k) (txs h)))"
    by (simp add: wf(4) image_mset.compositionality comp_def)
  also have "map (\<lambda>e. tx_ident (the (map_of (txs h) (fst e)))) (filter (\<lambda>e. target (snd e) = k) (txs h)) =
      map (\<lambda>e. tx_ident (snd e)) (filter (\<lambda>e. target (snd e) = k) (txs h))"
    using assms(2) by (auto simp: holder_ok_def)
  finally have "mset (map tx_ident ts) + pending_ident (answered k h) = pending_ident h"
    unfolding pending_ident_def answered_def
    by (simp flip: image_mset_union add: multiset_partition [of "mset (txs h)", symmetric])
  then show ?thesis
    using ts(1,2) by (intro exI [of _ w'] exI [of _ ts]) (simp add: Inform_def answered_def f Let_def)
qed

section \<open>Runs\<close>

datatype ('k, 'v, 'z) tx_op =
    Op_New TXOwner "('k, 'v, 'z) TX_scheme" llarp_time_t llarp_time_t
  | Op_Found TXOwner 'k "'v list"
  | Op_NotFound TXOwner
  | Op_Expire llarp_time_t

fun tx_step ::
  "('k, 'v, 'z, 'w) TX_class \<Rightarrow> ('k, 'v, 'z) tx_op \<Rightarrow> ('k, 'v, 'z) TXHolder \<times> 'w \<Rightarrow> (('k, 'v, 'z) TXHolder \<times> 'w) result" where
  "tx_step cls (Op_New owner t now timeout) s = NewTX cls owner (target t) t now timeout s"
| "tx_step cls (Op_Found from k values) s = Found cls from k values s"
| "tx_step cls (Op_NotFound from) s = NotFound cls from s"
| "tx_step cls (Op_Expire now) s = Expire cls now s"

fun tx_run ::
  "('k, 'v, 'z, 'w) TX_class \<Rightarrow> ('k, 'v, 'z) tx_op list \<Rightarrow> ('k, 'v, 'z) TXHolder \<times> 'w \<Rightarrow> (('k, 'v, 'z) TXHolder \<times> 'w) result" where
  "tx_run cls [] s = Inr s"
| "tx_run cls (op # ops) s = bindE (tx_step cls op s) (tx_run cls ops)"

lemma tx_run_append: "tx_run cls (xs @ ys) s = bindE (tx_run cls xs s) (tx_run cls ys)"
  by (induction xs arbitrary: s) (simp_all add: bindE_def split: sum.splits)

text \<open>The transactions that an operation makes, and a bound on the time they may wait.\<close>

fun created :: "('k, 'v, 'z) tx_op \<Rightarrow> (TXOwner \<times> ('k, 'v, 'z) TX_scheme) list" where
  "created (Op_New owner t now timeout) = [(owner, t)]"
| "created op = []"

fun due_by :: "llarp_time_t \<Rightarrow> ('k, 'v, 'z) tx_op \<Rightarrow> bool" where
  "due_by deadline (Op_New owner t now timeout) \<longleftrightarrow> now + timeout \<le> deadline"
| "due_by deadline op \<longleftrightarrow> True"

definition deadlines :: "llarp_time_t \<Rightarrow> ('k, 'v, 'z) TXHolder \<Rightarrow> bool" where
  "deadlines d h \<longleftrightarrow> list_all (\<lambda>e. snd e \<le> d) (timeouts h)"

text \<open>
  \<open>steps_to\<close>: the operation ends in both classes alike, keeps the invariant, and every transaction that
  was pending or is made is pending afterwards or has been answered.
\<close>

definition steps_to ::
  "('k, 'v, 'z, 'w) TX_class \<Rightarrow> ('k, 'v, 'z) tx_op \<Rightarrow> ('k, 'v, 'z) TXHolder \<Rightarrow> 'w \<Rightarrow> ('k, 'v, 'z) TX_scheme list
     \<Rightarrow> ('k, 'v, 'z) TXHolder \<Rightarrow> 'w \<Rightarrow> ('k, 'v, 'z) TX_scheme list \<Rightarrow> bool" where
  "steps_to cls op h w log h' w' log' \<longleftrightarrow>
     tx_step (logged cls) op (h, (w, log)) = Inr (h', (w', log')) \<and> tx_step cls op (h, w) = Inr (h', w') \<and>
     holder_ok h' \<and> fst ` set (txs h') \<subseteq> fst ` set (txs h) \<union> fst ` set (created op) \<and>
     mset (map tx_ident log') + pending_ident h' =
       mset (map tx_ident log) + pending_ident h + mset (map (\<lambda>e. tx_ident (snd e)) (created op))"

lemma Inform_steps:
  assumes "replies cls" and "holder_ok h"
  shows "\<exists>w' ts. Inform (logged cls) from k values True True (h, (w, log)) = Inr (answered k h, (w', log @ ts)) \<and>
      Inform cls from k values True True (h, w) = Inr (answered k h, w') \<and>
      Inform (logged cls) from k values True False (h, (w, log)) = Inr ((answered k h)\<lparr>timeouts := timeouts h\<rparr>, (w', log @ ts)) \<and>
      Inform cls from k values True False (h, w) = Inr ((answered k h)\<lparr>timeouts := timeouts h\<rparr>, w') \<and>
      mset (map tx_ident ts) + pending_ident (answered k h) = pending_ident h"
proof -
  have "(answered k h)\<lparr>timeouts := map_erase k (timeouts h)\<rparr> = answered k h" by (simp add: answered_def)
  moreover obtain w' ts where i: "\<And>rt. Inform (logged cls) from k values True rt (h, (w, log)) =
        Inr ((answered k h)\<lparr>timeouts := if rt then map_erase k (timeouts h) else timeouts h\<rparr>, (w', log @ ts)) \<and>
      Inform cls from k values True rt (h, w) =
        Inr ((answered k h)\<lparr>timeouts := if rt then map_erase k (timeouts h) else timeouts h\<rparr>, w')"
    "mset (map tx_ident ts) + pending_ident (answered k h) = pending_ident h"
    using Inform_logged [OF assms, of "from" k "values" w log] by blast
  ultimately show ?thesis using i(1) [of True] i(1) [of False] by (intro exI [of _ w'] exI [of _ ts]) (simp only: if_True if_False simp_thms)
qed

lemma answered_keys: "fst ` set (txs (answered k h)) \<subseteq> fst ` set (txs h)"
  by (auto simp: answered_def)

lemma Found_steps:
  assumes "replies cls" and "holder_ok h"
  shows "\<exists>w' log'. steps_to cls (Op_Found from k values) h w log (answered k h) w' log'"
proof -
  obtain w' ts where "Inform (logged cls) from k values True True (h, (w, log)) = Inr (answered k h, (w', log @ ts))"
    "Inform cls from k values True True (h, w) = Inr (answered k h, w')"
    "mset (map tx_ident ts) + pending_ident (answered k h) = pending_ident h"
    using Inform_steps [OF assms, of "from" k "values" w log] by blast
  then show ?thesis
    using answered_ok [OF assms(2)] answered_keys [of k h]
    by (intro exI [of _ w'] exI [of _ "log @ ts"]) (simp add: steps_to_def Found_def add.assoc)
qed

lemma NotFound_steps:
  assumes "replies cls" and "holder_ok h"
  shows "\<exists>h' w' log'. steps_to cls (Op_NotFound from) h w log h' w' log' \<and> (h' = h \<or> (\<exists>k. h' = answered k h))"
proof (cases "map_of (txs h) from")
  case None
  then show ?thesis
    using assms(2) by (intro exI [of _ h] exI [of _ w] exI [of _ log]) (simp add: steps_to_def NotFound_def)
next
  case (Some t)
  obtain w' log' where s: "steps_to cls (Op_Found from (target t) []) h w log (answered (target t) h) w' log'"
    using Found_steps [OF assms] by blast
  then have "steps_to cls (Op_NotFound from) h w log (answered (target t) h) w' log'"
    using Some by (simp add: steps_to_def NotFound_def Found_def)
  then show ?thesis by blast
qed

definition expired :: "llarp_time_t \<Rightarrow> ('k \<times> llarp_time_t) list \<Rightarrow> ('k, 'v, 'z) TXHolder \<Rightarrow> ('k, 'v, 'z) TXHolder" where
  "expired now itr h = fold (\<lambda>(k, t) h. if now \<ge> t then answered k h else h) itr h"

lemma expired_simps [simp]:
  "expired now [] h = h"
  "expired now ((k, t) # itr) h = expired now itr (if now \<ge> t then answered k h else h)"
  by (simp_all add: expired_def)

lemma expired_keys: "fst ` set (timeouts (expired now itr h)) = fst ` set (timeouts h) - fst ` set (filter (\<lambda>e. snd e \<le> now) itr)"
proof (induction itr arbitrary: h)
  case (Cons e itr)
  then show ?case by (cases e) (auto simp: answered_def)
qed simp

lemma expire_loop_steps:
  assumes "replies cls"
  shows "holder_ok h \<Longrightarrow>
    \<exists>w' ts. expire_loop (logged cls) now itr (h, (w, log)) = Inr (expired now itr h, (w', log @ ts)) \<and>
      expire_loop cls now itr (h, w) = Inr (expired now itr h, w') \<and> holder_ok (expired now itr h) \<and>
      fst ` set (txs (expired now itr h)) \<subseteq> fst ` set (txs h) \<and>
      mset (map tx_ident ts) + pending_ident (expired now itr h) = pending_ident h"
proof (induction itr arbitrary: h w log)
  case Nil
  then show ?case by (intro exI [of _ w] exI [of _ "[]"]) simp
next
  case (Cons e itr)
  obtain k t where e: "e = (k, t)" by (cases e)
  show ?case
  proof (cases "now \<ge> t")
    case False
    then show ?thesis using Cons.IH [OF Cons.prems, of w log] e by simp
  next
    case True
    have eq: "(answered k h)\<lparr>timeouts := map_erase k (timeouts h)\<rparr> = answered k h" by (simp add: answered_def)
    obtain w1 ts1 where i: "Inform (logged cls) no_owner k [] True False (h, (w, log)) = Inr ((answered k h)\<lparr>timeouts := timeouts h\<rparr>, (w1, log @ ts1))"
      "Inform cls no_owner k [] True False (h, w) = Inr ((answered k h)\<lparr>timeouts := timeouts h\<rparr>, w1)"
      "mset (map tx_ident ts1) + pending_ident (answered k h) = pending_ident h"
      using Inform_steps [OF assms Cons.prems, of no_owner k "[]" w log] by blast
    obtain w' ts where IH: "expire_loop (logged cls) now itr (answered k h, (w1, log @ ts1)) = Inr (expired now itr (answered k h), (w', (log @ ts1) @ ts))"
      "expire_loop cls now itr (answered k h, w1) = Inr (expired now itr (answered k h), w')"
      "holder_ok (expired now itr (answered k h))"
      "fst ` set (txs (expired now itr (answered k h))) \<subseteq> fst ` set (txs (answered k h))"
      "mset (map tx_ident ts) + pending_ident (expired now itr (answered k h)) = pending_ident (answered k h)"
      using Cons.IH [OF answered_ok [OF Cons.prems], of k w1 "log @ ts1"] by blast
    have "mset (map tx_ident (ts1 @ ts)) + pending_ident (expired now itr (answered k h)) = pending_ident h"
      using i(3) IH(5) by (simp add: add.assoc)
    then show ?thesis
      using True e i(1,2) IH(1-4) answered_keys [of k h]
      by (intro exI [of _ w'] exI [of _ "ts1 @ ts"]) (auto simp: eq)
  qed
qed

lemma Expire_steps:
  assumes "replies cls" and "holder_ok h"
  shows "\<exists>w' log'. steps_to cls (Op_Expire now) h w log (expired now (timeouts h) h) w' log'"
proof -
  obtain w' ts where "expire_loop (logged cls) now (timeouts h) (h, (w, log)) = Inr (expired now (timeouts h) h, (w', log @ ts))"
    "expire_loop cls now (timeouts h) (h, w) = Inr (expired now (timeouts h) h, w')" "holder_ok (expired now (timeouts h) h)"
    "fst ` set (txs (expired now (timeouts h) h)) \<subseteq> fst ` set (txs h)"
    "mset (map tx_ident ts) + pending_ident (expired now (timeouts h) h) = pending_ident h"
    using expire_loop_steps [OF assms, of now "timeouts h" w log] by blast
  then show ?thesis
    by (intro exI [of _ w'] exI [of _ "log @ ts"]) (simp add: steps_to_def Expire_def add.assoc)
qed

lemma New_steps:
  assumes "holder_ok h" and "owner \<notin> fst ` set (txs h)"
  shows "\<exists>h' w'. steps_to cls (Op_New owner t now timeout) h w log h' w' log \<and>
    timeouts h' = map_emplace (target t) (now + timeout) (timeouts h)"
proof -
  let ?h = "h\<lparr>txs := txs h @ [(owner, t)], waiting := waiting h @ [(target t, owner)],
    timeouts := map_emplace (target t) (now + timeout) (timeouts h)\<rparr>"
  have m: "map_of (txs h) owner = None" using assms(2) by (simp add: map_of_eq_None_iff)
  have "(target t, owner) \<notin> set (waiting h)"
    using assms unfolding holder_ok_def by (auto intro: rev_image_eqI)
  then have "holder_ok ?h"
    using assms unfolding holder_ok_def by (simp add: insert_commute) metis
  moreover have "tx_step (logged cls) (Op_New owner t now timeout) (h, (w, log)) =
      Inr (?h, (if waiting_for (target t) h = [] then Start cls t owner w else w, log))"
    and "tx_step cls (Op_New owner t now timeout) (h, w) =
      Inr (?h, if waiting_for (target t) h = [] then Start cls t owner w else w)"
    using m assms(2) by (simp_all add: NewTX_def Let_def map_emplace_def [of owner])
  ultimately show ?thesis
    by (intro exI [of _ ?h] exI [of _ "if waiting_for (target t) h = [] then Start cls t owner w else w"])
      (simp add: steps_to_def pending_ident_def)
qed

lemma deadlines_answered: "deadlines d h \<Longrightarrow> deadlines d (answered k h)"
  by (simp add: deadlines_def answered_def map_erase_def list_all_iff)

lemma deadlines_expired: "deadlines d h \<Longrightarrow> deadlines d (expired now itr h)"
  by (induction itr arbitrary: h) (auto simp: deadlines_answered)

lemma deadlines_emplace: "deadlines d h \<Longrightarrow> timeouts h' = map_emplace k t (timeouts h) \<Longrightarrow> t \<le> d \<Longrightarrow> deadlines d h'"
  by (simp add: deadlines_def map_emplace_def)

lemma tx_step_steps:
  assumes "replies cls" and "holder_ok h" and "deadlines d h" and "due_by d op"
    and "fst ` set (txs h) \<inter> fst ` set (created op) = {}"
  shows "\<exists>h' w' log'. steps_to cls op h w log h' w' log' \<and> deadlines d h'"
proof (cases op)
  case (Op_New owner t now timeout)
  then have o: "owner \<notin> fst ` set (txs h)" "now + timeout \<le> d" using assms(4,5) by auto
  obtain h' w' where "steps_to cls op h w log h' w' log" "timeouts h' = map_emplace (target t) (now + timeout) (timeouts h)"
    using New_steps [OF assms(2) o(1), of cls t now timeout w log] Op_New by auto
  then show ?thesis using deadlines_emplace [OF assms(3) _ o(2)] by blast
next
  case (Op_Found src k vs)
  obtain w' log' where "steps_to cls op h w log (answered k h) w' log'"
    unfolding Op_Found using Found_steps [OF assms(1,2)] by blast
  then show ?thesis using deadlines_answered [OF assms(3), of k] by blast
next
  case (Op_NotFound src)
  obtain h' w' log' where "steps_to cls op h w log h' w' log'" "h' = h \<or> (\<exists>k. h' = answered k h)"
    unfolding Op_NotFound using NotFound_steps [OF assms(1,2)] by blast
  then show ?thesis using deadlines_answered [OF assms(3)] assms(3) by blast
next
  case (Op_Expire now)
  obtain w' log' where "steps_to cls op h w log (expired now (timeouts h) h) w' log'"
    unfolding Op_Expire using Expire_steps [OF assms(1,2)] by blast
  then show ?thesis using deadlines_expired [OF assms(3), of now "timeouts h"] by blast
qed

lemma disjoint_step: "A' \<subseteq> A \<union> B \<Longrightarrow> A \<inter> (B \<union> C) = {} \<Longrightarrow> B \<inter> C = {} \<Longrightarrow> A' \<inter> C = {}"
  by blast

lemma tx_run_steps:
  assumes "replies cls"
  shows "holder_ok h \<Longrightarrow> deadlines d h \<Longrightarrow> list_all (due_by d) ops \<Longrightarrow>
    distinct (map fst (concat (map created ops))) \<Longrightarrow>
    fst ` set (txs h) \<inter> fst ` set (concat (map created ops)) = {} \<Longrightarrow>
    \<exists>h' w' log'. tx_run (logged cls) ops (h, (w, log)) = Inr (h', (w', log')) \<and> tx_run cls ops (h, w) = Inr (h', w') \<and>
      holder_ok h' \<and> deadlines d h' \<and> mset (map tx_ident log') + pending_ident h' =
        mset (map tx_ident log) + pending_ident h + mset (map (\<lambda>e. tx_ident (snd e)) (concat (map created ops)))"
proof (induction ops arbitrary: h w log)
  case Nil
  then show ?case by (intro exI [of _ h] exI [of _ w] exI [of _ log]) simp
next
  case (Cons op ops)
  have "due_by d op" "fst ` set (txs h) \<inter> fst ` set (created op) = {}" using Cons.prems(3,5) by auto
  then obtain h1 w1 log1 where s: "steps_to cls op h w log h1 w1 log1" "deadlines d h1"
    using tx_step_steps [OF assms Cons.prems(1,2)] by blast
  have h1: "holder_ok h1" "fst ` set (txs h1) \<subseteq> fst ` set (txs h) \<union> fst ` set (created op)"
    "mset (map tx_ident log1) + pending_ident h1 =
       mset (map tx_ident log) + pending_ident h + mset (map (\<lambda>e. tx_ident (snd e)) (created op))"
    using s(1) by (simp_all add: steps_to_def)
  have d: "distinct (map fst (concat (map created ops)))" "list_all (due_by d) ops" using Cons.prems(3,4) by simp_all
  have c: "fst ` set (created op) \<inter> fst ` set (concat (map created ops)) = {}"
    using Cons.prems(4) by (simp only: list.map concat.simps map_append distinct_append set_map)
  have "fst ` set (txs h) \<inter> (fst ` set (created op) \<union> fst ` set (concat (map created ops))) = {}"
    using Cons.prems(5) by (simp only: list.map concat.simps set_append image_Un)
  then have "fst ` set (txs h1) \<inter> fst ` set (concat (map created ops)) = {}"
    by (rule disjoint_step [OF h1(2) _ c])
  then obtain h' w' log' where IH: "tx_run (logged cls) ops (h1, (w1, log1)) = Inr (h', (w', log'))" "tx_run cls ops (h1, w1) = Inr (h', w')"
      "holder_ok h'" "deadlines d h'" "mset (map tx_ident log') + pending_ident h' =
        mset (map tx_ident log1) + pending_ident h1 + mset (map (\<lambda>e. tx_ident (snd e)) (concat (map created ops)))"
    using Cons.IH [OF h1(1) s(2) d(2,1), of w1 log1] by blast
  have "mset (map tx_ident log') + pending_ident h' =
      mset (map tx_ident log) + pending_ident h + mset (map (\<lambda>e. tx_ident (snd e)) (concat (map created (op # ops))))"
    using IH(5) h1(3) by (simp add: add.assoc)
  then show ?case
    using s(1) IH(1-4) by (intro exI [of _ h'] exI [of _ w'] exI [of _ log']) (simp add: steps_to_def)
qed

lemma all_expired:
  assumes "holder_ok h" and "deadlines d h" and "d \<le> now" and "holder_ok (expired now (timeouts h) h)"
  shows "expired now (timeouts h) h = empty_holder"
proof -
  let ?h = "expired now (timeouts h) h"
  have "filter (\<lambda>e. snd e \<le> now) (timeouts h) = timeouts h"
    using assms(2,3) by (auto simp: deadlines_def list_all_iff filter_id_conv)
  then have t: "timeouts ?h = []" using expired_keys [of now "timeouts h" h] by auto
  then have "waiting ?h = []" "txs ?h = []" using assms(4) by (auto simp: holder_ok_def)
  with t show ?thesis by (simp add: empty_holder_def)
qed

text \<open>
  Claim C32.  Every transaction is answered exactly once.  Over any sequence of new transactions, results
  found and not found, and expirations, in any order and for any class whose \<open>SendReply\<close> returns, no
  operation faults, and once the clock has passed the last deadline, \<open>Expire\<close> leaves the holder empty:
  the transactions whose \<open>SendReply\<close> was called are those that were made, each as often as it was made.
  The class that records the calls runs as the original one.
\<close>

theorem txs_answered_once:
  assumes "replies cls" and "distinct (map fst (concat (map created ops)))" and "list_all (due_by deadline) ops"
    and "deadline \<le> now"
  shows "\<exists>w log. tx_run (logged cls) (ops @ [Op_Expire now]) (empty_holder, (w0, [])) = Inr (empty_holder, (w, log)) \<and>
    tx_run cls (ops @ [Op_Expire now]) (empty_holder, w0) = Inr (empty_holder, w) \<and>
    mset (map tx_ident log) = mset (map (\<lambda>e. tx_ident (snd e)) (concat (map created ops)))"
proof -
  obtain h1 w1 log1 where r: "tx_run (logged cls) ops (empty_holder, (w0, [])) = Inr (h1, (w1, log1))"
    "tx_run cls ops (empty_holder, w0) = Inr (h1, w1)" "holder_ok h1" "deadlines deadline h1"
    "mset (map tx_ident log1) + pending_ident h1 = mset (map (\<lambda>e. tx_ident (snd e)) (concat (map created ops)))"
    using tx_run_steps [OF assms(1) holder_ok_empty _ assms(3,2), of w0 "[]"]
    by (auto simp: deadlines_def empty_holder_def pending_ident_def)
  obtain w log where e: "steps_to cls (Op_Expire now) h1 w1 log1 (expired now (timeouts h1) h1) w log"
    using Expire_steps [OF assms(1) r(3)] by blast
  then have x: "expired now (timeouts h1) h1 = empty_holder"
    by (intro all_expired [OF r(3,4) assms(4)]) (simp add: steps_to_def)
  have "mset (map tx_ident log) = mset (map (\<lambda>e. tx_ident (snd e)) (concat (map created ops)))"
    using e r(5) unfolding x by (simp add: steps_to_def pending_ident_def empty_holder_def)
  then show ?thesis
    using e r(1,2) unfolding x
    by (intro exI [of _ w] exI [of _ log]) (simp add: tx_run_append steps_to_def)
qed

definition example_tx :: "nat \<Rightarrow> (nat, nat) TX" where
  "example_tx k = \<lparr>target = k, peersAsked = {}, valuesFound = [], whoasked = no_owner\<rparr>"

definition example_class :: "(nat, nat, unit, nat) TX_class" where
  "example_class = \<lparr>Validate = \<lambda>w t v. v < 10, Start = \<lambda>t owner w. w, SendReply = \<lambda>t w. Inr (w + length (valuesFound t))\<rparr>"

definition example_ops :: "(nat, nat, unit) tx_op list" where
  "example_ops = [Op_New \<lparr>tx_node = zero_key, tx_id = 1\<rparr> (example_tx 7) 0 15000,
     Op_New \<lparr>tx_node = zero_key, tx_id = 2\<rparr> (example_tx 7) 10 15000,
     Op_Found \<lparr>tx_node = zero_key, tx_id = 1\<rparr> 7 [3],
     Op_New \<lparr>tx_node = zero_key, tx_id = 3\<rparr> (example_tx 8) 20 1000]"

theorem txs_answered_once_witness:
  "\<exists>w log. tx_run (logged example_class) (example_ops @ [Op_Expire 20000]) (empty_holder, (0, [])) = Inr (empty_holder, (w, log)) \<and>
    tx_run example_class (example_ops @ [Op_Expire 20000]) (empty_holder, 0) = Inr (empty_holder, w) \<and>
    mset (map tx_ident log) = mset (map (\<lambda>e. tx_ident (snd e)) (concat (map created example_ops)))"
  by (rule txs_answered_once [where deadline = 15010])
    (simp_all add: replies_def example_class_def example_ops_def)

end
