(* ===== verification/Dht_Lookups.thy ===== *)
theory Dht_Lookups
  imports Rc_Lookup Tx_Holder_Facts
begin

text \<open>
  The lookups of the DHT: the classes derived from \<open>TX\<close> (\<open>recursiverouterlookup.cpp\<close>,
  \<open>localrouterlookup.cpp\<close>, \<open>serviceaddresslookup.cpp\<close>, \<open>localserviceaddresslookup.cpp\<close>,
  \<open>publishservicejob.cpp\<close>, \<open>explorenetworkjob.cpp\<close>) and the operations of the DHT context that make them.
  A subclass is the extension of the record of its transaction.
\<close>

section \<open>Messages that are made\<close>

definition FindRouter_for :: "u64 \<Rightarrow> key \<Rightarrow> FindRouterMessage" where
  "FindRouter_for txid t = (new_FindRouterMessage zero_key)\<lparr>fr_targetKey := t, fr_txid := txid\<rparr>"

definition FindRouter_explore :: "u64 \<Rightarrow> key \<Rightarrow> FindRouterMessage" where
  "FindRouter_explore txid random = (new_FindRouterMessage zero_key)\<lparr>fr_targetKey := random, fr_exploritory := True, fr_txid := txid\<rparr>"

definition GotRouter_results :: "key \<Rightarrow> u64 \<Rightarrow> 'srv RouterContact list \<Rightarrow> bool \<Rightarrow> 'srv GotRouterMessage" where
  "GotRouter_results src txid results tunneled = (new_GotRouterMessage src tunneled)\<lparr>gr_foundRCs := results, gr_txid := txid\<rparr>"

definition GotRouter_closer :: "key \<Rightarrow> key \<Rightarrow> u64 \<Rightarrow> bool \<Rightarrow> 'srv GotRouterMessage" where
  "GotRouter_closer src closer txid tunneled =
     (new_GotRouterMessage src tunneled)\<lparr>gr_closerTarget := Some closer, gr_txid := txid\<rparr>"

definition GotRouter_near :: "u64 \<Rightarrow> key list \<Rightarrow> bool \<Rightarrow> 'srv GotRouterMessage" where
  "GotRouter_near txid near tunneled = (new_GotRouterMessage zero_key tunneled)\<lparr>gr_nearKeys := near, gr_txid := txid\<rparr>"

definition FindIntro_for :: "u64 \<Rightarrow> key \<Rightarrow> u64 \<Rightarrow> FindIntroMessage" where
  "FindIntro_for txid loc order =
     (new_FindIntroMessage zero_key False order)\<lparr>fi_location := loc, fi_txID := txid, fi_tagName := replicate 16 0\<rparr>"

definition GotIntro_results :: "EncryptedIntroSet list \<Rightarrow> u64 \<Rightarrow> GotIntroMessage" where
  "GotIntro_results results txid = (new_GotIntroMessage zero_key)\<lparr>gi_found := results, gi_txid := txid\<rparr>"

definition PublishIntro_of :: "EncryptedIntroSet \<Rightarrow> u64 \<Rightarrow> bool \<Rightarrow> u64 \<Rightarrow> PublishIntroMessage" where
  "PublishIntro_of introset txid relayed order =
     (new_PublishIntroMessage zero_key relayed)\<lparr>pi_introset := introset, pi_relayOrder := order, pi_txID := txid\<rparr>"

definition DHTSendTo :: "key \<Rightarrow> 'srv dht_message \<Rightarrow> 'srv dht_world \<Rightarrow> 'srv dht_world" where
  "DHTSendTo peer msg w = emit (Sent_To peer msg) w"

section \<open>Router lookups\<close>

datatype router_handler = RC_Result key | Explore_Result

datatype router_job = RecursiveRouterLookup "router_handler option" | LocalRouterLookup pathid

type_synonym 'srv router_tx = "(key, 'srv RouterContact, router_job) TX_scheme"

definition new_router_tx :: "'srv dht_config \<Rightarrow> TXOwner \<Rightarrow> key \<Rightarrow> router_job \<Rightarrow> 'srv router_tx" where
  "new_router_tx cfg asker t job =
     \<lparr>target = t, peersAsked = {ourKey cfg}, valuesFound = [], whoasked = asker, \<dots> = job\<rparr>"

definition RouterLookup_Validate :: "'srv dht_config \<Rightarrow> 'srv dht_world \<Rightarrow> 'srv router_tx \<Rightarrow> 'srv RouterContact \<Rightarrow> bool" where
  "RouterLookup_Validate cfg w t rc = RouterContact_Verify (cfg_env cfg) (cfg_bogons cfg) rc (clock w) True"

definition RouterLookup_Start :: "'srv router_tx \<Rightarrow> TXOwner \<Rightarrow> 'srv dht_world \<Rightarrow> 'srv dht_world" where
  "RouterLookup_Start t peer w = DHTSendTo (tx_node peer) (FindRouterMsg (FindRouter_for (tx_id peer) (target t))) w"

definition call_router_handler ::
  "'srv dht_config \<Rightarrow> router_handler option \<Rightarrow> 'srv RouterContact list \<Rightarrow> 'srv dht_world \<Rightarrow> 'srv dht_world" where
  "call_router_handler cfg h results w =
     (case h of
        None \<Rightarrow> w
      | Some (RC_Result remote) \<Rightarrow> HandleDHTLookupResult cfg remote results w
      | Some Explore_Result \<Rightarrow> HandleDHTLookupForExplore cfg results w)"

definition newest_checked ::
  "'srv dht_config \<Rightarrow> 'srv RouterContact list \<Rightarrow> 'srv dht_world \<Rightarrow> 'srv RouterContact \<times> 'srv dht_world" where
  "newest_checked cfg rcs w = fold (\<lambda>rc (found, w).
       if RouterContact_OtherIsNewer found rc
       then let (ok, w') = CheckRC cfg rc w in (if ok then rc else found, w')
       else (found, w)) rcs (new_RouterContact (cfg_netid cfg), w)"

definition RecursiveRouterLookup_SendReply ::
  "'srv dht_config \<Rightarrow> router_handler option \<Rightarrow> 'srv router_tx \<Rightarrow> 'srv dht_world \<Rightarrow> 'srv dht_world" where
  "RecursiveRouterLookup_SendReply cfg resultHandler t w =
     (let (results, w1) = (if valuesFound t \<noteq> []
                           then let (found, w1) = newest_checked cfg (valuesFound t) w in ([found], w1)
                           else ([], w));
          w2 = call_router_handler cfg resultHandler results w1
      in if tx_node (whoasked t) \<noteq> ourKey cfg
         then DHTSendTo (tx_node (whoasked t))
                (GotRouterMsg (GotRouter_results zero_key (tx_id (whoasked t)) results False)) w2
         else w2)"

text \<open>The comparison is the other way round from the one above.\<close>

definition LocalRouterLookup_SendReply ::
  "'srv dht_config \<Rightarrow> pathid \<Rightarrow> 'srv router_tx \<Rightarrow> 'srv dht_world \<Rightarrow> 'srv dht_world" where
  "LocalRouterLookup_SendReply cfg localPath t w =
     (if \<not> cfg_path cfg localPath then w
      else
        let results = (if valuesFound t \<noteq> []
              then let found = foldl (\<lambda>found rc. if RouterContact_OtherIsNewer rc found then rc else found)
                                 (new_RouterContact (cfg_netid cfg)) (valuesFound t)
                   in if \<not> IsZero (rc_pubkey found) then [found] else []
              else [])
        in emit (Sent_On_Path localPath
             (GotRouterMsg (GotRouter_results (ourKey cfg) (tx_id (whoasked t)) results True))) w)"

definition RouterLookup_SendReply :: "'srv dht_config \<Rightarrow> 'srv router_tx \<Rightarrow> 'srv dht_world \<Rightarrow> 'srv dht_world result" where
  "RouterLookup_SendReply cfg t w =
     Inr (case TX.more t of
            RecursiveRouterLookup h \<Rightarrow> RecursiveRouterLookup_SendReply cfg h t w
          | LocalRouterLookup path \<Rightarrow> LocalRouterLookup_SendReply cfg path t w)"

definition router_class :: "'srv dht_config \<Rightarrow> (key, 'srv RouterContact, router_job, 'srv dht_world) TX_class" where
  "router_class cfg = \<lparr>Validate = RouterLookup_Validate cfg, Start = RouterLookup_Start,
     SendReply = RouterLookup_SendReply cfg\<rparr>"

type_synonym 'srv router_holder = "(key, 'srv RouterContact, router_job) TXHolder"

definition DHT_TIMEOUT :: llarp_time_t where
  "DHT_TIMEOUT = 15000"

definition next_id :: "'srv dht_world \<Rightarrow> u64 \<times> 'srv dht_world" where
  "next_id w = (ids w + 1, w\<lparr>ids := ids w + 1\<rparr>)"

definition new_router_lookup ::
  "'srv dht_config \<Rightarrow> key \<Rightarrow> TXOwner \<Rightarrow> key \<Rightarrow> router_job \<Rightarrow> 'srv router_holder \<times> 'srv dht_world
     \<Rightarrow> ('srv router_holder \<times> 'srv dht_world) result" where
  "new_router_lookup cfg t asker askpeer job = (\<lambda>(h, w).
     let (i, w1) = next_id w
     in NewTX (router_class cfg) \<lparr>tx_node = askpeer, tx_id = i\<rparr> t (new_router_tx cfg asker t job)
          (clock w) DHT_TIMEOUT (h, w1))"

definition LookupRouterRecursive ::
  "'srv dht_config \<Rightarrow> key \<Rightarrow> key \<Rightarrow> u64 \<Rightarrow> key \<Rightarrow> router_handler option \<Rightarrow> 'srv router_holder \<times> 'srv dht_world
     \<Rightarrow> ('srv router_holder \<times> 'srv dht_world) result" where
  "LookupRouterRecursive cfg t asker txid askpeer handler s =
     new_router_lookup cfg t \<lparr>tx_node = asker, tx_id = txid\<rparr> askpeer (RecursiveRouterLookup handler) s"

definition LookupRouterForPath ::
  "'srv dht_config \<Rightarrow> key \<Rightarrow> u64 \<Rightarrow> pathid \<Rightarrow> key \<Rightarrow> 'srv router_holder \<times> 'srv dht_world
     \<Rightarrow> ('srv router_holder \<times> 'srv dht_world) result" where
  "LookupRouterForPath cfg t txid path askpeer s =
     new_router_lookup cfg t \<lparr>tx_node = ourKey cfg, tx_id = txid\<rparr> askpeer (LocalRouterLookup path) s"

definition LookupRouter ::
  "'srv dht_config \<Rightarrow> key \<Rightarrow> router_handler option \<Rightarrow> 'srv router_holder \<times> 'srv dht_world
     \<Rightarrow> (bool \<times> 'srv router_holder \<times> 'srv dht_world) result" where
  "LookupRouter cfg t handler s =
     (let (found, askpeer) = FindClosest t zero_key (dht_nodes (snd s))
      in if \<not> found then Inr (False, s)
         else bindE (LookupRouterRecursive cfg t (ourKey cfg) 0 askpeer handler s) (\<lambda>s'. Inr (True, s')))"

section \<open>Exploration\<close>

type_synonym 'srv explore_state = "'srv router_holder \<times> 'srv dht_world"

definition new_explore_tx :: "key \<Rightarrow> (key, key) TX" where
  "new_explore_tx peer = \<lparr>target = peer, peersAsked = {}, valuesFound = [], whoasked = no_owner\<rparr>"

definition ExploreNetworkJob_Start :: "'srv dht_config \<Rightarrow> (key, key) TX \<Rightarrow> TXOwner \<Rightarrow> 'srv explore_state \<Rightarrow> 'srv explore_state" where
  "ExploreNetworkJob_Start cfg t peer = (\<lambda>(h, w).
     (h, DHTSendTo (tx_node peer) (FindRouterMsg (FindRouter_explore (tx_id peer) (cfg_random cfg (tx_id peer)))) w))"

fun explore_reply :: "'srv dht_config \<Rightarrow> key list \<Rightarrow> 'srv explore_state \<Rightarrow> 'srv explore_state result" where
  "explore_reply cfg [] s = Inr s"
| "explore_reply cfg (pk # pks) s =
     (if NodeDB_Has pk (nodedb (snd s)) then explore_reply cfg pks s
      else bindE (LookupRouter cfg pk (Some Explore_Result) s) (\<lambda>(_, s'). explore_reply cfg pks s'))"

definition explore_class :: "'srv dht_config \<Rightarrow> (key, key, unit, 'srv explore_state) TX_class" where
  "explore_class cfg = \<lparr>Validate = \<lambda>_ _ _. True, Start = ExploreNetworkJob_Start cfg,
     SendReply = \<lambda>t s. explore_reply cfg (valuesFound t) s\<rparr>"

section \<open>Introduction set lookups\<close>

datatype intro_job =
    ServiceAddressLookup key u32 "callback option"
  | LocalServiceAddressLookup key u32 pathid
  | PublishServiceJob EncryptedIntroSet u64
  | LocalPublishServiceJob EncryptedIntroSet u64 pathid u64

type_synonym intro_tx = "(TXOwner, EncryptedIntroSet, intro_job) TX_scheme"

definition new_intro_tx :: "'srv dht_config \<Rightarrow> TXOwner \<Rightarrow> intro_job \<Rightarrow> intro_tx" where
  "new_intro_tx cfg asker job =
     \<lparr>target = asker,
      peersAsked = (case job of ServiceAddressLookup _ _ _ \<Rightarrow> {ourKey cfg} | LocalServiceAddressLookup _ _ _ \<Rightarrow> {ourKey cfg} | _ \<Rightarrow> {}),
      valuesFound = [], whoasked = asker, \<dots> = job\<rparr>"

definition service_Validate :: "'srv dht_config \<Rightarrow> key \<Rightarrow> 'srv dht_world \<Rightarrow> EncryptedIntroSet \<Rightarrow> bool" where
  "service_Validate cfg location w val =
     (if \<not> EncryptedIntroSet_Verify (cfg_verify cfg) val (clock w) then False
      else if derivedSigningKey val \<noteq> location then False else True)"

definition publish_Validate :: "'srv dht_config \<Rightarrow> EncryptedIntroSet \<Rightarrow> 'srv dht_world \<Rightarrow> EncryptedIntroSet \<Rightarrow> bool" where
  "publish_Validate cfg introset w val =
     (if derivedSigningKey val \<noteq> derivedSigningKey introset then False
      else EncryptedIntroSet_Verify (cfg_verify cfg) val (clock w))"

fun intro_Validate :: "'srv dht_config \<Rightarrow> 'srv dht_world \<Rightarrow> intro_job \<Rightarrow> EncryptedIntroSet \<Rightarrow> bool" where
  "intro_Validate cfg w (ServiceAddressLookup location _ _) val = service_Validate cfg location w val"
| "intro_Validate cfg w (LocalServiceAddressLookup location _ _) val = service_Validate cfg location w val"
| "intro_Validate cfg w (PublishServiceJob introset _) val = publish_Validate cfg introset w val"
| "intro_Validate cfg w (LocalPublishServiceJob introset _ _ _) val = publish_Validate cfg introset w val"

fun intro_request :: "intro_job \<Rightarrow> u64 \<Rightarrow> 'srv dht_message" where
  "intro_request (ServiceAddressLookup location order _) txid = FindIntroMsg (FindIntro_for txid location (ucast order))"
| "intro_request (LocalServiceAddressLookup location order _) txid = FindIntroMsg (FindIntro_for txid location (ucast order))"
| "intro_request (PublishServiceJob introset order) txid = PublishIntroMsg (PublishIntro_of introset txid False order)"
| "intro_request (LocalPublishServiceJob introset order _ _) txid = PublishIntroMsg (PublishIntro_of introset txid False order)"

definition newest_introset :: "EncryptedIntroSet list \<Rightarrow> EncryptedIntroSet list" where
  "newest_introset xs =
     (if xs \<noteq> []
      then [foldl (\<lambda>found introset. if EncryptedIntroSet_OtherIsNewer found introset then introset else found)
             new_EncryptedIntroSet xs]
      else [])"

fun intro_reply :: "'srv dht_config \<Rightarrow> intro_job \<Rightarrow> intro_tx \<Rightarrow> 'srv dht_world \<Rightarrow> 'srv dht_world" where
  "intro_reply cfg (ServiceAddressLookup location order handleResult) t w =
     (let results = newest_introset (valuesFound t);
          w1 = (case handleResult of None \<Rightarrow> w | Some cb \<Rightarrow> emit (Intro_Callback cb results) w)
      in DHTSendTo (tx_node (whoasked t)) (GotIntroMsg (GotIntro_results results (tx_id (whoasked t)))) w1)"
| "intro_reply cfg (LocalServiceAddressLookup location order localPath) t w =
     (if \<not> cfg_path cfg localPath then w
      else emit (Sent_On_Path localPath
             (GotIntroMsg (GotIntro_results (newest_introset (valuesFound t)) (tx_id (whoasked t))))) w)"
| "intro_reply cfg (PublishServiceJob introset order) t w =
     DHTSendTo (tx_node (whoasked t)) (GotIntroMsg (GotIntro_results [introset] (tx_id (whoasked t)))) w"
| "intro_reply cfg (LocalPublishServiceJob introset order localPath txid) t w =
     (if \<not> cfg_path cfg localPath then w
      else emit (Sent_On_Path localPath (GotIntroMsg (GotIntro_results [introset] txid))) w)"

definition intro_class :: "'srv dht_config \<Rightarrow> (TXOwner, EncryptedIntroSet, intro_job, 'srv dht_world) TX_class" where
  "intro_class cfg = \<lparr>Validate = \<lambda>w t. intro_Validate cfg w (TX.more t),
     Start = \<lambda>t peer w. DHTSendTo (tx_node peer) (intro_request (TX.more t) (tx_id peer)) w,
     SendReply = \<lambda>t w. Inr (intro_reply cfg (TX.more t) t w)\<rparr>"

end
