(* ===== verification/Dht_Context.thy ===== *)
theory Dht_Context
  imports Dht_Lookups
begin

text \<open>
  The context of the DHT (\<open>llarp/dht/context.cpp\<close>), the handlers of its messages
  (\<open>HandleMessage\<close> of \<open>llarp/dht/messages\<close>) and what the lookup handler of the router does with it
  (\<open>GetRC\<close>, \<open>PeriodicUpdate\<close>, \<open>ExploreNetwork\<close> of \<open>llarp/router/rc_lookup_handler.cpp\<close>).  The state is the
  world of \<open>Rc_Lookup\<close> and the three holders of pending lookups.
\<close>

record 'srv dht_context =
  world :: "'srv dht_world"
  pendingRouterLookups :: "'srv router_holder"
  pendingIntrosetLookups :: "(TXOwner, EncryptedIntroSet, intro_job) TXHolder"
  pendingExploreLookups :: "(key, key, unit) TXHolder"

section \<open>Acting on one of the holders\<close>

definition on_routers ::
  "('srv router_holder \<times> 'srv dht_world \<Rightarrow> ('srv router_holder \<times> 'srv dht_world) result) \<Rightarrow> 'srv dht_context
     \<Rightarrow> 'srv dht_context result" where
  "on_routers f c = bindE (f (pendingRouterLookups c, world c)) (\<lambda>(h, w).
     Inr (c\<lparr>pendingRouterLookups := h, world := w\<rparr>))"

definition on_introsets ::
  "((TXOwner, EncryptedIntroSet, intro_job) TXHolder \<times> 'srv dht_world
      \<Rightarrow> ((TXOwner, EncryptedIntroSet, intro_job) TXHolder \<times> 'srv dht_world) result) \<Rightarrow> 'srv dht_context
     \<Rightarrow> 'srv dht_context result" where
  "on_introsets f c = bindE (f (pendingIntrosetLookups c, world c)) (\<lambda>(h, w).
     Inr (c\<lparr>pendingIntrosetLookups := h, world := w\<rparr>))"

definition on_explores ::
  "((key, key, unit) TXHolder \<times> 'srv explore_state \<Rightarrow> ((key, key, unit) TXHolder \<times> 'srv explore_state) result)
     \<Rightarrow> 'srv dht_context \<Rightarrow> 'srv dht_context result" where
  "on_explores f c = bindE (f (pendingExploreLookups c, (pendingRouterLookups c, world c))) (\<lambda>(h, r, w).
     Inr (c\<lparr>pendingExploreLookups := h, pendingRouterLookups := r, world := w\<rparr>))"

definition on_world :: "('srv dht_world \<Rightarrow> 'srv dht_world) \<Rightarrow> 'srv dht_context \<Rightarrow> 'srv dht_context" where
  "on_world f c = c\<lparr>world := f (world c)\<rparr>"

section \<open>Operations of the context\<close>

definition Context_Init :: "key \<Rightarrow> 'srv RCLookupHandler \<Rightarrow> 'srv NodeDB \<Rightarrow> u64 \<Rightarrow> llarp_time_t \<Rightarrow> 'srv dht_context" where
  "Context_Init us h db random now =
     \<lparr>world = \<lparr>rclookup = h, nodedb = db, dht_nodes = new_Bucket us, dht_services = new_Bucket us, ids = random,
        clock = now, events = []\<rparr>,
      pendingRouterLookups = empty_holder, pendingIntrosetLookups = empty_holder, pendingExploreLookups = empty_holder\<rparr>"

definition HasRouterLookup :: "key \<Rightarrow> 'srv dht_context \<Rightarrow> bool" where
  "HasRouterLookup t c = HasLookupFor t (pendingRouterLookups c)"

definition StoreRC :: "'srv dht_config \<Rightarrow> 'srv RouterContact \<Rightarrow> 'srv dht_context \<Rightarrow> 'srv dht_context" where
  "StoreRC cfg rc = on_world (\<lambda>w. snd (CheckRC cfg rc w))"

definition GetRCFromNodeDB :: "key \<Rightarrow> 'srv dht_context \<Rightarrow> 'srv RouterContact option" where
  "GetRCFromNodeDB k c = NodeDB_Get k (nodedb (world c))"

definition GetIntroSetByLocation :: "key \<Rightarrow> 'srv dht_context \<Rightarrow> EncryptedIntroSet option" where
  "GetIntroSetByLocation k c =
     omap_find (XorMetric (us_key (dht_services (world c)))) k (nodes (dht_services (world c)))"

definition ExploreNetworkVia :: "'srv dht_config \<Rightarrow> key \<Rightarrow> 'srv dht_context \<Rightarrow> 'srv dht_context result" where
  "ExploreNetworkVia cfg askpeer c =
     (let (txid, w) = next_id (world c)
      in on_explores (NewTX (explore_class cfg) \<lparr>tx_node = askpeer, tx_id = txid\<rparr> askpeer (new_explore_tx askpeer)
            (clock w) DHT_TIMEOUT) (c\<lparr>world := w\<rparr>))"

fun explore_all :: "'srv dht_config \<Rightarrow> key list \<Rightarrow> 'srv dht_context \<Rightarrow> 'srv dht_context result" where
  "explore_all cfg [] c = Inr c"
| "explore_all cfg (k # ks) c = bindE (ExploreNetworkVia cfg k c) (explore_all cfg ks)"

text \<open>The result \<open>None\<close> says that the draws were used up before \<open>N\<close> different peers were found.\<close>

definition Explore :: "'srv dht_config \<Rightarrow> u64 list \<Rightarrow> nat \<Rightarrow> 'srv dht_context \<Rightarrow> 'srv dht_context option result" where
  "Explore cfg draws N c =
     (case GetManyRandom draws {} N (dht_nodes (world c)) of
        None \<Rightarrow> Inr None
      | Some (True, peers) \<Rightarrow> bindE (explore_all cfg (sorted_list_of_set peers) c) (\<lambda>c'. Inr (Some c'))
      | Some (False, _) \<Rightarrow> Inr (Some c))"

definition new_intro_lookup ::
  "'srv dht_config \<Rightarrow> key \<Rightarrow> (TXOwner \<Rightarrow> TXOwner \<times> intro_job) \<Rightarrow> llarp_time_t \<Rightarrow> 'srv dht_context \<Rightarrow> 'srv dht_context result" where
  "new_intro_lookup cfg askpeer mk timeout c =
     (let (i, w) = next_id (world c);
          peer = \<lparr>tx_node = askpeer, tx_id = i\<rparr>;
          (k, job) = mk peer
      in on_introsets (NewTX (intro_class cfg) peer k (new_intro_tx cfg k job) (clock w) timeout) (c\<lparr>world := w\<rparr>))"

definition LookupIntroSetForPath :: "'srv dht_config \<Rightarrow> key \<Rightarrow> u64 \<Rightarrow> pathid \<Rightarrow> key \<Rightarrow> u64 \<Rightarrow> 'srv dht_context \<Rightarrow> 'srv dht_context result" where
  "LookupIntroSetForPath cfg loc txid path askpeer relayOrder =
     new_intro_lookup cfg askpeer (\<lambda>_. (\<lparr>tx_node = ourKey cfg, tx_id = txid\<rparr>,
        LocalServiceAddressLookup loc (ucast relayOrder) path)) DHT_TIMEOUT"

definition PropagateIntroSetTo :: "'srv dht_config \<Rightarrow> key \<Rightarrow> u64 \<Rightarrow> EncryptedIntroSet \<Rightarrow> key \<Rightarrow> u64 \<Rightarrow> 'srv dht_context \<Rightarrow> 'srv dht_context result" where
  "PropagateIntroSetTo cfg src txid introset tellpeer relayOrder =
     new_intro_lookup cfg tellpeer (\<lambda>_. (\<lparr>tx_node = src, tx_id = txid\<rparr>, PublishServiceJob introset relayOrder)) DHT_TIMEOUT"

definition PropagateLocalIntroSet :: "'srv dht_config \<Rightarrow> pathid \<Rightarrow> u64 \<Rightarrow> EncryptedIntroSet \<Rightarrow> key \<Rightarrow> u64 \<Rightarrow> 'srv dht_context \<Rightarrow> 'srv dht_context result" where
  "PropagateLocalIntroSet cfg path txid introset tellpeer relayOrder =
     new_intro_lookup cfg tellpeer (\<lambda>peer. (peer, LocalPublishServiceJob introset relayOrder path txid)) DHT_TIMEOUT"

definition LookupIntroSetRelayed :: "'srv dht_config \<Rightarrow> key \<Rightarrow> key \<Rightarrow> u64 \<Rightarrow> key \<Rightarrow> u64 \<Rightarrow> callback option \<Rightarrow> 'srv dht_context \<Rightarrow> 'srv dht_context result" where
  "LookupIntroSetRelayed cfg loc asker txid askpeer relayOrder handler =
     new_intro_lookup cfg askpeer (\<lambda>_. (\<lparr>tx_node = asker, tx_id = txid\<rparr>, ServiceAddressLookup loc (ucast relayOrder) handler)) DHT_TIMEOUT"

definition LookupIntroSetDirect :: "'srv dht_config \<Rightarrow> key \<Rightarrow> key \<Rightarrow> u64 \<Rightarrow> key \<Rightarrow> callback option \<Rightarrow> 'srv dht_context \<Rightarrow> 'srv dht_context result" where
  "LookupIntroSetDirect cfg loc asker txid askpeer handler =
     new_intro_lookup cfg askpeer (\<lambda>_. (\<lparr>tx_node = asker, tx_id = txid\<rparr>, ServiceAddressLookup loc 0 handler)) 1000"

definition LookupRouterRelayed ::
  "'srv dht_config \<Rightarrow> key \<Rightarrow> u64 \<Rightarrow> key \<Rightarrow> bool \<Rightarrow> 'srv dht_context \<Rightarrow> ('srv dht_message list \<times> 'srv dht_context) result" where
  "LookupRouterRelayed cfg requester txid t recursive c =
     (let ask = (\<lambda>next. bindE (on_routers (LookupRouterRecursive cfg t requester txid next None) c) (\<lambda>c'. Inr ([], c')))
      in if t = ourKey cfg then Inr ([GotRouterMsg (GotRouter_results requester txid [our_rc cfg] False)], c)
         else if \<not> SessionIsAllowed t (rclookup (world c))
         then Inr ([GotRouterMsg (GotRouter_results requester txid [] False)], c)
         else
           let rc = FindClosestTo (cfg_netid cfg) t (nodedb (world c)); next = rc_pubkey rc
           in if next = t then
                if RouterContact_ExpiresSoon rc (clock (world c)) 60000 then ask next
                else Inr ([GotRouterMsg (GotRouter_results requester txid [rc] False)], c)
              else if recursive then
                if key_xor next t < key_xor (ourKey cfg) t then ask next
                else Inr ([GotRouterMsg (GotRouter_results requester txid [] False)], c)
              else Inr ([GotRouterMsg (GotRouter_closer requester next txid False)], c))"

definition HandleExploritoryRouterLookup ::
  "'srv dht_config \<Rightarrow> key \<Rightarrow> u64 \<Rightarrow> key \<Rightarrow> 'srv dht_context \<Rightarrow> bool \<times> 'srv dht_message list" where
  "HandleExploritoryRouterLookup cfg requester txid t c =
     (let nodeCount = Bucket_size (dht_nodes (world c))
      in if nodeCount = 0 then (False, [])
         else
           let (ok, foundRouters) = GetManyNearExcluding t {} (min nodeCount 4) {ourKey cfg, requester} (dht_nodes (world c))
           in if \<not> ok then (False, [])
              else (True, [GotRouterMsg (GotRouter_near txid
                     (filter (\<lambda>k. \<not> cfg_bad cfg k) (sorted_list_of_set foundRouters)) False)]))"

definition CleanupTX :: "'srv dht_config \<Rightarrow> 'srv dht_context \<Rightarrow> 'srv dht_context result" where
  "CleanupTX cfg c =
     (let now = clock (world c)
      in bindE (on_routers (Expire (router_class cfg) now) c) (\<lambda>c1.
         bindE (on_introsets (Expire (intro_class cfg) now) c1) (\<lambda>c2.
         on_explores (Expire (explore_class cfg) now) c2)))"

definition handle_cleaner_timer :: "'srv dht_config \<Rightarrow> 'srv dht_context \<Rightarrow> 'srv dht_context result" where
  "handle_cleaner_timer cfg c =
     bindE (CleanupTX cfg c) (\<lambda>c1.
       let now = clock (world c1);
           w = world c1;
           w1 = w\<lparr>dht_nodes := (dht_nodes w)\<lparr>nodes := filter (\<lambda>e. \<not> RouterContact_IsExpired (snd e) now) (nodes (dht_nodes w))\<rparr>\<rparr>;
           w2 = w1\<lparr>dht_services := (dht_services w1)\<lparr>nodes := filter (\<lambda>e. \<not> EncryptedIntroSet_IsExpired (snd e) now) (nodes (dht_services w1))\<rparr>\<rparr>
       in Inr (c1\<lparr>world := w2\<rparr>))"

section \<open>Handling messages\<close>

type_synonym 'srv handled = "(bool \<times> 'srv dht_message list \<times> 'srv dht_context) result"

definition RelayedFindRouter_HandleMessage :: "'srv dht_config \<Rightarrow> FindRouterMessage \<Rightarrow> 'srv dht_context \<Rightarrow> 'srv handled" where
  "RelayedFindRouter_HandleMessage cfg m c =
     (let k = fr_targetKey m in
      if k = ourKey cfg then
        (if cfg_path cfg (msg_pathID m)
         then Inr (True, [GotRouterMsg (GotRouter_results k (fr_txid m) [our_rc cfg] False)], c)
         else Inr (False, [], c))
      else if \<not> SessionIsAllowed k (rclookup (world c))
      then Inr (True, [GotRouterMsg (GotRouter_results k (fr_txid m) [] False)], c)
      else
        let rc = FindClosestTo (cfg_netid cfg) k (nodedb (world c))
        in if rc_pubkey rc = k then Inr (True, [GotRouterMsg (GotRouter_results k (fr_txid m) [rc] False)], c)
           else bindE (on_routers (LookupRouterForPath cfg k (fr_txid m) (msg_pathID m) (rc_pubkey rc)) c)
                  (\<lambda>c'. Inr (True, [], c')))"

definition FindRouter_HandleMessage :: "'srv dht_config \<Rightarrow> FindRouterMessage \<Rightarrow> 'srv dht_context \<Rightarrow> 'srv handled" where
  "FindRouter_HandleMessage cfg m c =
     (if \<not> allowTransit cfg then Inr (False, [], c)
      else if HasPendingLookupFrom \<lparr>tx_node = msg_From m, tx_id = fr_txid m\<rparr> (pendingRouterLookups c) then Inr (False, [], c)
      else if IsZero (fr_targetKey m) then Inr (False, [], c)
      else if fr_exploritory m then
        (let (ok, replies) = HandleExploritoryRouterLookup cfg (msg_From m) (fr_txid m) (fr_targetKey m) c
         in Inr (ok, replies, c))
      else bindE (LookupRouterRelayed cfg (msg_From m) (fr_txid m) (fr_targetKey m) (\<not> fr_iterative m) c)
             (\<lambda>(replies, c'). Inr (True, replies, c')))"

fun check_rcs :: "'srv dht_config \<Rightarrow> u64 \<Rightarrow> 'srv RouterContact list \<Rightarrow> 'srv dht_world \<Rightarrow> bool \<times> 'srv dht_world" where
  "check_rcs cfg txid [] w = (True, w)"
| "check_rcs cfg txid (rc # rcs) w =
     (let (ok, w1) = CheckRC cfg rc w
      in if \<not> ok then (False, w1)
         else check_rcs cfg txid rcs (if txid = 0 then emit (Gossip rc) w1 else w1))"

definition GotRouter_HandleMessage :: "'srv dht_config \<Rightarrow> 'srv GotRouterMessage \<Rightarrow> 'srv dht_context \<Rightarrow> 'srv handled" where
  "GotRouter_HandleMessage cfg m c =
     (if gr_relayed m then
        (case cfg_pathset cfg (msg_pathID m) of
           None \<Rightarrow> Inr (False, [], c)
         | Some ok \<Rightarrow> Inr (ok, [], on_world (emit (To_Pathset (msg_pathID m) (GotRouterMsg m))) c))
      else
        let owner = \<lparr>tx_node = msg_From m, tx_id = gr_txid m\<rparr>
        in if HasPendingLookupFrom owner (pendingExploreLookups c) then
             bindE (if gr_nearKeys m = [] then on_explores (NotFound (explore_class cfg) owner) c
                    else on_explores (Found (explore_class cfg) owner (msg_From m) (gr_nearKeys m)) c)
               (\<lambda>c'. Inr (True, [], c'))
           else if HasPendingLookupFrom owner (pendingRouterLookups c) then
             (if gr_foundRCs m = [] then bindE (on_routers (NotFound (router_class cfg) owner) c) (\<lambda>c'. Inr (True, [], c'))
              else if IsZero (rc_pubkey (gr_foundRCs m ! 0)) then Inr (False, [], c)
              else bindE (on_routers (Found (router_class cfg) owner (rc_pubkey (gr_foundRCs m ! 0)) (gr_foundRCs m)) c)
                     (\<lambda>c'. Inr (True, [], c')))
           else
             let (ok, w) = check_rcs cfg (gr_txid m) (gr_foundRCs m) (world c)
             in Inr (ok, [], c\<lparr>world := w\<rparr>))"

definition IntroSetStorageRedundancy :: nat where
  "IntroSetStorageRedundancy = 2 * 2"

definition got_intro :: "EncryptedIntroSet list \<Rightarrow> u64 \<Rightarrow> 'srv dht_message" where
  "got_intro xs txid = GotIntroMsg (GotIntro_results xs txid)"

definition FindIntro_HandleMessage :: "'srv dht_config \<Rightarrow> FindIntroMessage \<Rightarrow> 'srv dht_context \<Rightarrow> 'srv handled" where
  "FindIntro_HandleMessage cfg m c =
     (if HasPendingLookupFrom \<lparr>tx_node = msg_From m, tx_id = fi_txID m\<rparr> (pendingIntrosetLookups c) then Inr (False, [], c)
      else if \<not> Tag_Empty (fi_tagName m) then Inr (False, [], c)
      else if IsZero (fi_location m) then Inr (True, [got_intro [] (fi_txID m)], c)
      else if fi_relayed m then
        (if unat (fi_relayOrder m) \<ge> IntroSetStorageRedundancy then Inr (True, [got_intro [] (fi_txID m)], c)
         else
           let closestRCs = FindManyClosestTo (fi_location m) IntroSetStorageRedundancy (nodedb (world c))
           in if length closestRCs \<le> unat (fi_relayOrder m) then Inr (True, [got_intro [] (fi_txID m)], c)
              else bindE (LookupIntroSetForPath cfg (fi_location m) (fi_txID m) (msg_pathID m)
                            (rc_pubkey (closestRCs ! unat (fi_relayOrder m))) 0 c)
                     (\<lambda>c'. Inr (True, [], c')))
      else (case GetIntroSetByLocation (fi_location m) c of
              Some introset \<Rightarrow> Inr (True, [got_intro [introset] (fi_txID m)], c)
            | None \<Rightarrow> Inr (True, [got_intro [] (fi_txID m)], c)))"

definition GotIntro_HandleMessage :: "'srv dht_config \<Rightarrow> GotIntroMessage \<Rightarrow> 'srv dht_context \<Rightarrow> 'srv handled" where
  "GotIntro_HandleMessage cfg m c =
     (if list_ex (\<lambda>introset. \<not> EncryptedIntroSet_Verify (cfg_verify cfg) introset (clock (world c))) (gi_found m)
      then Inr (False, [], c)
      else
        let owner = \<lparr>tx_node = msg_From m, tx_id = gi_txid m\<rparr>
        in case GetPendingLookupFrom owner (pendingIntrosetLookups c) of
             Some serviceLookup \<Rightarrow>
               bindE (if gi_found m \<noteq> []
                      then on_introsets (Found (intro_class cfg) owner (target serviceLookup) (gi_found m)) c
                      else on_introsets (NotFound (intro_class cfg) owner) c) (\<lambda>c'. Inr (True, [], c'))
           | None \<Rightarrow> Inr (False, [], c))"

definition RelayedGotIntro_HandleMessage :: "'srv dht_config \<Rightarrow> GotIntroMessage \<Rightarrow> 'srv dht_context \<Rightarrow> 'srv handled" where
  "RelayedGotIntro_HandleMessage cfg m c =
     (case cfg_pathset cfg (msg_pathID m) of
        Some ok \<Rightarrow> Inr (ok, [], on_world (emit (To_Pathset (msg_pathID m) (RelayedGotIntroMsg m))) c)
      | None \<Rightarrow> Inr (False, [], c))"

definition PutISNode :: "EncryptedIntroSet \<Rightarrow> 'srv dht_context \<Rightarrow> 'srv dht_context" where
  "PutISNode introset = on_world (\<lambda>w. w\<lparr>dht_services :=
     PutNode derivedSigningKey EncryptedIntroSet_OtherIsNewer introset (dht_services w)\<rparr>)"

definition PublishIntro_HandleMessage :: "'srv dht_config \<Rightarrow> PublishIntroMessage \<Rightarrow> 'srv dht_context \<Rightarrow> 'srv handled" where
  "PublishIntro_HandleMessage cfg m c =
     (let now = clock (world c); introset = pi_introset m; txID = pi_txID m;
          closestRCs = FindManyClosestTo (derivedSigningKey introset) IntroSetStorageRedundancy (nodedb (world c));
          store = Inr (True, [got_intro [introset] txID], PutISNode introset c)
      in if \<not> EncryptedIntroSet_Verify (cfg_verify cfg) introset now then Inr (True, [got_intro [] txID], c)
         else if EncryptedIntroSet_IsExpired introset (now + MAX_INTROSET_TIME_DELTA) then Inr (True, [got_intro [] txID], c)
         else if length closestRCs \<noteq> IntroSetStorageRedundancy then Inr (True, [got_intro [] txID], c)
         else if pi_relayed m then
           (if unat (pi_relayOrder m) \<ge> IntroSetStorageRedundancy then Inr (True, [got_intro [] txID], c)
            else
              let peer = rc_pubkey (closestRCs ! unat (pi_relayOrder m))
              in if peer = ourKey cfg then store
                 else bindE (PropagateLocalIntroSet cfg (msg_pathID m) txID introset peer 0 c) (\<lambda>c'. Inr (True, [], c')))
         else if list_ex (\<lambda>rc. rc_pubkey rc = ourKey cfg) closestRCs then store
         else Inr (True, [], c))"

definition FindName_HandleMessage :: "'srv dht_config \<Rightarrow> FindNameMessage \<Rightarrow> 'srv dht_context \<Rightarrow> 'srv handled" where
  "FindName_HandleMessage cfg m c =
     (if IsZero (msg_pathID m) \<or> \<not> isServiceNode (rclookup (world c)) then Inr (False, [], c)
      else bindE (new_GotNameMessage zero_key (fn_TxID m) (replicate 24 0) []) (\<lambda>r. Inr (True, [GotNameMsg r], c)))"

definition GotName_HandleMessage :: "'srv dht_config \<Rightarrow> GotNameMessage \<Rightarrow> 'srv dht_context \<Rightarrow> 'srv handled" where
  "GotName_HandleMessage cfg m c =
     (case cfg_pathset cfg (msg_pathID m) of
        None \<Rightarrow> Inr (False, [], c)
      | Some ok \<Rightarrow> Inr (ok, [], on_world (emit (To_Pathset (msg_pathID m) (GotNameMsg m))) c))"

fun HandleMessage :: "'srv dht_config \<Rightarrow> 'srv dht_message \<Rightarrow> 'srv dht_context \<Rightarrow> 'srv handled" where
  "HandleMessage cfg (FindNameMsg m) c = FindName_HandleMessage cfg m c"
| "HandleMessage cfg (GotNameMsg m) c = GotName_HandleMessage cfg m c"
| "HandleMessage cfg (FindIntroMsg m) c = FindIntro_HandleMessage cfg m c"
| "HandleMessage cfg (RelayedFindRouterMsg m) c = RelayedFindRouter_HandleMessage cfg m c"
| "HandleMessage cfg (FindRouterMsg m) c = FindRouter_HandleMessage cfg m c"
| "HandleMessage cfg (GotRouterMsg m) c = GotRouter_HandleMessage cfg m c"
| "HandleMessage cfg (PublishIntroMsg m) c = PublishIntro_HandleMessage cfg m c"
| "HandleMessage cfg (RelayedGotIntroMsg m) c = RelayedGotIntro_HandleMessage cfg m c"
| "HandleMessage cfg (GotIntroMsg m) c = GotIntro_HandleMessage cfg m c"

text \<open>A message from a client that arrived over the path \<open>pathid\<close>; the replies go back over the path.\<close>

definition RelayRequestForPath :: "'srv dht_config \<Rightarrow> pathid \<Rightarrow> 'srv dht_message \<Rightarrow> 'srv dht_context \<Rightarrow> (bool \<times> 'srv dht_context) result" where
  "RelayRequestForPath cfg path msg c =
     bindE (HandleMessage cfg msg c) (\<lambda>(ok, replies, c').
       if \<not> ok then Inr (False, c')
       else if replies \<noteq> [] then
         (if cfg_path cfg path then Inr (True, on_world (\<lambda>w. fold (\<lambda>r. emit (Sent_On_Path path r)) replies w) c')
          else Inr (False, c'))
       else Inr (True, c'))"

text \<open>
  \<open>DHTImmediateMessage::HandleMessage\<close>: the messages of one link message from \<open>peer\<close>.  The replies are
  sent together, unless one of the handlers returned false.
\<close>

fun handle_all :: "'srv dht_config \<Rightarrow> 'srv dht_message list \<Rightarrow> 'srv dht_context \<Rightarrow> 'srv handled" where
  "handle_all cfg [] c = Inr (True, [], c)"
| "handle_all cfg (m # ms) c =
     bindE (HandleMessage cfg m c) (\<lambda>(ok, replies, c1).
       bindE (handle_all cfg ms c1) (\<lambda>(ok', replies', c2). Inr (ok \<and> ok', replies @ replies', c2)))"

definition DHTImmediate_HandleMessage :: "'srv dht_config \<Rightarrow> key \<Rightarrow> 'srv dht_message list \<Rightarrow> 'srv dht_context \<Rightarrow> 'srv dht_context result" where
  "DHTImmediate_HandleMessage cfg peer msgs c =
     bindE (handle_all cfg msgs c) (\<lambda>(ok, replies, c').
       Inr (if ok then on_world (\<lambda>w. fold (\<lambda>r. emit (Sent_To peer r)) replies w) c' else c'))"

section \<open>The lookup handler of the router\<close>

definition add_callback :: "key \<Rightarrow> callback option \<Rightarrow> 'srv RCLookupHandler \<Rightarrow> 'srv RCLookupHandler" where
  "add_callback router cb h =
     (let m = map_emplace router [] (pendingCallbacks h);
          cbs = the (map_of m router)
      in h\<lparr>pendingCallbacks := (case cb of None \<Rightarrow> m | Some x \<Rightarrow> map_update router (cbs @ [x]) m)\<rparr>)"

definition set_lookup_time :: "key \<Rightarrow> 'srv dht_context \<Rightarrow> 'srv dht_context" where
  "set_lookup_time router = on_world (\<lambda>w. w\<lparr>rclookup := (rclookup w)\<lparr>routerLookupTimes :=
     (router, clock w) # map_erase router (routerLookupTimes (rclookup w))\<rparr>\<rparr>)"

definition GetRC :: "'srv dht_config \<Rightarrow> key \<Rightarrow> callback option \<Rightarrow> bool \<Rightarrow> 'srv dht_context \<Rightarrow> 'srv dht_context result" where
  "GetRC cfg router cb forceLookup c =
     (case (if forceLookup then None else NodeDB_Get router (nodedb (world c))) of
        Some remoteRC \<Rightarrow>
          let c1 = (case cb of None \<Rightarrow> c | Some x \<Rightarrow> on_world (emit (Callback x router (Some remoteRC) RC_Success)) c)
          in Inr (on_world (FinalizeRequest router (Some remoteRC) RC_Success) c1)
      | None \<Rightarrow>
          let shouldDoLookup = \<not> HavePendingLookup router (rclookup (world c));
              c1 = on_world (\<lambda>w. w\<lparr>rclookup := add_callback router cb (rclookup w)\<rparr>) c
          in if \<not> shouldDoLookup then Inr c1
             else if \<not> isServiceNode (rclookup (world c)) \<and> cfg_anon cfg router
             then Inr (on_world (emit (Anonymous_Lookup router)) c1)
             else bindE (LookupRouter cfg router (Some (RC_Result router)) (pendingRouterLookups c1, world c1)) (\<lambda>(sent, h, w).
                    let c2 = c1\<lparr>pendingRouterLookups := h, world := w\<rparr>
                    in Inr (if \<not> sent then on_world (FinalizeRequest router None RC_RouterNotFound) c2
                            else set_lookup_time router c2)))"

fun get_all :: "'srv dht_config \<Rightarrow> key list \<Rightarrow> 'srv dht_context \<Rightarrow> 'srv dht_context result" where
  "get_all cfg [] c = Inr c"
| "get_all cfg (k # ks) c = bindE (GetRC cfg k None True c) (get_all cfg ks)"

definition rc_stale_age :: llarp_time_t where
  "rc_stale_age = 4 * 60 * 60 * 1000"

definition rc_update_interval :: llarp_time_t where
  "rc_update_interval = rc_stale_age - 5 * 60 * 1000"

definition PeriodicUpdate :: "oxenc_names \<Rightarrow> 'srv dht_config \<Rightarrow> llarp_time_t \<Rightarrow> 'srv dht_context \<Rightarrow> 'srv dht_context result" where
  "PeriodicUpdate ox cfg now c =
     (let routersToLookUp = remdups (map rc_pubkey (filter (\<lambda>rc. \<not> HavePendingLookup (rc_pubkey rc) (rclookup (world c)))
            (VisitInsertedBefore (now - rc_update_interval) (nodedb (world c)))))
      in bindE (get_all cfg routersToLookUp c) (\<lambda>c1. Inr (on_world (\<lambda>w.
           w\<lparr>nodedb := RemoveStaleRCs ox (rc_pubkey ` set (bootstrapRCList (rclookup w))) (now - rc_stale_age) (nodedb w)\<rparr>) c1)))"

text \<open>
  \<open>peers\<close> are the contacts of the established sessions; \<open>shuffle\<close> is \<open>std::shuffle\<close>.  A router without an
  entry in \<open>_routerLookupTimes\<close> gets one with time 0.
\<close>

definition ExploreNetwork ::
  "(key list \<Rightarrow> key list) \<Rightarrow> 'srv RouterContact list \<Rightarrow> 'srv dht_config \<Rightarrow> 'srv dht_context \<Rightarrow> 'srv dht_context result" where
  "ExploreNetwork shuffle peers cfg c =
     (let h = rclookup (world c); known = NumLoaded (nodedb (world c));
          via = (if bootstrapRCList h = [] \<and> known = 0 then []
                 else if known \<le> length (bootstrapRCList h) then map rc_pubkey (bootstrapRCList h) else [])
      in bindE (explore_all cfg via c) (\<lambda>c1.
        if useWhitelist h then
          let w = world c1; times = (\<lambda>r. case map_of (routerLookupTimes (rclookup w)) r of None \<Rightarrow> 0 | Some t \<Rightarrow> t);
              wanted = filter (\<lambda>r. clock w > times r + 10 * 60 * 1000 \<and> \<not> NodeDB_Has r (nodedb w)) (whitelistRouters (rclookup w));
              chosen = (if length wanted > 5 then take 5 (shuffle wanted) else wanted);
              c2 = on_world (\<lambda>w. w\<lparr>rclookup := (rclookup w)\<lparr>routerLookupTimes :=
                     fold (\<lambda>r. map_emplace r 0) (whitelistRouters (rclookup w)) (routerLookupTimes (rclookup w))\<rparr>\<rparr>) c1
          in get_all cfg chosen c2
        else if isServiceNode h then Inr c1
        else explore_all cfg (map rc_pubkey (filter (\<lambda>rc. IsPublicRouter rc \<and> \<not> RemoteInBootstrap (rc_pubkey rc) h) peers)) c1))"

end
