(* ===== verification/Typed_Codec.thy ===== *)
theory Typed_Codec
  imports Tagged_Codec
begin

text \<open>
  What holds of an object whatever bytes it was decoded from.  Byte arrays of a fixed size are lists in
  this model, so that their size is such a fact: it is kept by every field reader, hence by every
  \<open>DecodeKey\<close> and by the loop over a dictionary.
\<close>

section \<open>Invariants of decoding\<close>

definition key_typed :: "('s \<Rightarrow> bool) \<Rightarrow> ('s \<Rightarrow> buf \<Rightarrow> buf \<Rightarrow> (bool \<times> 's \<times> buf) result) \<Rightarrow> bool" where
  "key_typed P D \<longleftrightarrow> (\<forall>s k b s' b'. P s \<longrightarrow> D s k b = Inr (True, s', b') \<longrightarrow> P s')"

definition value_typed :: "('s \<Rightarrow> bool) \<Rightarrow> ('s \<Rightarrow> buf \<Rightarrow> (bool \<times> 's \<times> buf) result) \<Rightarrow> bool" where
  "value_typed P f \<longleftrightarrow> (\<forall>s b s' b'. P s \<longrightarrow> f s b = Inr (True, s', b') \<longrightarrow> P s')"

definition field_typed :: "('s \<Rightarrow> bool) \<Rightarrow> 's field \<Rightarrow> bool" where
  "field_typed P f \<longleftrightarrow> (\<forall>key s rd b s' rd' b'. P s \<longrightarrow> f key s rd b = Inr (True, s', rd', b') \<longrightarrow> P s')"

fun step_typed :: "('s \<Rightarrow> bool) \<Rightarrow> 's step \<Rightarrow> bool" where
  "step_typed P (Field f) = field_typed P f"
| "step_typed P (Return_On k v) = value_typed P v"

text \<open>The values a reader can return.\<close>

definition returns :: "(buf \<Rightarrow> ('v option \<times> buf) result) \<Rightarrow> 'v \<Rightarrow> bool" where
  "returns dec v \<longleftrightarrow> (\<exists>b b'. dec b = Inr (Some v, b'))"

named_theorems typed \<open>readers that keep an invariant\<close>

lemma returnsI: "dec b = Inr (Some v, b') \<Longrightarrow> returns dec v"
  by (auto simp: returns_def)

lemma returns_aligned [simp]: "returns (aligned_BDecode n) v \<Longrightarrow> length v = n"
  by (auto simp: returns_def aligned_BDecode_def bindE_eq_Inr split: option.splits if_splits)

section \<open>Fields and values\<close>

lemma field_int_typed [typed]:
  assumes "\<And>s v. P s \<Longrightarrow> P (upd v s)"
  shows "field_typed P (field_int k cast get upd)"
  using assms unfolding field_typed_def field_int_def BEncodeMaybeReadDictInt_def
  by (auto split: bindE_splits if_splits option.splits)

lemma field_version_typed [typed]:
  assumes "\<And>s v. P s \<Longrightarrow> P (upd v s)"
  shows "field_typed P (field_version k e get upd)"
  using assms unfolding field_typed_def field_version_def BEncodeMaybeVerifyVersion_def
  by (auto split: bindE_splits if_splits option.splits)

lemma field_entry_typed [typed]:
  assumes "\<And>s v. P s \<Longrightarrow> returns dec v \<Longrightarrow> P (upd v s)" and "\<And>s. upd (get s) s = s"
  shows "field_typed P (field_entry k dec get upd)"
  using assms unfolding field_typed_def field_entry_def BEncodeMaybeReadDictEntry_def
  by (fastforce simp: returns_def split: bindE_splits if_splits option.splits)

lemma item_value_typed [typed]:
  assumes "\<And>s v. P s \<Longrightarrow> returns dec v \<Longrightarrow> P (upd s v)"
  shows "value_typed P (item_value dec upd)"
  using assms unfolding value_typed_def item_value_def
  by (fastforce simp: returns_def split: bindE_splits option.splits)

lemma int_value_typed [typed]:
  assumes "\<And>s v. P s \<Longrightarrow> P (upd s v)"
  shows "value_typed P (int_value upd)"
  using assms unfolding value_typed_def int_value_def by (auto split: bindE_splits option.splits)

lemma checked_int_typed [typed]:
  assumes "\<And>s v. P s \<Longrightarrow> test v \<Longrightarrow> P (upd s v)"
  shows "value_typed P (checked_int test upd)"
  using assms unfolding value_typed_def checked_int_def by (auto split: bindE_splits option.splits if_splits)

lemma string_value_typed [typed]:
  assumes "\<And>s v. P s \<Longrightarrow> test v \<Longrightarrow> P (upd s v)"
  shows "value_typed P (string_value test upd)"
  using assms unfolding value_typed_def string_value_def by (auto split: bindE_splits option.splits if_splits)

lemma discard_value_typed [typed]: "value_typed P discard_value"
  unfolding value_typed_def discard_value_def by (auto split: bindE_splits)

section \<open>Dictionaries and lists\<close>

definition sink_typed :: "('s \<Rightarrow> bool) \<Rightarrow> 's dict_sink \<Rightarrow> bool" where
  "sink_typed P sink \<longleftrightarrow> (\<forall>s b k s' b'. P s \<longrightarrow> sink s b k = Inr (True, s', b') \<longrightarrow> P s')"

lemma sink_typedD: "sink_typed P sink \<Longrightarrow> P s \<Longrightarrow> sink s b k = Inr (True, s', b') \<Longrightarrow> P s'"
  unfolding sink_typed_def by blast

lemma read_dict_loop_typed:
  assumes "sink_typed P sink"
  shows "P s \<Longrightarrow> read_dict_loop fuel sink s b = Inr (True, s', b') \<Longrightarrow> P s'"
proof (induction fuel arbitrary: s b)
  case 0
  then show ?case by simp
next
  case (Suc fuel)
  have e: "P s'" if "read_dict_end sink s b = Inr (True, s', b')"
    using that sink_typedD [OF assms Suc.prems(1)] by (auto simp: read_dict_end_def bindE_eq_Inr split: if_splits)
  have k: "P s'" if "sink s b1 (Some k) = Inr (True, s2, b2)" "read_dict_loop fuel sink s2 b2 = Inr (True, s', b')"
    for b1 k s2 b2
    using that sink_typedD [OF assms Suc.prems(1)] Suc.IH by blast
  show ?case
    using Suc.prems(2) e k by (auto simp: bindE_eq_Inr split: if_splits option.splits prod.splits)
qed

lemma read_dict_typed:
  assumes "sink_typed P sink" and "P s" and "bencode_read_dict sink s b = Inr (True, s', b')"
  shows "P s'"
  using assms(3) read_dict_loop_typed [OF assms(1,2)]
  by (auto simp: bencode_read_dict_def read_dict_fuel_def bindE_eq_Inr simp del: read_dict_loop.simps split: if_splits)

lemma decode_dict_typed:
  assumes "key_typed P D" and "P s" and "bencode_decode_dict D s b = Inr (True, s', b')"
  shows "P s'"
proof (rule read_dict_typed [where P = P, OF _ assms(2) assms(3) [unfolded bencode_decode_dict_def]])
  show "sink_typed P (\<lambda>s b key. case key of None \<Rightarrow> Inr (True, s, b) | Some k \<Rightarrow> D s k b)"
    using assms(1) unfolding sink_typed_def key_typed_def by (auto split: option.splits)
qed

lemma object_typed:
  assumes "key_typed P D" and "P s0" and "returns (decode_object D s0) v"
  shows "P v"
  using assms(3) decode_dict_typed [OF assms(1,2)]
  by (auto simp: returns_def decode_object_def bindE_eq_Inr split: if_splits prod.splits)

lemma run_steps_typed:
  assumes "\<And>s rd b s' b'. P s \<Longrightarrow> fin s rd b = Inr (True, s', b') \<Longrightarrow> P s'"
  shows "list_all (step_typed P) st \<Longrightarrow> P s \<Longrightarrow> run_steps st fin key s rd b = Inr (True, s', b') \<Longrightarrow> P s'"
proof (induction st arbitrary: s rd b)
  case Nil
  then show ?case using assms by simp
next
  case (Cons x st)
  show ?case
  proof (cases x)
    case (Field f)
    then obtain s1 rd1 b1 where "f key s rd b = Inr (True, s1, rd1, b1)" "run_steps st fin key s1 rd1 b1 = Inr (True, s', b')"
      using Cons.prems(3) by (auto simp: bindE_eq_Inr split: if_splits prod.splits)
    moreover have "field_typed P f" using Cons.prems(1) Field by simp
    ultimately have "P s1" using Cons.prems(2) unfolding field_typed_def by blast
    then show ?thesis using Cons.IH Cons.prems(1) \<open>run_steps st fin key s1 rd1 b1 = Inr (True, s', b')\<close> by simp
  next
    case (Return_On k v)
    show ?thesis
    proof (cases "startswith key k")
      case True
      then have "v s b = Inr (True, s', b')" "value_typed P v" using Cons.prems Return_On by simp_all
      then show ?thesis using Cons.prems(2) unfolding value_typed_def by blast
    next
      case False
      then show ?thesis using Cons Return_On by simp
    qed
  qed
qed

lemma decode_key_typed [typed]:
  assumes "list_all (step_typed P) st" and "fin \<in> {return_read, return_false, read_or_discard}"
  shows "key_typed P (decode_key st fin)"
  unfolding key_typed_def decode_key_def
proof (intro allI impI)
  fix s k b s' b'
  assume p: "P s" "run_steps st fin k s False b = Inr (True, s', b')"
  show "P s'"
    by (rule run_steps_typed [OF _ assms(1) p])
      (use assms(2) in \<open>auto simp: return_read_def return_false_def read_or_discard_def bindE_eq_Inr split: if_splits prod.splits\<close>)
qed

definition list_sink_typed :: "('s \<Rightarrow> bool) \<Rightarrow> 's list_sink \<Rightarrow> bool" where
  "list_sink_typed P sink \<longleftrightarrow> (\<forall>s b k s' b'. P s \<longrightarrow> sink s b k = Inr (True, s', b') \<longrightarrow> P s')"

lemma list_sink_typedD: "list_sink_typed P sink \<Longrightarrow> P s \<Longrightarrow> sink s b k = Inr (True, s', b') \<Longrightarrow> P s'"
  unfolding list_sink_typed_def by blast

lemma read_list_loop_typed:
  assumes "list_sink_typed P sink"
  shows "P s \<Longrightarrow> read_list_loop fuel sink s b = Inr (True, s', b') \<Longrightarrow> P s'"
proof (induction fuel arbitrary: s b)
  case 0
  then show ?case by simp
next
  case (Suc fuel)
  have e: "P s'" if "read_list_end sink s b = Inr (True, s', b')"
    using that list_sink_typedD [OF assms Suc.prems(1)] by (auto simp: read_list_end_def bindE_eq_Inr split: if_splits)
  have k: "P s'" if "sink s b1 True = Inr (True, s2, b2)" "read_list_loop fuel sink s2 b2 = Inr (True, s', b')"
    for b1 s2 b2
    using that list_sink_typedD [OF assms Suc.prems(1)] Suc.IH by blast
  show ?case
    using Suc.prems(2) e k by (auto simp: bindE_eq_Inr split: if_splits option.splits prod.splits)
qed

lemma read_list_typed:
  assumes "list_sink_typed P sink" and "P s" and "bencode_read_list sink s b = Inr (True, s', b')"
  shows "P s'"
  using assms(3) read_list_loop_typed [OF assms(1,2)]
  by (auto simp: bencode_read_list_def read_list_fuel_def bindE_eq_Inr simp del: read_list_loop.simps split: if_splits)

lemma ReadList_typed:
  assumes "\<And>v. returns dec v \<Longrightarrow> Q v" and "list_all Q acc" and "BEncodeReadList dec acc b = Inr (True, xs, b')"
  shows "list_all Q xs"
proof (rule read_list_typed [where P = "list_all Q", OF _ assms(2) assms(3) [unfolded BEncodeReadList_def]])
  show "list_sink_typed (list_all Q) (\<lambda>acc b has. if has then bindE (dec b) (\<lambda>(r, b'). case r of
      None \<Rightarrow> Inr (False, acc, b') | Some x \<Rightarrow> Inr (True, acc @ [x], b')) else Inr (True, acc, b))"
    using assms(1) [OF returnsI] unfolding list_sink_typed_def
    by (auto simp: bindE_eq_Inr split: if_splits option.splits prod.splits)
qed

lemma list_value_typed [typed]:
  assumes "\<And>v. returns dec v \<Longrightarrow> Q v" and "\<And>s. P s \<Longrightarrow> list_all Q (get s)"
    and "\<And>s vs. P s \<Longrightarrow> list_all Q vs \<Longrightarrow> P (upd s vs)"
  shows "value_typed P (list_value dec get upd)"
proof -
  have "P (upd s xs)" if "P s" "BEncodeReadList dec (get s) b = Inr (True, xs, b')" for s b xs b'
    using ReadList_typed [where dec = dec and Q = Q, OF assms(1) assms(2) [OF that(1)] that(2)] assms(3) that(1) by blast
  then show ?thesis
    unfolding value_typed_def list_value_def by (auto simp: bindE_eq_Inr split: prod.splits)
qed

lemma field_list_typed [typed]:
  assumes "\<And>v. returns dec v \<Longrightarrow> Q v" and "\<And>s. P s \<Longrightarrow> list_all Q (get s)"
    and "\<And>s vs. P s \<Longrightarrow> list_all Q vs \<Longrightarrow> P (upd vs s)" and "\<And>s. upd (get s) s = s"
  shows "field_typed P (field_list k dec get upd)"
proof -
  have "P (upd xs s)" if "P s" "BEncodeReadList dec (get s) b = Inr (True, xs, b')" for s b xs b'
    using ReadList_typed [where dec = dec and Q = Q, OF assms(1) assms(2) [OF that(1)] that(2)] assms(3) that(1) by blast
  then show ?thesis
    unfolding field_typed_def field_list_def BEncodeMaybeReadDictList_def
    by (auto simp: bindE_eq_Inr assms(4) split: prod.splits if_splits)
qed

end
