(* ===== verification/Dht_Messages_Facts.thy ===== *)
theory Dht_Messages_Facts
  imports Dht_Messages
begin

text \<open>
  Every message class of the DHT decodes what it encodes, so the decoder of messages does, and the
  decoder of lists of messages.
\<close>

section \<open>The classes\<close>

text \<open>What the receiver sees: sender and path are those of the session or path it came over.\<close>

definition via :: "key \<Rightarrow> 'b IMessage_scheme \<Rightarrow> 'b IMessage_scheme" where
  "via from m = m\<lparr>msg_From := from, msg_pathID := zero_pathid, msg_version := proto_version\<rparr>"

lemma writes_buf_write: "writes (buf_write bs) bs"
  using buf_write_spec by (intro writesI) (auto, metis prod.collapse)

subsection \<open>FindRouterMessage\<close>

definition fr_entries :: "FindRouterMessage \<Rightarrow> (byte \<times> byte list) list" where
  "fr_entries m =
     [(69, wire_uint64 (if fr_exploritory m then 1 else 0)), (73, wire_uint64 (if fr_iterative m then 1 else 0)),
      (75, wire_bytestring (fr_targetKey m)), (84, wire_uint64 (fr_txid m)), (86, wire_uint64 (fr_version m))]"

definition fr_ok :: "FindRouterMessage \<Rightarrow> bool" where
  "fr_ok m \<longleftrightarrow> length (fr_targetKey m) = 32"

interpretation find_router: tagged_codec FindRouterMessage_BEncode FindRouterMessage_DecodeKey
  "new_FindRouterMessage from" 65 82 fr_entries fr_ok "via from" for "from"
proof unfold_locales
  fix x
  assume v: "fr_ok x"
  then have k: "str_ok (fr_targetKey x)" by (simp add: fr_ok_def str_ok_def)
  show "writes (FindRouterMessage_BEncode x) (wire_msg ((65, wire_bytestring [82]) # fr_entries x))"
    unfolding FindRouterMessage_BEncode_def fr_entries_def by (rule writes_msg) (simp add: writers)
  show "decodes FindRouterMessage_DecodeKey (new_FindRouterMessage from) (fr_entries x) (via from x)"
    unfolding fr_entries_def FindRouterMessage_DecodeKey_def decode_key_def
    by (rule decodes_Cons, use v k in \<open>simp add: fields fr_ok_def\<close>)+
      (rule decodes_Nil, cases x, simp add: new_FindRouterMessage_def via_def)
qed

subsection \<open>GotRouterMessage\<close>

definition gr_entries :: "'srv rc_env \<Rightarrow> 'srv GotRouterMessage \<Rightarrow> (byte \<times> byte list) list" where
  "gr_entries env m =
     (case gr_closerTarget m of None \<Rightarrow> [] | Some k \<Rightarrow> [(75, wire_bytestring k)])
     @ (if gr_nearKeys m \<noteq> [] then [(78, wire_list wire_bytestring (gr_nearKeys m))] else [])
     @ [(82, wire_list (\<lambda>rc. wire_msg (rc_entries env rc)) (gr_foundRCs m)), (84, wire_uint64 (gr_txid m)),
        (86, wire_uint64 (msg_version m))]"

definition gr_ok :: "'srv rc_env \<Rightarrow> 'srv GotRouterMessage \<Rightarrow> bool" where
  "gr_ok env m \<longleftrightarrow> (\<forall>k. gr_closerTarget m = Some k \<longrightarrow> length k = 32) \<and> list_all (\<lambda>k. length k = 32) (gr_nearKeys m) \<and>
     list_all (rc_ok env) (gr_foundRCs m) \<and> msg_version m = proto_version"

lemma writes_keys: "list_all (\<lambda>k. length k = 32) ks \<Longrightarrow>
    writes (BEncodeWriteList aligned_BEncode ks) (wire_list wire_bytestring ks)"
  by (rule writes_WriteList) (auto simp: list_all_iff writers)

lemma writes_rcs: "list_all (rc_ok env) rcs \<Longrightarrow>
    writes (BEncodeWriteList (RouterContact_BEncode env) rcs) (wire_list (\<lambda>rc. wire_msg (rc_entries env rc)) rcs)"
  by (rule writes_WriteList)
    (auto simp: list_all_iff intro!: writesI router_contact.enc_wrote router_contact.enc_fits)

interpretation got_router: tagged_codec "GotRouterMessage_BEncode env" "GotRouterMessage_DecodeKey env netid"
  "new_GotRouterMessage from relayed" 65 83 "gr_entries env" "gr_ok env" "\<lambda>m. (via from m)\<lparr>gr_relayed := relayed\<rparr>"
  for env :: "'srv rc_env" and netid "from" relayed
proof unfold_locales
  fix x :: "'srv GotRouterMessage"
  assume v: "gr_ok env x"
  have c: "list_all2 (\<lambda>w (k, bs). writes_in w (wire_entry k bs))
      (case gr_closerTarget x of None \<Rightarrow> [] | Some k \<Rightarrow> [BEncodeWriteDictEntry 75 (aligned_BEncode k)])
      (case gr_closerTarget x of None \<Rightarrow> [] | Some k \<Rightarrow> [(75, wire_bytestring k)])"
    using v by (auto simp: gr_ok_def writers split: option.splits)
  show "writes (GotRouterMessage_BEncode env x) (wire_msg ((65, wire_bytestring [83]) # gr_entries env x))"
    unfolding GotRouterMessage_BEncode_def gr_entries_def append_Cons append_Nil DictList_chain
    by (rule writes_msg, rule list_all2_Cons [THEN iffD2], rule conjI, simp add: writers, intro list_all2_appendI c)
      (use v in \<open>auto simp: writers writes_keys writes_rcs gr_ok_def\<close>)
  have l: "list_value (aligned_BDecode 32) gr_nearKeys (\<lambda>s ks. s\<lparr>gr_nearKeys := ks\<rparr>) s b =
      Inr (True, s\<lparr>gr_nearKeys := gr_nearKeys x\<rparr>, advance (length w) b)"
    if "at b w" "w = wire_list wire_bytestring (gr_nearKeys x)" "gr_nearKeys s = []" for s :: "'srv GotRouterMessage" and b w
    using that v aligned32.BEncodeReadList_at [of "gr_nearKeys x" b "[]"]
    by (intro list_value_at) (simp add: gr_ok_def)
  have r: "list_value (RouterContact_BDecode env (new_RouterContact netid)) gr_foundRCs (\<lambda>s rcs. s\<lparr>gr_foundRCs := rcs\<rparr>) s b =
      Inr (True, s\<lparr>gr_foundRCs := gr_foundRCs x\<rparr>, advance (length w) b)"
    if "at b w" "w = wire_list (\<lambda>rc. wire_msg (rc_entries env rc)) (gr_foundRCs x)" "gr_foundRCs s = []"
    for s :: "'srv GotRouterMessage" and b w
    using that v router_contact.BEncodeReadList_at [of env "gr_foundRCs x" b netid "[]"]
    by (intro list_value_at) (simp add: gr_ok_def)
  show "decodes (GotRouterMessage_DecodeKey env netid) (new_GotRouterMessage from relayed) (gr_entries env x)
      ((via from x)\<lparr>gr_relayed := relayed\<rparr>)"
    unfolding gr_entries_def GotRouterMessage_DecodeKey_def decode_key_def append_Cons append_Nil
    by (rule decodes_Cons decodes_opt decodes_case, use v in
        \<open>simp add: fields l r item_value_at [OF aligned_at] gr_ok_def new_GotRouterMessage_def split: option.splits\<close>)+
      (rule decodes_Nil, use v in \<open>cases x, auto simp: gr_ok_def new_GotRouterMessage_def via_def split: option.splits\<close>)
qed

subsection \<open>FindIntroMessage\<close>

definition fi_entries :: "FindIntroMessage \<Rightarrow> (byte \<times> byte list) list" where
  "fi_entries m =
     (if Tag_Empty (fi_tagName m)
      then [(79, wire_uint64 (fi_relayOrder m)), (83, wire_bytestring (fi_location m))]
      else [(78, wire_bytestring (fi_tagName m)), (79, wire_uint64 (fi_relayOrder m))])
     @ [(84, wire_uint64 (fi_txID m)), (86, wire_uint64 proto_version)]"

text \<open>A request names a location or a tag, and only that is sent.\<close>

definition fi_ok :: "FindIntroMessage \<Rightarrow> bool" where
  "fi_ok m \<longleftrightarrow> length (fi_location m) = 32 \<and> length (fi_tagName m) = 16 \<and>
     (if Tag_Empty (fi_tagName m) then fi_tagName m = replicate 16 0 else fi_location m = zero_key)"

interpretation find_intro: tagged_codec FindIntroMessage_BEncode FindIntroMessage_DecodeKey
  "new_FindIntroMessage from relayed 0" 65 70 fi_entries fi_ok "\<lambda>m. (via from m)\<lparr>fi_relayed := relayed\<rparr>"
  for "from" relayed
proof unfold_locales
  fix x
  assume v: "fi_ok x"
  show "writes (FindIntroMessage_BEncode x) (wire_msg ((65, wire_bytestring [70]) # fi_entries x))"
    unfolding FindIntroMessage_BEncode_def fi_entries_def append_Cons append_Nil
    by (rule writes_msg) (use v in \<open>auto simp: writers fi_ok_def\<close>)
  show "decodes FindIntroMessage_DecodeKey (new_FindIntroMessage from relayed 0) (fi_entries x)
      ((via from x)\<lparr>fi_relayed := relayed\<rparr>)"
  proof (cases "Tag_Empty (fi_tagName x)")
    case True
    show ?thesis
      unfolding fi_entries_def FindIntroMessage_DecodeKey_def decode_key_def if_P [OF True] append_Cons append_Nil
      by (rule decodes_Cons, use v in \<open>simp add: fields fi_ok_def\<close>)+
        (rule decodes_Nil, use v True in \<open>cases x, auto simp: fi_ok_def new_FindIntroMessage_def via_def\<close>)
  next
    case False
    show ?thesis
      unfolding fi_entries_def FindIntroMessage_DecodeKey_def decode_key_def if_not_P [OF False] append_Cons append_Nil
      by (rule decodes_Cons, use v in \<open>simp add: fields fi_ok_def\<close>)+
        (rule decodes_Nil, use v False in \<open>cases x, auto simp: fi_ok_def new_FindIntroMessage_def via_def\<close>)
  qed
qed

subsection \<open>GotIntroMessage\<close>

definition gi_entries :: "GotIntroMessage \<Rightarrow> (byte \<times> byte list) list" where
  "gi_entries m =
     [(73, wire_list (\<lambda>i. wire_msg (eis_entries i)) (gi_found m))]
     @ (case gi_closer m of None \<Rightarrow> [] | Some k \<Rightarrow> [(75, wire_bytestring k)])
     @ [(84, wire_uint64 (gi_txid m)), (86, wire_uint64 (msg_version m))]"

definition gi_ok :: "GotIntroMessage \<Rightarrow> bool" where
  "gi_ok m \<longleftrightarrow> list_all eis_ok (gi_found m) \<and> (\<forall>k. gi_closer m = Some k \<longrightarrow> length k = 32) \<and>
     msg_version m = proto_version"

lemma writes_introsets: "list_all eis_ok is \<Longrightarrow>
    writes (BEncodeWriteList EncryptedIntroSet_BEncode is) (wire_list (\<lambda>i. wire_msg (eis_entries i)) is)"
  by (rule writes_WriteList) (auto simp: list_all_iff intro: introset.enc_writes)

interpretation got_intro: tagged_codec GotIntroMessage_BEncode GotIntroMessage_DecodeKey
  "new_GotIntroMessage from" 65 71 gi_entries gi_ok "via from" for "from"
proof unfold_locales
  fix x
  assume v: "gi_ok x"
  have c: "list_all2 (\<lambda>w (k, bs). writes_in w (wire_entry k bs))
      (case gi_closer x of None \<Rightarrow> [] | Some k \<Rightarrow> [BEncodeWriteDictEntry 75 (aligned_BEncode k)])
      (case gi_closer x of None \<Rightarrow> [] | Some k \<Rightarrow> [(75, wire_bytestring k)])"
    using v by (auto simp: gi_ok_def writers split: option.splits)
  have "list_all2 (\<lambda>w (k, bs). writes_in w (wire_entry k bs))
      [BEncodeWriteDictMsgType 65 71, BEncodeWriteDictList 73 EncryptedIntroSet_BEncode (gi_found x)]
      [(65, wire_bytestring [71]), (73, wire_list (\<lambda>i. wire_msg (eis_entries i)) (gi_found x))]"
    unfolding DictList_chain using v by (auto simp: writers writes_introsets gi_ok_def)
  then have "list_all2 (\<lambda>w (k, bs). writes_in w (wire_entry k bs))
      ([BEncodeWriteDictMsgType 65 71, BEncodeWriteDictList 73 EncryptedIntroSet_BEncode (gi_found x)]
        @ (case gi_closer x of None \<Rightarrow> [] | Some k \<Rightarrow> [BEncodeWriteDictEntry 75 (aligned_BEncode k)])
        @ [BEncodeWriteDictInt 84 (gi_txid x), BEncodeWriteDictInt 86 (msg_version x)])
      ([(65, wire_bytestring [71]), (73, wire_list (\<lambda>i. wire_msg (eis_entries i)) (gi_found x))]
        @ (case gi_closer x of None \<Rightarrow> [] | Some k \<Rightarrow> [(75, wire_bytestring k)])
        @ [(84, wire_uint64 (gi_txid x)), (86, wire_uint64 (msg_version x))])"
    by (intro list_all2_appendI c) (simp_all add: writers)
  then show "writes (GotIntroMessage_BEncode x) (wire_msg ((65, wire_bytestring [71]) # gi_entries x))"
    unfolding GotIntroMessage_BEncode_def gi_entries_def by (intro writes_msg) simp
  have l: "list_value EncryptedIntroSet_BDecode gi_found (\<lambda>s l. s\<lparr>gi_found := l\<rparr>) s b =
      Inr (True, s\<lparr>gi_found := gi_found x\<rparr>, advance (length w) b)"
    if "at b w" "w = wire_list (\<lambda>i. wire_msg (eis_entries i)) (gi_found x)" "gi_found s = []" for s b w
    using that v introset.BEncodeReadList_at [of "gi_found x" b "[]"]
    by (intro list_value_at) (simp add: gi_ok_def EncryptedIntroSet_BDecode_def)
  show "decodes GotIntroMessage_DecodeKey (new_GotIntroMessage from) (gi_entries x) (via from x)"
    unfolding gi_entries_def GotIntroMessage_DecodeKey_def decode_key_def append_Cons append_Nil
    by (rule decodes_Cons decodes_case, use v in
        \<open>simp add: fields l item_value_at [OF aligned_at] gi_ok_def new_GotIntroMessage_def split: option.splits\<close>)+
      (rule decodes_Nil, use v in \<open>cases x, auto simp: gi_ok_def new_GotIntroMessage_def via_def split: option.splits\<close>)
qed

subsection \<open>PublishIntroMessage\<close>

definition pi_entries :: "PublishIntroMessage \<Rightarrow> (byte \<times> byte list) list" where
  "pi_entries m =
     [(73, wire_msg (eis_entries (pi_introset m))), (79, wire_uint64 (pi_relayOrder m)),
      (82, wire_uint64 (if pi_relayed m then 1 else 0)), (84, wire_uint64 (pi_txID m)),
      (86, wire_uint64 proto_version)]"

definition pi_ok :: "PublishIntroMessage \<Rightarrow> bool" where
  "pi_ok m \<longleftrightarrow> eis_ok (pi_introset m)"

lemma introset_at: "at b (wire_msg (eis_entries i)) \<Longrightarrow> eis_ok i \<Longrightarrow>
    EncryptedIntroSet_BDecode b = Inr (Some i, advance (length (wire_msg (eis_entries i))) b)"
  unfolding EncryptedIntroSet_BDecode_def by (rule introset.dec_at)

interpretation publish_intro: tagged_codec PublishIntroMessage_BEncode PublishIntroMessage_DecodeKey
  "new_PublishIntroMessage from relayed" 65 73 pi_entries pi_ok "via from" for "from" relayed
proof unfold_locales
  fix x
  assume v: "pi_ok x"
  show "writes (PublishIntroMessage_BEncode x) (wire_msg ((65, wire_bytestring [73]) # pi_entries x))"
    unfolding PublishIntroMessage_BEncode_def pi_entries_def
    by (rule writes_msg) (use v introset.enc_writes in \<open>auto simp: writers pi_ok_def\<close>)
  show "decodes PublishIntroMessage_DecodeKey (new_PublishIntroMessage from relayed) (pi_entries x) (via from x)"
    unfolding pi_entries_def PublishIntroMessage_DecodeKey_def decode_key_def
    by (rule decodes_Cons, use v in \<open>simp add: fields field_entry_at [OF introset_at] pi_ok_def\<close>)+
      (rule decodes_Nil, cases x, simp add: new_PublishIntroMessage_def via_def)
qed

subsection \<open>Names\<close>

text \<open>
  What is known of \<open>oxenc::bt_serialize\<close>: a dictionary becomes the bencoded dictionary of its entries in
  the order of the keys.
\<close>

fun wire_bt :: "bt_value \<Rightarrow> byte list" where
  "wire_bt (Bt_String s) = wire_bytestring s"
| "wire_bt (Bt_Int i) = wire_uint64 i"

definition bt_serializes :: "bt_serializer \<Rightarrow> bool" where
  "bt_serializes ser \<longleftrightarrow> (\<forall>es. sorted_wrt (<) (map fst es) \<longrightarrow> ser es = wire_msg (map (\<lambda>(k, v). (k, wire_bt v)) es))"

definition fn_entries :: "FindNameMessage \<Rightarrow> (byte \<times> byte list) list" where
  "fn_entries m = [(72, wire_bytestring (fn_NameHash m)), (84, wire_uint64 (fn_TxID m))]"

definition fn_ok :: "FindNameMessage \<Rightarrow> bool" where
  "fn_ok m \<longleftrightarrow> length (fn_NameHash m) = 32"

interpretation find_name: tagged_codec "FindNameMessage_BEncode ser" FindNameMessage_DecodeKey
  "new_FindNameMessage from zero_key 0" 65 78 fn_entries "\<lambda>m. bt_serializes ser \<and> fn_ok m" "via from" for ser "from"
proof unfold_locales
  fix x
  assume v: "bt_serializes ser \<and> fn_ok x"
  then have "ser [(65, Bt_String [78]), (72, Bt_String (fn_NameHash x)), (84, Bt_Int (fn_TxID x))] =
      wire_msg ((65, wire_bytestring [78]) # fn_entries x)"
    by (simp add: bt_serializes_def fn_entries_def)
  then show "writes (FindNameMessage_BEncode ser x) (wire_msg ((65, wire_bytestring [78]) # fn_entries x))"
    unfolding FindNameMessage_BEncode_def using writes_buf_write by metis
  show "decodes FindNameMessage_DecodeKey (new_FindNameMessage from zero_key 0) (fn_entries x) (via from x)"
    unfolding fn_entries_def FindNameMessage_DecodeKey_def decode_key_def
    by (rule decodes_Cons, use v in \<open>simp add: fields item_value_at [OF aligned_at] fn_ok_def\<close>)+
      (rule decodes_Nil, cases x, simp add: new_FindNameMessage_def via_def)
qed

definition gn_entries :: "GotNameMessage \<Rightarrow> (byte \<times> byte list) list" where
  "gn_entries m = [(68, wire_bytestring (gn_ciphertext m)), (78, wire_bytestring (gn_nonce m)),
     (84, wire_uint64 (gn_TxID m))]"

definition gn_ok :: "GotNameMessage \<Rightarrow> bool" where
  "gn_ok m \<longleftrightarrow> length (gn_ciphertext m) \<le> NameSizeLimit \<and> length (gn_nonce m) = 24"

definition fresh_GotName :: "key \<Rightarrow> GotNameMessage" where
  "fresh_GotName from = \<lparr>msg_From = from, msg_pathID = zero_pathid, msg_version = proto_version,
     gn_nonce = replicate 24 0, gn_ciphertext = [], gn_TxID = 0\<rparr>"

lemma new_GotNameMessage_fresh: "new_GotNameMessage from 0 (replicate 24 0) [] = Inr (fresh_GotName from)"
  by (simp add: new_GotNameMessage_def fresh_GotName_def NameSizeLimit_def)

interpretation got_name: tagged_codec "GotNameMessage_BEncode ser" GotNameMessage_DecodeKey
  "fresh_GotName from" 65 77 gn_entries "\<lambda>m. bt_serializes ser \<and> gn_ok m" "via from" for ser "from"
proof unfold_locales
  fix x
  assume v: "bt_serializes ser \<and> gn_ok x"
  then have "ser [(65, Bt_String [77]), (68, Bt_String (gn_ciphertext x)), (78, Bt_String (gn_nonce x)),
      (84, Bt_Int (gn_TxID x))] = wire_msg ((65, wire_bytestring [77]) # gn_entries x)"
    by (simp add: bt_serializes_def gn_entries_def)
  then show "writes (GotNameMessage_BEncode ser x) (wire_msg ((65, wire_bytestring [77]) # gn_entries x))"
    unfolding GotNameMessage_BEncode_def using writes_buf_write by metis
  have "str_ok (gn_ciphertext x)" "str_ok (gn_nonce x)"
    using v by (simp_all add: gn_ok_def str_ok_def NameSizeLimit_def)
  then show "decodes GotNameMessage_DecodeKey (fresh_GotName from) (gn_entries x) (via from x)"
    unfolding gn_entries_def GotNameMessage_DecodeKey_def decode_key_def
    by - (rule decodes_Cons, use v in \<open>simp add: fields gn_ok_def\<close>, rule decodes_Cons, use v in \<open>simp add: fields gn_ok_def\<close>,
      rule decodes_Cons, simp add: fields, rule decodes_Nil, cases x, simp add: fresh_GotName_def via_def)
qed

section \<open>The decoder\<close>

fun dht_ok :: "'srv rc_env \<Rightarrow> bt_serializer \<Rightarrow> 'srv dht_message \<Rightarrow> bool" where
  "dht_ok env ser (FindNameMsg m) \<longleftrightarrow> bt_serializes ser \<and> fn_ok m"
| "dht_ok env ser (GotNameMsg m) \<longleftrightarrow> bt_serializes ser \<and> gn_ok m"
| "dht_ok env ser (FindIntroMsg m) \<longleftrightarrow> fi_ok m"
| "dht_ok env ser (RelayedFindRouterMsg m) \<longleftrightarrow> fr_ok m"
| "dht_ok env ser (FindRouterMsg m) \<longleftrightarrow> fr_ok m"
| "dht_ok env ser (GotRouterMsg m) \<longleftrightarrow> gr_ok env m"
| "dht_ok env ser (PublishIntroMsg m) \<longleftrightarrow> pi_ok m"
| "dht_ok env ser (RelayedGotIntroMsg m) \<longleftrightarrow> gi_ok m"
| "dht_ok env ser (GotIntroMsg m) \<longleftrightarrow> gi_ok m"

fun dht_received :: "key \<Rightarrow> bool \<Rightarrow> 'srv dht_message \<Rightarrow> 'srv dht_message" where
  "dht_received from relayed (FindNameMsg m) = FindNameMsg (via from m)"
| "dht_received from relayed (GotNameMsg m) = GotNameMsg (via from m)"
| "dht_received from relayed (FindIntroMsg m) = FindIntroMsg ((via from m)\<lparr>fi_relayed := relayed\<rparr>)"
| "dht_received from relayed (RelayedFindRouterMsg m) =
     (if relayed then RelayedFindRouterMsg (via from m) else FindRouterMsg (via from m))"
| "dht_received from relayed (FindRouterMsg m) =
     (if relayed then RelayedFindRouterMsg (via from m) else FindRouterMsg (via from m))"
| "dht_received from relayed (GotRouterMsg m) = GotRouterMsg ((via from m)\<lparr>gr_relayed := relayed\<rparr>)"
| "dht_received from relayed (PublishIntroMsg m) = PublishIntroMsg (via from m)"
| "dht_received from relayed (RelayedGotIntroMsg m) =
     (if relayed then RelayedGotIntroMsg (via zero_key m) else GotIntroMsg (via from m))"
| "dht_received from relayed (GotIntroMsg m) =
     (if relayed then RelayedGotIntroMsg (via zero_key m) else GotIntroMsg (via from m))"

fun dht_entries :: "'srv rc_env \<Rightarrow> 'srv dht_message \<Rightarrow> (byte \<times> byte list) list" where
  "dht_entries env (FindNameMsg m) = (65, wire_bytestring [78]) # fn_entries m"
| "dht_entries env (GotNameMsg m) = (65, wire_bytestring [77]) # gn_entries m"
| "dht_entries env (FindIntroMsg m) = (65, wire_bytestring [70]) # fi_entries m"
| "dht_entries env (RelayedFindRouterMsg m) = (65, wire_bytestring [82]) # fr_entries m"
| "dht_entries env (FindRouterMsg m) = (65, wire_bytestring [82]) # fr_entries m"
| "dht_entries env (GotRouterMsg m) = (65, wire_bytestring [83]) # gr_entries env m"
| "dht_entries env (PublishIntroMsg m) = (65, wire_bytestring [73]) # pi_entries m"
| "dht_entries env (RelayedGotIntroMsg m) = (65, wire_bytestring [71]) # gi_entries m"
| "dht_entries env (GotIntroMsg m) = (65, wire_bytestring [71]) # gi_entries m"

lemma message_of_tag_simps:
  "message_of_tag from relayed 78 = Inr (Some (FindNameMsg (new_FindNameMessage from zero_key 0)))"
  "message_of_tag from relayed 77 = Inr (Some (GotNameMsg (fresh_GotName from)))"
  "message_of_tag from relayed 70 = Inr (Some (FindIntroMsg (new_FindIntroMessage from relayed 0)))"
  "message_of_tag from relayed 82 = Inr (Some (if relayed then RelayedFindRouterMsg (new_FindRouterMessage from)
     else FindRouterMsg (new_FindRouterMessage from)))"
  "message_of_tag from relayed 83 = Inr (Some (GotRouterMsg (new_GotRouterMessage from relayed)))"
  "message_of_tag from relayed 73 = Inr (Some (PublishIntroMsg (new_PublishIntroMessage from relayed)))"
  "message_of_tag from relayed 71 = Inr (Some (if relayed then RelayedGotIntroMsg (new_GotIntroMessage zero_key)
     else GotIntroMsg (new_GotIntroMessage from)))"
  by (simp_all add: message_of_tag_def new_GotNameMessage_fresh)

lemma dht_dispatch:
  assumes "tagged_codec enc D s0 65 c entries valid received"
    and "valid x" and "at b (wire_msg ((65, wire_bytestring [c]) # entries x))"
    and "message_of_tag from relayed c = Inr (Some (con s0))"
    and "\<And>m k b. dht_DecodeKey env netid (con m) k b = into con (D m k b)"
  shows "DecodeMesssage env netid from relayed b =
    Inr (Some (con (received x)), advance (length (wire_msg ((65, wire_bytestring [c]) # entries x))) b)"
proof -
  let ?D = "MessageDecoder env netid from relayed"
  have "bencode_read_dict ?D None b =
      ?D (Some (con (received x))) (advance (length (wire_msg ((65, wire_bytestring [c]) # entries x))) b) None"
    using assms(4,5)
    by (intro tagged_codec.dispatch_at [OF assms(1-3), where f = "\<lambda>m. Some (con m)"])
      (simp_all add: MessageDecoder_def read_tag_at into_def)
  then show ?thesis by (simp add: DecodeMesssage_def MessageDecoder_def)
qed

lemma DecodeMesssage_at:
  assumes "dht_ok env ser m" and "at b (wire_msg (dht_entries env m))"
  shows "DecodeMesssage env netid from relayed b =
    Inr (Some (dht_received from relayed m), advance (length (wire_msg (dht_entries env m))) b)"
  using assms
  by (cases m)
    (auto simp: message_of_tag_simps
      intro!: dht_dispatch [OF find_name.tagged_codec_axioms] dht_dispatch [OF got_name.tagged_codec_axioms]
        dht_dispatch [OF find_intro.tagged_codec_axioms] dht_dispatch [OF find_router.tagged_codec_axioms]
        dht_dispatch [OF got_router.tagged_codec_axioms] dht_dispatch [OF publish_intro.tagged_codec_axioms]
        dht_dispatch [OF got_intro.tagged_codec_axioms])

lemma dht_writes:
  "dht_ok env ser m \<Longrightarrow> writes (dht_BEncode env ser m) (wire_msg (dht_entries env m))"
  by (cases m)
    (simp_all add: find_name.enc_writes got_name.enc_writes find_intro.enc_writes find_router.enc_writes
      got_router.enc_writes publish_intro.enc_writes got_intro.enc_writes)

lemma DecodeMesssageList_at:
  assumes "list_all (dht_ok env ser) ms" and "at b (wire_list (\<lambda>m. wire_msg (dht_entries env m)) ms)"
  shows "DecodeMesssageList env netid from relayed l b =
    Inr (True, l @ map (dht_received from relayed) ms,
      advance (length (wire_list (\<lambda>m. wire_msg (dht_entries env m)) ms)) b)"
proof -
  have "DecodeMesssageList env netid from relayed l b =
      Inr (True, foldl (\<lambda>l m. l @ [dht_received from relayed m]) l ms,
        advance (length (wire_list (\<lambda>m. wire_msg (dht_entries env m)) ms)) b)"
    unfolding DecodeMesssageList_def bencode_read_list_def
    by (rule read_list_fuel_at [where ok = "\<lambda>_ _. True", OF _ _ _ assms(2)])
      (use assms(1) in \<open>auto simp: list_all_iff DecodeMesssage_at\<close>)
  moreover have "foldl (\<lambda>l m. l @ [f m]) l ms = l @ map f ms" for f :: "'a dht_message \<Rightarrow> 'a dht_message"
    by (induction ms arbitrary: l) simp_all
  ultimately show ?thesis by simp
qed

lemma dht_list_writes:
  "list_all (dht_ok env ser) ms \<Longrightarrow>
     writes (BEncodeWriteList (dht_BEncode env ser) ms) (wire_list (\<lambda>m. wire_msg (dht_entries env m)) ms)"
  by (rule writes_WriteList) (auto simp: list_all_iff dht_writes)

section \<open>Properties\<close>


definition example_request :: "unit dht_message" where
  "example_request = FindRouterMsg ((new_FindRouterMessage zero_key)\<lparr>fr_targetKey := replicate 32 9, fr_txid := 77\<rparr>)"

lemma example_request_ok: "dht_ok example_env ser example_request"
  by (simp add: example_request_def fr_ok_def)

lemma length_example_request: "length (wire_msg (dht_entries example_env example_request)) \<le> 200"
proof -
  have "length (wire_bytestring (replicate 32 9 :: byte list)) \<le> 36"
    "length (wire_bytestring [82 :: byte]) \<le> 5"
    using length_wire_bytestring_le [of "replicate 32 9"] length_wire_bytestring_le [of "[82]"] by simp_all
  then show ?thesis
    using length_wire_uint64(2) [of 0] length_wire_uint64(2) [of 77]
    by (simp add: example_request_def fr_entries_def new_FindRouterMessage_def wire_msg_def length_wire_entry)
qed


end
