(* ===== verification/Dht_Message_Types.thy ===== *)
theory Dht_Message_Types
  imports Typed_Codec Dht_Messages_Facts
begin

text \<open>
  The messages that come out of the decoder have members of the right size, and the decoder ends,
  whatever the bytes are.
\<close>

section \<open>The parts of messages\<close>

definition ai_typed :: "AddressInfo \<Rightarrow> bool" where
  "ai_typed a \<longleftrightarrow> length (ai_pubkey a) = 32"

definition eis_typed :: "EncryptedIntroSet \<Rightarrow> bool" where
  "eis_typed x \<longleftrightarrow> length (derivedSigningKey x) = 32 \<and> length (nounce x) = 32 \<and> length (e_sig x) = 64 \<and>
     length (introsetPayload x) \<le> MAX_INTROSET_SIZE \<and> e_topic x = None"

definition rc_typed :: "'srv RouterContact \<Rightarrow> bool" where
  "rc_typed rc \<longleftrightarrow> list_all ai_typed (rc_addrs rc) \<and> length (rc_netID rc) = 8 \<and> length (rc_enckey rc) = 32 \<and>
     length (rc_pubkey rc) = 32 \<and> length (rc_signature rc) = 64 \<and> length (rc_nickname rc) = 32 \<and>
     (\<forall>v. rc_routerVersion rc = Some v \<longrightarrow> length (m_Version v) = 3)"

lemma length_zero_pad: "length bs \<le> n \<Longrightarrow> length (zero_pad n bs) = n"
  by (simp add: zero_pad_def)

lemma AddressInfo_typed: "returns (AddressInfo_BDecode pton) a \<Longrightarrow> ai_typed a"
  unfolding AddressInfo_BDecode_def
proof (erule object_typed [rotated 2])
  show "key_typed ai_typed (AddressInfo_DecodeKey pton)"
    unfolding AddressInfo_DecodeKey_def
    by (rule decode_key_typed, simp_all) (intro conjI typed; simp add: ai_typed_def)
qed (simp add: ai_typed_def new_AddressInfo_def zero_key_def)

lemma EncryptedIntroSet_typed: "returns EncryptedIntroSet_BDecode x \<Longrightarrow> eis_typed x"
  unfolding EncryptedIntroSet_BDecode_def
proof (erule object_typed [rotated 2])
  show "key_typed eis_typed EncryptedIntroSet_DecodeKey"
    unfolding EncryptedIntroSet_DecodeKey_def
    by (rule decode_key_typed, simp_all) (intro conjI typed; simp add: eis_typed_def)
qed (simp add: eis_typed_def new_EncryptedIntroSet_def zero_key_def)

lemma NetID_typed: "returns NetID_BDecode n \<Longrightarrow> length n = 8"
  by (auto simp: returns_def NetID_BDecode_def bindE_eq_Inr length_zero_pad split: option.splits if_splits prod.splits)

lemma RouterVersion_typed: "returns RouterVersion_BDecode v \<Longrightarrow> length (m_Version v) = 3"
proof -
  assume "returns RouterVersion_BDecode v"
  then obtain b idx b' where r: "bencode_read_list version_sink (emptyRouterVersion, 0) b = Inr (True, (v, idx), b')"
    by (auto simp: returns_def RouterVersion_BDecode_def bindE_eq_Inr split: if_splits prod.splits)
  have s: "list_sink_typed (\<lambda>(v, _). length (m_Version v) = 3) version_sink"
    by (auto simp: list_sink_typed_def version_sink_def bindE_eq_Inr split: if_splits option.splits prod.splits)
  show ?thesis using read_list_typed [OF s _ r] by (simp add: emptyRouterVersion_def)
qed

lemma rc_key_typed: "key_typed rc_typed (RouterContact_DecodeKey env)"
  unfolding RouterContact_DecodeKey_def
  by (rule decode_key_typed, simp_all)
    (intro conjI field_list_typed [where Q = ai_typed] field_list_typed [where Q = "\<lambda>_. True"] typed;
      simp add: rc_typed_def AddressInfo_typed NetID_typed RouterVersion_typed length_zero_pad list_all_iff)

lemma rc_typed_new: "length netid = 8 \<Longrightarrow> rc_typed (new_RouterContact netid)"
  by (simp add: rc_typed_def new_RouterContact_def RouterContact_Clear_def zero_key_def)

lemma DecodeVersion_1_typed:
  assumes "rc_typed rc" and "DecodeVersion_1 env sigstr dict rc = Inr (True, rc')"
  shows "rc_typed rc'"
proof -
  obtain b' where "length sigstr = 64"
    "bencode_decode_dict (RouterContact_DecodeKey env) (rc\<lparr>rc_signed_bt_dict := dict, rc_signature := sigstr\<rparr>) (mk_buf dict) =
       Inr (True, rc', b')"
    using assms(2) by (auto simp: DecodeVersion_1_def Let_def bindE_eq_Inr split: if_splits prod.splits)
  moreover from this(1) have "rc_typed (rc\<lparr>rc_signed_bt_dict := dict, rc_signature := sigstr\<rparr>)"
    using assms(1) by (simp add: rc_typed_def)
  ultimately show ?thesis using decode_dict_typed [OF rc_key_typed] by blast
qed

lemma RouterContact_typed:
  assumes "returns (RouterContact_BDecode env (new_RouterContact netid)) rc" and "length netid = 8"
  shows "rc_typed rc"
proof -
  have t: "rc_typed (new_RouterContact netid)" using assms(2) by (rule rc_typed_new)
  obtain b b' where r: "RouterContact_BDecode env (new_RouterContact netid) b = Inr (Some rc, b')"
    using assms(1) by (auto simp: returns_def)
  show ?thesis
    using r decode_dict_typed [OF rc_key_typed t] DecodeVersion_1_typed [OF t]
    by (auto simp: RouterContact_BDecode_def Let_def bindE_eq_Inr split: if_splits option.splits prod.splits)
qed

section \<open>Messages\<close>

definition base_typed :: "'a IMessage_scheme \<Rightarrow> bool" where
  "base_typed m \<longleftrightarrow> length (msg_From m) = 32 \<and> length (msg_pathID m) = 16"

fun dht_typed :: "'srv dht_message \<Rightarrow> bool" where
  "dht_typed (FindNameMsg m) \<longleftrightarrow> base_typed m \<and> length (fn_NameHash m) = 32"
| "dht_typed (GotNameMsg m) \<longleftrightarrow> base_typed m \<and> length (gn_nonce m) = 24 \<and> length (gn_ciphertext m) \<le> NameSizeLimit"
| "dht_typed (FindIntroMsg m) \<longleftrightarrow> base_typed m \<and> length (fi_location m) = 32 \<and> length (fi_tagName m) = 16"
| "dht_typed (RelayedFindRouterMsg m) \<longleftrightarrow> base_typed m \<and> length (fr_targetKey m) = 32"
| "dht_typed (FindRouterMsg m) \<longleftrightarrow> base_typed m \<and> length (fr_targetKey m) = 32"
| "dht_typed (GotRouterMsg m) \<longleftrightarrow> base_typed m \<and> list_all rc_typed (gr_foundRCs m) \<and>
     list_all (\<lambda>k. length k = 32) (gr_nearKeys m) \<and> (\<forall>k. gr_closerTarget m = Some k \<longrightarrow> length k = 32)"
| "dht_typed (PublishIntroMsg m) \<longleftrightarrow> base_typed m \<and> eis_typed (pi_introset m)"
| "dht_typed (RelayedGotIntroMsg m) \<longleftrightarrow> base_typed m \<and> list_all eis_typed (gi_found m) \<and>
     (\<forall>k. gi_closer m = Some k \<longrightarrow> length k = 32)"
| "dht_typed (GotIntroMsg m) \<longleftrightarrow> base_typed m \<and> list_all eis_typed (gi_found m) \<and>
     (\<forall>k. gi_closer m = Some k \<longrightarrow> length k = 32)"

text \<open>Two readers that are not in the collection: a key that may come once.\<close>

lemma guarded_typed: "value_typed P f \<Longrightarrow> (\<And>s. P s \<Longrightarrow> P (g s)) \<Longrightarrow>
    value_typed P (\<lambda>s b. if c s then Inr (False, s, b) else f (g s) b)"
  unfolding value_typed_def by (auto split: if_splits)

lemma into_typed:
  "key_typed (\<lambda>m. P (c m)) D \<Longrightarrow> P (c m) \<Longrightarrow> into c (D m k b) = Inr (True, m', b') \<Longrightarrow> P m'"
  unfolding key_typed_def into_def by (fastforce simp: bindE_eq_Inr split: prod.splits)

lemma class_keys_typed:
  "key_typed (\<lambda>m. dht_typed (FindNameMsg m)) FindNameMessage_DecodeKey"
  "key_typed (\<lambda>m. dht_typed (GotNameMsg m)) GotNameMessage_DecodeKey"
  "key_typed (\<lambda>m. dht_typed (FindIntroMsg m)) FindIntroMessage_DecodeKey"
  "key_typed (\<lambda>m. dht_typed (FindRouterMsg m)) FindRouterMessage_DecodeKey"
  "key_typed (\<lambda>m. dht_typed (PublishIntroMsg m)) PublishIntroMessage_DecodeKey"
  unfolding FindNameMessage_DecodeKey_def GotNameMessage_DecodeKey_def FindIntroMessage_DecodeKey_def
    FindRouterMessage_DecodeKey_def PublishIntroMessage_DecodeKey_def
  by (rule decode_key_typed, simp_all,
      (intro conjI typed; simp add: base_typed_def EncryptedIntroSet_typed NameSizeLimit_def))+

lemma got_intro_typed: "key_typed (\<lambda>m. dht_typed (GotIntroMsg m)) GotIntroMessage_DecodeKey"
proof -
  have o: "value_typed (\<lambda>m. dht_typed (GotIntroMsg m)) (\<lambda>s b.
      if gi_closer s \<noteq> None then Inr (False, s, b)
      else item_value (aligned_BDecode 32) (\<lambda>s k. s\<lparr>gi_closer := Some k\<rparr>) s b)"
    by (rule guarded_typed [where g = "\<lambda>s. s", OF item_value_typed]) (simp_all add: base_typed_def)
  show ?thesis
    unfolding GotIntroMessage_DecodeKey_def
    by (rule decode_key_typed, simp_all only: list.pred_inject step_typed.simps insert_iff simp_thms)
      (intro conjI o list_value_typed [where Q = eis_typed] typed; simp add: base_typed_def EncryptedIntroSet_typed)
qed

lemma got_router_typed:
  assumes "length netid = 8"
  shows "key_typed (\<lambda>m. dht_typed (GotRouterMsg m)) (GotRouterMessage_DecodeKey env netid)"
proof -
  have o: "value_typed (\<lambda>m. dht_typed (GotRouterMsg m)) (\<lambda>s b.
      if gr_closerTarget s \<noteq> None then Inr (False, s, b)
      else item_value (aligned_BDecode 32) (\<lambda>s k. s\<lparr>gr_closerTarget := Some k\<rparr>)
        (s\<lparr>gr_closerTarget := Some zero_key\<rparr>) b)"
    by (rule guarded_typed [where g = "\<lambda>s. s\<lparr>gr_closerTarget := Some zero_key\<rparr>", OF item_value_typed])
      (simp_all add: base_typed_def zero_key_def)
  show ?thesis
    unfolding GotRouterMessage_DecodeKey_def
    by (rule decode_key_typed, simp_all only: list.pred_inject step_typed.simps insert_iff simp_thms)
      (intro conjI o list_value_typed [where Q = "\<lambda>k. length k = 32" and dec = "aligned_BDecode 32"]
        list_value_typed [where Q = rc_typed and dec = "RouterContact_BDecode env (new_RouterContact netid)"] typed;
        simp add: base_typed_def RouterContact_typed [OF _ assms])
qed

lemma relayed_typed:
  "key_typed (\<lambda>m. dht_typed (RelayedFindRouterMsg m)) FindRouterMessage_DecodeKey"
  "key_typed (\<lambda>m. dht_typed (RelayedGotIntroMsg m)) GotIntroMessage_DecodeKey"
  using class_keys_typed(4) got_intro_typed by simp_all

lemma dht_DecodeKey_typed:
  assumes "length netid = 8" and "dht_typed m" and "dht_DecodeKey env netid m k b = Inr (True, m', b')"
  shows "dht_typed m'"
  using assms(2,3)
  by (cases m)
    (auto simp del: dht_typed.simps
      elim!: into_typed [where P = dht_typed, rotated 2]
      intro: class_keys_typed relayed_typed got_intro_typed got_router_typed [OF assms(1)])

lemma message_of_tag_typed:
  assumes "length from = 32" and "message_of_tag from relayed c = Inr (Some m)"
  shows "dht_typed m"
  using assms
  by (auto simp: message_of_tag_def new_GotNameMessage_fresh fresh_GotName_def new_FindNameMessage_def
      new_FindIntroMessage_def new_FindRouterMessage_def new_GotRouterMessage_def new_PublishIntroMessage_def
      new_GotIntroMessage_def new_EncryptedIntroSet_def eis_typed_def base_typed_def zero_pathid_def zero_key_def
      split: if_splits)

lemma MessageDecoder_typed:
  assumes "length netid = 8" and "length from = 32"
  shows "sink_typed (\<lambda>msg. \<forall>m. msg = Some m \<longrightarrow> dht_typed m) (MessageDecoder env netid from relayed)"
  unfolding sink_typed_def MessageDecoder_def
  using message_of_tag_typed [OF assms(2)] dht_DecodeKey_typed [OF assms(1)]
  by (auto simp: bindE_eq_Inr into_def split: option.splits prod.splits)

section \<open>Ending\<close>

lemma safe_guarded [safe]: "safe_value f \<Longrightarrow> safe_value (\<lambda>s b. if c s then Inr (False, s, b) else f (g s) b)"
  unfolding safe_value_def by (auto simp: fwd_refl)

lemma AddressInfo_safe [safe]: "safe_dec (AddressInfo_BDecode pton)"
  unfolding AddressInfo_BDecode_def AddressInfo_DecodeKey_def by (simp add: safe)

lemma NetID_safe [safe]: "safe_dec NetID_BDecode"
  unfolding safe_dec_def
proof (intro allI impI)
  fix b assume "buf_ok b"
  from bencode_read_string_safe [OF this]
  show "case NetID_BDecode b of Inl e \<Rightarrow> e = Out_Of_Bounds | Inr (r, b') \<Rightarrow> fwd b b' \<and> (r \<noteq> None \<longrightarrow> cur b < cur b')"
    by (auto simp: NetID_BDecode_def split: option.splits)
qed

lemma version_sink_ends:
  assumes "buf_ok b"
  shows "ends {Out_Of_Bounds} b (version_sink s b True) \<and> moves b (version_sink s b True)"
  using bencode_read_integer_ends [OF assms]
  by (cases s) (auto simp: version_sink_def split: option.splits)

lemma RouterVersion_safe [safe]: "safe_dec RouterVersion_BDecode"
  unfolding safe_dec_def
proof (intro allI impI)
  fix b assume ok: "buf_ok b"
  have f: "ends {Out_Of_Bounds} b' (version_sink s b' False)" if "fwd b b'" for s b'
    using fwd_ok [OF that] by (cases s) (simp add: version_sink_def fwd_refl)
  have t: "ends {Out_Of_Bounds} b' (version_sink s b' True) \<and> moves b' (version_sink s b' True)" if "fwd b b'" for s b'
    by (rule version_sink_ends [OF fwd_ok [OF that]])
  have "ends {Out_Of_Bounds} b (read_list_fuel (Suc (size_left b)) version_sink (emptyRouterVersion, 0) b)"
    and "moves b (read_list_fuel (Suc (size_left b)) version_sink (emptyRouterVersion, 0) b)"
    by (rule read_list_fuel_ends [where F = "{Out_Of_Bounds}", OF ok]; use t f in simp)+
  then show "case RouterVersion_BDecode b of Inl e \<Rightarrow> e = Out_Of_Bounds
      | Inr (r, b') \<Rightarrow> fwd b b' \<and> (r \<noteq> None \<longrightarrow> cur b < cur b')"
    by (auto simp: RouterVersion_BDecode_def bencode_read_list_def ends_def moves_def split: sum.splits bindE_splits)
qed

lemma rc_key_safe: "safe_dec (env_srv_dec env) \<Longrightarrow> safe_key (RouterContact_DecodeKey env)"
  unfolding RouterContact_DecodeKey_def by (simp add: safe)

lemma discard_moves: "buf_ok b \<Longrightarrow> deref b = Inr c \<Longrightarrow> bencode_discard b = Inr (True, b') \<Longrightarrow> cur b < cur b'"
  using discard_fuel_ends [of b "Suc (size_left b)"]
  by (auto simp: bencode_discard_def deref_def size_left_pos simp del: discard_fuel.simps split: if_splits)

lemma RouterContact_safe [safe]:
  assumes srv: "safe_dec (env_srv_dec env)"
  shows "safe_dec (RouterContact_BDecode env rc0)"
  unfolding safe_dec_def
proof (intro allI impI)
  fix b assume ok: "buf_ok b"
  let ?D = "RouterContact_DecodeKey env" and ?rc = "RouterContact_Clear rc0"
  have d: "safe_dec (decode_object ?D s)" for s by (rule safe_object [OF rc_key_safe [OF srv]])
  have v1: "e = Out_Of_Bounds" if "DecodeVersion_1 env sg dict rc = Inl e" for sg dict rc e
    using that safe_decD(1) [OF d buf_ok_mk_buf(1)]
    by (auto simp: DecodeVersion_1_def Let_def decode_object_def bindE_eq_Inl bindE_eq_Inr split: if_splits prod.splits)
  have v0: "case bindE (bencode_decode_dict ?D ?rc b) (\<lambda>(ok, rc', b'). Inr (if ok then Some rc' else None, b')) of
      Inl e \<Rightarrow> e = Out_Of_Bounds | Inr (r, b') \<Rightarrow> fwd b b' \<and> (r \<noteq> None \<longrightarrow> cur b < cur b')"
    using d [of ?rc] ok unfolding safe_dec_def decode_object_def by blast
  show "case RouterContact_BDecode env rc0 b of Inl e \<Rightarrow> e = Out_Of_Bounds
      | Inr (r, b') \<Rightarrow> fwd b b' \<and> (r \<noteq> None \<longrightarrow> cur b < cur b')"
  proof (cases "deref b")
    case (Inl e)
    then show ?thesis by (auto simp: RouterContact_BDecode_def deref_def split: if_splits)
  next
    case (Inr c)
    then show ?thesis
      using v0 v1 safe_discard [OF ok] discard_moves [OF ok Inr] fwd_refl [OF ok]
      by (auto simp: RouterContact_BDecode_def Let_def split: option.splits bindE_splits sum.splits if_splits)
  qed
qed

lemma got_router_safe: "safe_dec (env_srv_dec env) \<Longrightarrow> safe_key (GotRouterMessage_DecodeKey env netid)"
  unfolding GotRouterMessage_DecodeKey_def
  by (intro safe_decode_key safe, simp only: list.pred_inject safe_step.simps simp_thms,
      intro conjI safe_guarded [where g = "\<lambda>s. s\<lparr>gr_closerTarget := Some zero_key\<rparr>"] safe)

lemma class_keys_safe:
  "safe_key FindNameMessage_DecodeKey" "safe_key GotNameMessage_DecodeKey" "safe_key FindIntroMessage_DecodeKey"
  "safe_key FindRouterMessage_DecodeKey" "safe_key PublishIntroMessage_DecodeKey" "safe_key GotIntroMessage_DecodeKey"
  unfolding FindNameMessage_DecodeKey_def GotNameMessage_DecodeKey_def FindIntroMessage_DecodeKey_def
    FindRouterMessage_DecodeKey_def PublishIntroMessage_DecodeKey_def GotIntroMessage_DecodeKey_def
  by (simp_all only: safe list.pred_inject safe_step.simps simp_thms
      safe_guarded [where g = "\<lambda>s. s"])

lemma ends_into: "ends F b r \<Longrightarrow> ends F b (into c r)"
  by (cases r) (auto simp: into_def)

lemma dht_key_safe: "safe_dec (env_srv_dec env) \<Longrightarrow> safe_key (dht_DecodeKey env netid)"
  unfolding safe_key_def
proof (intro allI impI)
  fix s k b
  assume "safe_dec (env_srv_dec env)" and "buf_ok b"
  then show "ends {Out_Of_Bounds} b (dht_DecodeKey env netid s k b)"
    using class_keys_safe got_router_safe [of env netid] unfolding safe_key_def
    by (cases s) (simp_all add: ends_into)
qed

lemma read_tag_ends:
  assumes "buf_ok b"
  shows "\<exists>r b'. read_tag t k b = Inr (r, b') \<and> fwd b b'"
  using bencode_read_string_safe [OF assms] fwd_refl [OF assms]
  by (auto simp: read_tag_def split: option.splits)

lemma message_of_tag_total: "\<exists>m. message_of_tag from relayed c = Inr m"
  by (simp add: message_of_tag_def new_GotNameMessage_fresh)

lemma MessageDecoder_ends:
  assumes "safe_dec (env_srv_dec env)" and ok: "buf_ok b"
  shows "ends {Out_Of_Bounds} b (MessageDecoder env netid from relayed msg b (Some k))"
proof (cases msg)
  case None
  obtain r b' where r: "read_tag [65] k b = Inr (r, b')" "fwd b b'" using read_tag_ends [OF ok] by blast
  show ?thesis
  proof (cases r)
    case (Some c)
    obtain m :: "'a dht_message option" where "message_of_tag from relayed c = Inr m" using message_of_tag_total by blast
    then show ?thesis using None r Some by (simp add: MessageDecoder_def)
  qed (use None r in \<open>simp add: MessageDecoder_def\<close>)
next
  case (Some m)
  then show ?thesis
    using dht_key_safe [OF assms(1), of netid] ok unfolding safe_key_def by (simp add: MessageDecoder_def ends_into)
qed

section \<open>Properties\<close>

text \<open>
  Claim C26.  Whatever bytes it reads, a message that the decoder of DHT messages returns has keys, path
  ids, nonces, tags and signatures of the sizes of their types, and introduction sets and names within
  their limits.
\<close>

theorem dht_decoded_well_typed:
  assumes "length netid = 8" and "length from = 32"
    and "DecodeMesssage env netid from relayed b = Inr (Some m, b')"
  shows "dht_typed m"
proof -
  obtain b'' where "bencode_read_dict (MessageDecoder env netid from relayed) None b = Inr (True, Some m, b'')"
    using assms(3) by (auto simp: DecodeMesssage_def bindE_eq_Inr split: prod.splits if_splits)
  from read_dict_typed [OF MessageDecoder_typed [OF assms(1,2)] _ this] show ?thesis by simp
qed

theorem dht_decoded_well_typed_witness:
  "dht_typed (dht_received (replicate 32 5) True example_request)"
proof -
  have ok: "dht_ok example_env (\<lambda>_. []) example_request" by (rule example_request_ok)
  let ?b = "mk_buf (wire_msg (dht_entries example_env example_request))"
  have "at ?b (wire_msg (dht_entries example_env example_request))"
    using at_mk_buf [of _ "[]"] by simp
  from DecodeMesssage_at [OF ok this, of "replicate 8 0" "replicate 32 5" True]
  show ?thesis by (rule dht_decoded_well_typed [rotated 2]) simp_all
qed



end
