(* ===== verification/Queue_Manager.thy ===== *)
theory Queue_Manager
  imports Llarp_Prelude
begin

text \<open>
  The index manager of the lock-free queue (\<open>util/thread/queue_manager.cpp\<close>).

  The shared state is the record \<open>qm\<close>.  Every loop of the class is given as a step function: one
  call performs one atomic access to shared memory and moves a program counter that carries the
  locals.  The operation of a thread that runs alone is the iteration of its step function
  (\<open>run_pc\<close>); interleavings of several threads use the same step functions one at a time.

  The assertions of the class are compiled out of release builds and are no part of the step
  functions.
\<close>

unbundle bit_operations_syntax

section \<open>State\<close>

datatype ElementState = Empty | Writing | Full | Reading

datatype QueueReturn = Success | QueueDisabled | QueueEmpty | QueueFull

record qm =
  m_pushIndex :: u32
  m_popIndex :: u32
  m_capacity :: nat
  m_maxGeneration :: u32
  m_maxCombinedIndex :: u32
  m_states :: "u32 list"

definition DISABLED_STATE_MASK :: u32 where
  "DISABLED_STATE_MASK = push_bit 31 1"

definition NUM_COMBINED_INDEXES :: nat where
  "NUM_COMBINED_INDEXES = 2 ^ 31"

definition NUM_ELEMENT_GENERATIONS :: nat where
  "NUM_ELEMENT_GENERATIONS = 2 ^ 30"

definition MAX_CAPACITY :: nat where
  "MAX_CAPACITY = 2 ^ 30"

definition isDisabledFlagSet :: "u32 \<Rightarrow> bool" where
  "isDisabledFlagSet encodedIndex = (encodedIndex AND DISABLED_STATE_MASK \<noteq> 0)"

definition discardDisabledFlag :: "u32 \<Rightarrow> u32" where
  "discardDisabledFlag encodedIndex = (encodedIndex AND NOT DISABLED_STATE_MASK)"

fun to_underlying :: "ElementState \<Rightarrow> u32" where
  "to_underlying Empty = 0"
| "to_underlying Writing = 1"
| "to_underlying Full = 2"
| "to_underlying Reading = 3"

definition encodeElement :: "u32 \<Rightarrow> ElementState \<Rightarrow> u32" where
  "encodeElement generation state = (push_bit 2 generation OR to_underlying state)"

definition decodeGenerationFromElementState :: "u32 \<Rightarrow> u32" where
  "decodeGenerationFromElementState state = drop_bit 2 state"

definition decodeStateFromElementState :: "u32 \<Rightarrow> ElementState" where
  "decodeStateFromElementState state =
     (let s = state AND 3 in
      if s = 0 then Empty else if s = 1 then Writing else if s = 2 then Full else Reading)"

definition nextCombinedIndex :: "qm \<Rightarrow> u32 \<Rightarrow> u32" where
  "nextCombinedIndex q index = (if m_maxCombinedIndex q = index then 0 else index + 1)"

definition nextGeneration :: "qm \<Rightarrow> u32 \<Rightarrow> u32" where
  "nextGeneration q generation = (if m_maxGeneration q = generation then 0 else generation + 1)"

text \<open>The signed results are the values of \<open>int32_t\<close>; mixed arithmetic wraps at 32 bits first.\<close>

definition circularDifference :: "u32 \<Rightarrow> u32 \<Rightarrow> u32 \<Rightarrow> int" where
  "circularDifference startingValue subtractValue modul =
     (let difference = sint (startingValue - subtractValue) in
      if difference > sint (modul div 2) then sint (startingValue - subtractValue - modul)
      else if difference < - sint (modul div 2) then sint (startingValue - subtractValue + modul)
      else difference)"

definition numGenerations :: "nat \<Rightarrow> u32" where
  "numGenerations capacity = of_nat (min (NUM_COMBINED_INDEXES div capacity) NUM_ELEMENT_GENERATIONS)"

definition new_manager :: "nat \<Rightarrow> qm" where
  "new_manager capacity =
     \<lparr>m_pushIndex = 0, m_popIndex = 0, m_capacity = capacity,
      m_maxGeneration = numGenerations capacity - 1,
      m_maxCombinedIndex = numGenerations capacity * of_nat capacity - 1,
      m_states = replicate capacity 0\<rparr>"

definition gen_of :: "qm \<Rightarrow> u32 \<Rightarrow> u32" where
  "gen_of q combinedIndex = of_nat (unat combinedIndex div m_capacity q)"

definition idx_of :: "qm \<Rightarrow> u32 \<Rightarrow> u32" where
  "idx_of q combinedIndex = of_nat (unat combinedIndex mod m_capacity q)"

definition cell :: "qm \<Rightarrow> u32 \<Rightarrow> u32" where
  "cell q index = m_states q ! unat index"

definition set_cell :: "u32 \<Rightarrow> u32 \<Rightarrow> qm \<Rightarrow> qm" where
  "set_cell index v q = q\<lparr>m_states := (m_states q)[unat index := v]\<rparr>"

section \<open>Reserving a cell for writing\<close>

text \<open>
  Program points of \<open>reservePushIndex\<close>: about to load the push index, about to compare-and-swap the
  cell, about to help the push index on, cell taken with the push index still to be moved, returned.
\<close>

datatype push_pc =
    PushLoad u32
  | PushTry u32 u32
  | PushHelp u32 u32
  | PushGot u32 u32 u32
  | PushDone QueueReturn u32 u32

definition cas_push :: "u32 \<Rightarrow> qm \<Rightarrow> u32 \<times> qm" where
  "cas_push combinedIndex q =
     (if m_pushIndex q = combinedIndex
      then (combinedIndex, q\<lparr>m_pushIndex := nextCombinedIndex q combinedIndex\<rparr>)
      else (m_pushIndex q, q))"

definition push_try :: "qm \<Rightarrow> u32 \<Rightarrow> u32 \<Rightarrow> qm \<times> push_pc" where
  "push_try q loadedPushIndex savedPushIndex =
     (if isDisabledFlagSet loadedPushIndex then (q, PushDone QueueDisabled 0 0)
      else
        let combinedIndex = discardDisabledFlag loadedPushIndex;
            currGen = gen_of q combinedIndex;
            currIdx = idx_of q combinedIndex;
            found = cell q currIdx
        in if found = encodeElement currGen Empty
           then (set_cell currIdx (encodeElement currGen Writing) q,
                 PushGot combinedIndex currGen currIdx)
           else
             let difference = sint (currGen - decodeGenerationFromElementState found)
             in if difference = 1 \<or> difference = - sint (m_maxGeneration q)
                then if decodeStateFromElementState found = Reading then (q, PushLoad savedPushIndex)
                     else if savedPushIndex \<noteq> loadedPushIndex then (q, PushLoad loadedPushIndex)
                     else (q, PushDone QueueFull 0 0)
                else (q, PushHelp combinedIndex savedPushIndex))"

fun step_push :: "qm \<Rightarrow> push_pc \<Rightarrow> qm \<times> push_pc" where
  "step_push q (PushLoad saved) = (q, PushTry (m_pushIndex q) saved)"
| "step_push q (PushTry loaded saved) = push_try q loaded saved"
| "step_push q (PushHelp combined saved) =
     (let (loaded, q') = cas_push combined q in (q', PushTry loaded saved))"
| "step_push q (PushGot combined generation index) =
     (snd (cas_push combined q), PushDone Success generation index)"
| "step_push q (PushDone r generation index) = (q, PushDone r generation index)"

definition commitPushIndex :: "u32 \<Rightarrow> u32 \<Rightarrow> qm \<Rightarrow> qm" where
  "commitPushIndex generation index q = set_cell index (encodeElement generation Full) q"

section \<open>Reserving a cell for reading\<close>

datatype pop_pc =
    PopLoad u32
  | PopTry u32 u32
  | PopHelp u32 u32
  | PopGot u32 u32 u32
  | PopDone QueueReturn u32 u32

definition cas_pop :: "u32 \<Rightarrow> qm \<Rightarrow> u32 \<times> qm" where
  "cas_pop loaded q =
     (if m_popIndex q = loaded
      then (loaded, q\<lparr>m_popIndex := nextCombinedIndex q loaded\<rparr>)
      else (m_popIndex q, q))"

definition pop_try :: "qm \<Rightarrow> u32 \<Rightarrow> u32 \<Rightarrow> qm \<times> pop_pc" where
  "pop_try q loadedPopIndex savedPopIndex =
     (let currGen = gen_of q loadedPopIndex;
          currIdx = idx_of q loadedPopIndex;
          found = cell q currIdx
      in if found = encodeElement currGen Full
         then (set_cell currIdx (encodeElement currGen Reading) q,
               PopGot loadedPopIndex currGen currIdx)
         else
           let state = decodeStateFromElementState found;
               difference = sint (currGen - decodeGenerationFromElementState found)
           in if difference = 1 \<or> difference = - sint (m_maxGeneration q)
              then (q, PopDone QueueEmpty 0 0)
              else if difference = 0 \<and> state = Empty
              then if savedPopIndex \<noteq> loadedPopIndex then (q, PopLoad loadedPopIndex)
                   else (q, PopDone QueueEmpty 0 0)
              else if difference \<noteq> 0 \<or> state = Writing then (q, PopLoad savedPopIndex)
              else (q, PopHelp loadedPopIndex savedPopIndex))"

fun step_pop :: "qm \<Rightarrow> pop_pc \<Rightarrow> qm \<times> pop_pc" where
  "step_pop q (PopLoad saved) = (q, PopTry (m_popIndex q) saved)"
| "step_pop q (PopTry loaded saved) = pop_try q loaded saved"
| "step_pop q (PopHelp loaded saved) =
     (let (loaded', q') = cas_pop loaded q in (q', PopTry loaded' saved))"
| "step_pop q (PopGot loaded generation index) =
     (snd (cas_pop loaded q), PopDone Success generation index)"
| "step_pop q (PopDone r generation index) = (q, PopDone r generation index)"

definition commitPopIndex :: "u32 \<Rightarrow> u32 \<Rightarrow> qm \<Rightarrow> qm" where
  "commitPopIndex generation index q =
     set_cell index (encodeElement (nextGeneration q generation) Empty) q"

section \<open>Clearing up to a reserved cell\<close>

datatype clear_pc =
    ClearLoad
  | ClearTry u32
  | ClearHelp u32
  | ClearGot u32 u32 u32
  | ClearDone bool u32 u32

definition clear_try :: "u32 \<Rightarrow> u32 \<Rightarrow> qm \<Rightarrow> u32 \<Rightarrow> qm \<times> clear_pc" where
  "clear_try endGeneration endIndex q loadedCombinedIndex =
     (let endCombinedIndex = endGeneration * of_nat (m_capacity q) + endIndex
      in if circularDifference endCombinedIndex loadedCombinedIndex (m_maxCombinedIndex q + 1) = 0
         then (q, ClearDone False 0 0)
         else
           let currIdx = idx_of q loadedCombinedIndex;
               currGen = gen_of q loadedCombinedIndex;
               found = cell q currIdx
           in if found = encodeElement currGen Full
              then (set_cell currIdx (encodeElement currGen Reading) q,
                    ClearGot loadedCombinedIndex currGen currIdx)
              else
                let state = decodeStateFromElementState found
                in if state = Writing \<or> state = Full then (q, ClearLoad)
                   else (q, ClearHelp loadedCombinedIndex))"

fun step_clear :: "u32 \<Rightarrow> u32 \<Rightarrow> qm \<Rightarrow> clear_pc \<Rightarrow> qm \<times> clear_pc" where
  "step_clear eg ei q ClearLoad = (q, ClearTry (m_popIndex q))"
| "step_clear eg ei q (ClearTry loaded) = clear_try eg ei q loaded"
| "step_clear eg ei q (ClearHelp loaded) =
     (let (loaded', q') = cas_pop loaded q in (q', ClearTry loaded'))"
| "step_clear eg ei q (ClearGot loaded generation index) =
     (snd (cas_pop loaded q), ClearDone True generation index)"
| "step_clear eg ei q (ClearDone r generation index) = (q, ClearDone r generation index)"

definition abortPushIndexReservation :: "u32 \<Rightarrow> u32 \<Rightarrow> qm \<Rightarrow> qm" where
  "abortPushIndexReservation generation index q =
     (let loadedPopIndex = m_popIndex q;
          q1 = set_cell index (encodeElement generation Reading) q;
          q2 = snd (cas_pop loadedPopIndex q1)
      in set_cell index (encodeElement (nextGeneration q generation) Empty) q2)"

section \<open>Switching the queue off and on\<close>

datatype flag_pc = FlagLoad | FlagCas u32 | FlagDone

fun step_disable :: "qm \<Rightarrow> flag_pc \<Rightarrow> qm \<times> flag_pc" where
  "step_disable q FlagLoad =
     (q, if isDisabledFlagSet (m_pushIndex q) then FlagDone else FlagCas (m_pushIndex q))"
| "step_disable q (FlagCas index) =
     (if m_pushIndex q = index
      then (q\<lparr>m_pushIndex := index OR DISABLED_STATE_MASK\<rparr>, FlagDone)
      else (q, FlagLoad))"
| "step_disable q FlagDone = (q, FlagDone)"

fun step_enable :: "qm \<Rightarrow> flag_pc \<Rightarrow> qm \<times> flag_pc" where
  "step_enable q FlagLoad =
     (q, if \<not> isDisabledFlagSet (m_pushIndex q) then FlagDone else FlagCas (m_pushIndex q))"
| "step_enable q (FlagCas index) =
     (if m_pushIndex q = index
      then (q\<lparr>m_pushIndex := index AND NOT DISABLED_STATE_MASK\<rparr>, FlagDone)
      else (q, FlagLoad))"
| "step_enable q FlagDone = (q, FlagDone)"

definition enabled :: "qm \<Rightarrow> bool" where
  "enabled q = (\<not> isDisabledFlagSet (m_pushIndex q))"

definition qm_size :: "qm \<Rightarrow> nat" where
  "qm_size q =
     (let combinedPushIndex = discardDisabledFlag (m_pushIndex q);
          combinedPopIndex = m_popIndex q;
          difference = sint (combinedPushIndex - combinedPopIndex)
      in if difference \<ge> 0
         then if difference > sint (of_nat (m_capacity q) :: u32) then 0 else nat difference
         else if difference < - sint (m_maxCombinedIndex q div 2)
         then min (nat (sint (combinedPushIndex - combinedPopIndex + (m_maxCombinedIndex q + 1)) mod 2 ^ 64))
                  (m_capacity q)
         else 0)"

section \<open>A thread that runs alone\<close>

fun run_pc :: "('q \<Rightarrow> 'p \<Rightarrow> 'q \<times> 'p) \<Rightarrow> ('p \<Rightarrow> 'r option) \<Rightarrow> nat \<Rightarrow> 'q \<Rightarrow> 'p \<Rightarrow> ('r \<times> 'q) result" where
  "run_pc step ret 0 q pc = (case ret pc of Some r \<Rightarrow> Inr (r, q) | None \<Rightarrow> Inl Out_Of_Fuel)"
| "run_pc step ret (Suc n) q pc =
     (case ret pc of
        Some r \<Rightarrow> Inr (r, q)
      | None \<Rightarrow> (case step q pc of (q', pc') \<Rightarrow> run_pc step ret n q' pc'))"

fun push_returned :: "push_pc \<Rightarrow> (QueueReturn \<times> u32 \<times> u32) option" where
  "push_returned (PushDone r g i) = Some (r, g, i)"
| "push_returned _ = None"

fun pop_returned :: "pop_pc \<Rightarrow> (QueueReturn \<times> u32 \<times> u32) option" where
  "pop_returned (PopDone r g i) = Some (r, g, i)"
| "pop_returned _ = None"

fun clear_returned :: "clear_pc \<Rightarrow> (bool \<times> u32 \<times> u32) option" where
  "clear_returned (ClearDone r g i) = Some (r, g, i)"
| "clear_returned _ = None"

fun flag_returned :: "flag_pc \<Rightarrow> unit option" where
  "flag_returned FlagDone = Some ()"
| "flag_returned _ = None"

text \<open>
  No loop of the class makes more than four atomic accesses when no other thread is active;
  \<open>spin_fuel\<close> leaves room above that, and the lemmas on the operations show that it is never used up.
\<close>

definition spin_fuel :: nat where
  "spin_fuel = 8"

definition reservePushIndex :: "qm \<Rightarrow> ((QueueReturn \<times> u32 \<times> u32) \<times> qm) result" where
  "reservePushIndex q = run_pc step_push push_returned spin_fuel q (PushLoad (- 1))"

definition reservePopIndex :: "qm \<Rightarrow> ((QueueReturn \<times> u32 \<times> u32) \<times> qm) result" where
  "reservePopIndex q = run_pc step_pop pop_returned spin_fuel q (PopLoad (- 1))"

definition reservePopForClear :: "u32 \<Rightarrow> u32 \<Rightarrow> qm \<Rightarrow> ((bool \<times> u32 \<times> u32) \<times> qm) result" where
  "reservePopForClear eg ei q = run_pc (step_clear eg ei) clear_returned spin_fuel q ClearLoad"

definition disable :: "qm \<Rightarrow> (unit \<times> qm) result" where
  "disable q = run_pc step_disable flag_returned spin_fuel q FlagLoad"

definition enable :: "qm \<Rightarrow> (unit \<times> qm) result" where
  "enable q = run_pc step_enable flag_returned spin_fuel q FlagLoad"

end
