(* ===== verification/Queue_Manager_Facts.thy ===== *)
theory Queue_Manager_Facts
  imports Queue_Manager
begin

text \<open>
  Behaviour of the index manager for a thread that runs alone: coding of the element states, the
  arithmetic of combined indexes and generations around their wrap, the ring invariant, and what
  every operation does to a ring.
\<close>

section \<open>Flag and element coding\<close>

lemma bit_word_unat: "bit (w :: 'a::len word) n \<longleftrightarrow> bit (unat w) n"
  by (simp add: bit_unsigned_iff) 

lemma bit31_iff: "bit (w :: u32) 31 \<longleftrightarrow> 2 ^ 31 \<le> unat w"
proof -
  have "unat w < 2 ^ 32" using unat_bound[of w] by simp
  then have "unat w div 2 ^ 31 = (if 2 ^ 31 \<le> unat w then 1 else 0)"
    by (auto intro!: div_less simp: div_nat_eqI)
  then show ?thesis by (simp add: bit_word_unat bit_iff_odd)
qed

lemma bit_mask31: "bit (2147483648 :: u32) n \<longleftrightarrow> n = 31"
proof -
  have "bit (push_bit 31 (1 :: u32)) n \<longleftrightarrow> n = 31"
    by (auto simp: bit_push_bit_iff bit_1_iff simp del: push_bit_of_1)
  then show ?thesis by simp
qed

lemma and_mask_bit: "w AND (2147483648 :: u32) \<noteq> 0 \<longleftrightarrow> bit w 31"
proof
  assume "w AND 2147483648 \<noteq> 0"
  then obtain n where "bit (w AND 2147483648) n" by (auto simp: bit_eq_iff)
  then show "bit w 31" by (auto simp only: bit_and_iff bit_mask31)
next
  assume "bit w 31"
  then have "bit (w AND 2147483648) 31" by (simp only: bit_and_iff bit_mask31)
  then show "w AND 2147483648 \<noteq> 0" by (intro notI) (simp only: bit_0_eq, simp)
qed

lemma disabled_iff: "isDisabledFlagSet w \<longleftrightarrow> 2 ^ 31 \<le> unat w"
  using and_mask_bit[of w] by (simp add: isDisabledFlagSet_def DISABLED_STATE_MASK_def bit31_iff)

lemma discard_take: "discardDisabledFlag w = take_bit 31 w"
  by (rule bit_word_eqI) (auto simp: discardDisabledFlag_def DISABLED_STATE_MASK_def bit_and_iff bit_not_iff
     bit_push_bit_iff bit_take_bit_iff bit_1_iff simp del: push_bit_of_1)

lemma unat_discard: "unat (discardDisabledFlag w) = unat w mod 2 ^ 31"
  by (simp add: discard_take unsigned_take_bit_eq take_bit_eq_mod unat_mod)

lemma to_underlying_less: "unat (to_underlying s) < 4"
  by (cases s) auto

lemma encode_add: "encodeElement g s = 4 * g + to_underlying s"
proof -
  have *: "\<not> bit (to_underlying s) n" if "2 \<le> n" for n
  proof -
    have "(2::nat) ^ 2 \<le> 2 ^ n" using that by (rule power_increasing) simp
    then have "unat (to_underlying s) < 2 ^ n" using to_underlying_less[of s] by simp
    then show ?thesis by (simp add: bit_word_unat bit_iff_odd)
  qed
  show ?thesis unfolding encodeElement_def
  proof (subst disjunctive_add[symmetric])
    show "\<not> bit (push_bit 2 g) n \<or> \<not> bit (to_underlying s) n" for n
      using *[of n] by (simp add: bit_push_bit_iff del: push_bit_of_1)
  qed (simp add: push_bit_eq_mult)
qed

lemma unat_encode: "unat g < 2 ^ 30 \<Longrightarrow> unat (encodeElement g s) = 4 * unat g + unat (to_underlying s)"
  using to_underlying_less[of s] by (simp add: encode_add unat_word_ariths)

lemma decodeGeneration_encode [simp]:
  "unat g < 2 ^ 30 \<Longrightarrow> decodeGenerationFromElementState (encodeElement g s) = g"
proof -
  assume g: "unat g < 2 ^ 30"
  have "unat (decodeGenerationFromElementState (encodeElement g s)) = unat g"
    using to_underlying_less[of s] g
    by (simp add: decodeGenerationFromElementState_def drop_bit_eq_div unat_div unat_encode)
  then show ?thesis by (rule unsigned_word_eqI)
qed

lemma and_3: "(w :: u32) AND 3 = take_bit 2 w"
  using take_bit_eq_mask[of 2 w] by (simp add: mask_eq_exp_minus_1)

lemma decodeState_encode [simp]:
  "unat g < 2 ^ 30 \<Longrightarrow> decodeStateFromElementState (encodeElement g s) = s"
proof -
  assume g: "unat g < 2 ^ 30"
  have "unat (encodeElement g s AND 3) = unat (to_underlying s)"
    using to_underlying_less[of s] g
    by (simp add: and_3 unsigned_take_bit_eq unat_encode take_bit_eq_mod unat_mod)
  then have "encodeElement g s AND 3 = to_underlying s" by (rule unsigned_word_eqI)
  then show ?thesis by (cases s) (simp_all add: decodeStateFromElementState_def)
qed

lemma encode_inj:
  "unat g < 2 ^ 30 \<Longrightarrow> unat g' < 2 ^ 30 \<Longrightarrow>
   encodeElement g s = encodeElement g' s' \<longleftrightarrow> g = g' \<and> s = s'"
  by (metis decodeGeneration_encode decodeState_encode)

section \<open>Combined indexes\<close>

definition gens :: "nat \<Rightarrow> nat" where
  "gens c = min (2 ^ 31 div c) (2 ^ 30)"

definition cycle :: "qm \<Rightarrow> nat" where
  "cycle q = gens (m_capacity q) * m_capacity q"

definition qm_wf :: "qm \<Rightarrow> bool" where
  "qm_wf q \<longleftrightarrow> 0 < m_capacity q \<and> m_capacity q \<le> MAX_CAPACITY \<and>
     Suc (unat (m_maxGeneration q)) = gens (m_capacity q) \<and>
     Suc (unat (m_maxCombinedIndex q)) = cycle q \<and> length (m_states q) = m_capacity q"

lemma gens_ge_2: "0 < c \<Longrightarrow> c \<le> MAX_CAPACITY \<Longrightarrow> 2 \<le> gens c"
  by (simp add: gens_def MAX_CAPACITY_def less_eq_div_iff_mult_less_eq)

lemma gens_le: "gens c \<le> 2 ^ 30"
  by (simp add: gens_def)

lemma gens_mult_le: "gens c * c \<le> 2 ^ 31"
proof -
  have "gens c * c \<le> (2 ^ 31 div c) * c" by (simp add: gens_def)
  also have "\<dots> \<le> 2 ^ 31" by (rule div_times_less_eq_dividend)
  finally show ?thesis .
qed

lemma unat_numGenerations: "unat (numGenerations c) = gens c"
  using gens_le[of c]
  by (simp add: numGenerations_def gens_def NUM_COMBINED_INDEXES_def NUM_ELEMENT_GENERATIONS_def
      unat_of_nat take_bit_eq_mod)

lemma qm_wfD:
  assumes "qm_wf q"
  shows "0 < m_capacity q" "m_capacity q \<le> 2 ^ 30" "2 \<le> gens (m_capacity q)"
    "gens (m_capacity q) \<le> 2 ^ 30" "cycle q \<le> 2 ^ 31" "2 * m_capacity q \<le> cycle q"
    "Suc (unat (m_maxGeneration q)) = gens (m_capacity q)"
    "Suc (unat (m_maxCombinedIndex q)) = cycle q" "length (m_states q) = m_capacity q"
  using assms gens_ge_2[of "m_capacity q"] gens_le[of "m_capacity q"] gens_mult_le[of "m_capacity q"]
  by (simp_all add: qm_wf_def MAX_CAPACITY_def cycle_def)

lemma unat_add_1_less: "unat (w :: u32) < 2 ^ 31 \<Longrightarrow> unat (w + 1) = Suc (unat w)"
  by (simp add: unat_word_ariths)

lemma unat_minus_1: "0 < unat (w :: u32) \<Longrightarrow> Suc (unat (w - 1)) = unat w"
  by (metis Suc_pred One_nat_def unat_eq_zero less_irrefl unat_minus_one)

lemma new_manager_wf: "0 < c \<Longrightarrow> c \<le> MAX_CAPACITY \<Longrightarrow> qm_wf (new_manager c)"
proof -
  assume c: "0 < c" "c \<le> MAX_CAPACITY"
  have g: "2 \<le> gens c" "gens c \<le> 2 ^ 30" "gens c * c \<le> 2 ^ 31"
    using c by (simp_all only: gens_ge_2 gens_le gens_mult_le)
  have "unat (of_nat c :: u32) = c"
    using c by (simp add: MAX_CAPACITY_def unat_of_nat take_bit_eq_mod)
  then have prod: "unat (numGenerations c * of_nat c) = gens c * c"
    using g by (simp add: unat_word_ariths unat_numGenerations)
  have "Suc (unat (numGenerations c - 1)) = gens c"
    using g by (simp add: unat_minus_1 unat_numGenerations)
  moreover have "Suc (unat (numGenerations c * of_nat c - 1)) = gens c * c"
    using g c by (subst unat_minus_1) (simp_all add: prod)
  ultimately show ?thesis
    using c by (simp add: qm_wf_def new_manager_def cycle_def)
qed

text \<open>
  Positions are counted without bound from the creation of the queue; position \<open>j\<close> lives in the cell
  \<open>j mod capacity\<close> and carries the generation \<open>gen_at q j\<close>.
\<close>

definition gen_at :: "qm \<Rightarrow> nat \<Rightarrow> u32" where
  "gen_at q j = of_nat (j div m_capacity q mod gens (m_capacity q))"

definition idx_at :: "qm \<Rightarrow> nat \<Rightarrow> u32" where
  "idx_at q j = of_nat (j mod m_capacity q)"

lemma unat_gen_at: "qm_wf q \<Longrightarrow> unat (gen_at q j) = j div m_capacity q mod gens (m_capacity q)"
proof -
  assume wf: "qm_wf q"
  have "j div m_capacity q mod gens (m_capacity q) < 2 ^ 30"
    using qm_wfD(3,4)[OF wf] by (meson less_le_trans mod_less_divisor zero_less_numeral)
  then show ?thesis by (simp add: gen_at_def unat_of_nat take_bit_eq_mod)
qed

lemma gen_at_less: "qm_wf q \<Longrightarrow> unat (gen_at q j) < gens (m_capacity q)"
  using qm_wfD(3)[of q] by (simp add: unat_gen_at)

lemma gen_at_less_30: "qm_wf q \<Longrightarrow> unat (gen_at q j) < 2 ^ 30"
  using gen_at_less[of q j] qm_wfD(4)[of q] by linarith

lemma unat_idx_at: "qm_wf q \<Longrightarrow> unat (idx_at q j) = j mod m_capacity q"
proof -
  assume wf: "qm_wf q"
  have "j mod m_capacity q < 2 ^ 30"
    using qm_wfD(1,2)[OF wf] by (meson less_le_trans mod_less_divisor)
  then show ?thesis by (simp add: idx_at_def unat_of_nat take_bit_eq_mod)
qed

lemma mod_cycle_div: "j mod cycle q div m_capacity q = j div m_capacity q mod gens (m_capacity q)"
  by (cases "m_capacity q = 0") (simp_all add: cycle_def mult.commute[of "gens _"] mod_mult2_eq)

lemma mod_cycle_mod: "j mod cycle q mod m_capacity q = j mod m_capacity q"
  by (simp add: cycle_def mod_mod_cancel)

lemma gen_of_at: "unat w = j mod cycle q \<Longrightarrow> gen_of q w = gen_at q j"
  by (simp add: gen_of_def gen_at_def mod_cycle_div)

lemma idx_of_at: "unat w = j mod cycle q \<Longrightarrow> idx_of q w = idx_at q j"
  by (simp add: idx_of_def idx_at_def mod_cycle_mod)

lemma nextCombinedIndex_at:
  assumes wf: "qm_wf q" and w: "unat w = j mod cycle q"
  shows "unat (nextCombinedIndex q w) = Suc j mod cycle q"
proof (cases "m_maxCombinedIndex q = w")
  case True
  then have "Suc (j mod cycle q) = cycle q" using w qm_wfD(8)[OF wf] by simp
  then show ?thesis using True by (simp add: nextCombinedIndex_def mod_Suc)
next
  case False
  then have "unat w \<noteq> unat (m_maxCombinedIndex q)" by (simp add: word_unat_eq_iff)
  then have ne: "Suc (j mod cycle q) \<noteq> cycle q" using w qm_wfD(8)[OF wf] by simp
  have "unat w < 2 ^ 31"
    using w qm_wfD(1,5,6)[OF wf] by (metis less_le_trans mod_less_divisor mult_pos_pos zero_less_numeral)
  then show ?thesis using False ne w by (simp add: nextCombinedIndex_def mod_Suc unat_add_1_less)
qed

lemma nextGeneration_at:
  assumes wf: "qm_wf q"
  shows "nextGeneration q (gen_at q j) = gen_at q (j + m_capacity q)"
proof -
  let ?c = "m_capacity q" and ?g = "gens (m_capacity q)"
  have "(j + ?c) div ?c = Suc (j div ?c)" using qm_wfD(1)[OF wf] by (simp add: div_add_self2)
  then have next_at: "unat (gen_at q (j + ?c)) = Suc (unat (gen_at q j)) mod ?g"
    using wf by (simp add: unat_gen_at mod_Suc_eq)
  show ?thesis
  proof (cases "m_maxGeneration q = gen_at q j")
    case True
    then have "Suc (unat (gen_at q j)) = ?g" using qm_wfD(7)[OF wf] by simp
    then have "unat (gen_at q (j + ?c)) = 0" using next_at by simp
    then show ?thesis using True by (simp add: nextGeneration_def unat_eq_zero)
  next
    case False
    then have "unat (m_maxGeneration q) \<noteq> unat (gen_at q j)" by (simp add: word_unat_eq_iff)
    then have "Suc (unat (gen_at q j)) < ?g"
      using gen_at_less[OF wf, of j] qm_wfD(7)[OF wf] by linarith
    moreover have "unat (gen_at q j + 1) = Suc (unat (gen_at q j))"
      using gen_at_less_30[OF wf, of j] by (simp add: unat_add_1_less)
    ultimately have "unat (gen_at q j + 1) = unat (gen_at q (j + ?c))" using next_at by simp
    then show ?thesis using False by (simp add: nextGeneration_def word_unat_eq_iff)
  qed
qed

lemma sint_eqI:
  assumes "w = (word_of_int k :: u32)" "- (2 ^ 31) \<le> k" "k < 2 ^ 31"
  shows "sint w = k"
proof -
  have "sint w = signed_take_bit 31 k" unfolding assms(1) by (simp only: signed_of_int) simp
  also have "\<dots> = k" using assms(2,3) by (rule signed_take_bit_int_eq_self)
  finally show ?thesis .
qed

lemma sint_diff:
  "uint (a :: u32) < 2 ^ 31 \<Longrightarrow> uint b < 2 ^ 31 \<Longrightarrow> sint (a - b) = uint a - uint b"
  using uint_nonnegative[of a] uint_nonnegative[of b] by (intro sint_eqI) (simp, linarith+)

lemma sint_less: "uint (a :: u32) < 2 ^ 31 \<Longrightarrow> sint a = uint a"
  using sint_diff[of a 0] by simp

lemma circularDifference_spec:
  assumes m: "uint m \<le> 2 ^ 31" and a: "uint a < uint m" and b: "uint b < uint m"
  shows "circularDifference a b m =
     (let d = uint a - uint b; h = uint m div 2
      in if d > h then d - uint m else if d < - h then d + uint m else d)"
proof -
  have p: "0 \<le> uint a" "0 \<le> uint b" by simp_all
  have d: "sint (a - b) = uint a - uint b"
    using assms by (intro sint_diff) linarith+
  have "uint (m div 2) = uint m div 2" by (simp add: uint_div)
  then have h: "sint (m div 2) = uint m div 2"
    using m sint_less[of "m div 2"] by simp
  have lo: "sint (a - b - m) = uint a - uint b - uint m" if "uint a - uint b > uint m div 2"
    using that assms p by (intro sint_eqI) (simp, linarith+)
  have hi: "sint (a - b + m) = uint a - uint b + uint m" if "uint a - uint b < - (uint m div 2)"
    using that assms p by (intro sint_eqI) (simp, linarith+)
  show ?thesis unfolding circularDifference_def Let_def d h using lo hi by simp
qed


lemma uint_less_numeral: "uint w < numeral k \<longleftrightarrow> unat w < numeral k"
  using of_nat_less_iff[where 'a = int, of "unat w" "numeral k"] by simp

lemma uint_ge_1: "1 \<le> uint w \<longleftrightarrow> 1 \<le> unat w"
  using of_nat_le_iff[where 'a = int, of 1 "unat w"] by simp

lemma sint_maxGeneration:
  assumes wf: "qm_wf q"
  shows "sint (m_maxGeneration q) = uint (m_maxGeneration q)" "1 \<le> sint (m_maxGeneration q)"
proof -
  have "unat (m_maxGeneration q) < 2 ^ 30" "1 \<le> unat (m_maxGeneration q)"
    using qm_wfD(3,4,7)[OF wf] by linarith+
  then have *: "uint (m_maxGeneration q) < 2 ^ 30" "1 \<le> uint (m_maxGeneration q)"
    by (simp_all add: uint_less_numeral uint_ge_1)
  then show "sint (m_maxGeneration q) = uint (m_maxGeneration q)" by (simp add: sint_less)
  then show "1 \<le> sint (m_maxGeneration q)" using * by simp
qed

lemma uint_gen_at_less: "qm_wf q \<Longrightarrow> uint (gen_at q j) < 2 ^ 31"
  using gen_at_less_30[of q j] by (simp add: uint_less_numeral)

lemma generation_behind:
  assumes wf: "qm_wf q"
  shows "sint (gen_at q (j + m_capacity q) - gen_at q j) = 1 \<or>
         sint (gen_at q (j + m_capacity q) - gen_at q j) = - sint (m_maxGeneration q)"
proof (cases "m_maxGeneration q = gen_at q j")
  case True
  then have "gen_at q (j + m_capacity q) = 0"
    using nextGeneration_at[OF wf, of j] by (simp add: nextGeneration_def)
  then have "sint (gen_at q (j + m_capacity q) - gen_at q j) = - uint (gen_at q j)"
    using sint_diff[of 0 "gen_at q j"] uint_gen_at_less[OF wf] by simp
  then show ?thesis using True sint_maxGeneration(1)[OF wf] by simp
next
  case False
  then have "gen_at q (j + m_capacity q) = gen_at q j + 1"
    using nextGeneration_at[OF wf, of j] by (simp add: nextGeneration_def)
  then show ?thesis by simp
qed

section \<open>The ring of cells\<close>

text \<open>
  \<open>ring q h p m st\<close>: the oldest occupied position is \<open>h\<close>, the pop index stands at \<open>h + p\<close>, the push
  index at \<open>h + m\<close>, and the cell of position \<open>h + k\<close> carries the generation of that position and the
  state \<open>st k\<close>.
\<close>

definition ring :: "qm \<Rightarrow> nat \<Rightarrow> nat \<Rightarrow> nat \<Rightarrow> (nat \<Rightarrow> ElementState) \<Rightarrow> bool" where
  "ring q h p m st \<longleftrightarrow> qm_wf q \<and> unat (m_popIndex q) = (h + p) mod cycle q \<and>
     unat (discardDisabledFlag (m_pushIndex q)) = (h + m) mod cycle q \<and>
     (\<forall>k<m_capacity q. cell q (idx_at q (h + k)) = encodeElement (gen_at q (h + k)) (st k))"

lemma ringD:
  assumes "ring q h p m st"
  shows "qm_wf q" "unat (m_popIndex q) = (h + p) mod cycle q"
    "unat (discardDisabledFlag (m_pushIndex q)) = (h + m) mod cycle q"
    "k < m_capacity q \<Longrightarrow> cell q (idx_at q (h + k)) = encodeElement (gen_at q (h + k)) (st k)"
  using assms by (auto simp: ring_def)

lemma position_update [simp]:
  "gen_at (q\<lparr>m_states := x\<rparr>) j = gen_at q j" "gen_at (q\<lparr>m_popIndex := w\<rparr>) j = gen_at q j"
  "gen_at (q\<lparr>m_pushIndex := w\<rparr>) j = gen_at q j"
  "idx_at (q\<lparr>m_states := x\<rparr>) j = idx_at q j" "idx_at (q\<lparr>m_popIndex := w\<rparr>) j = idx_at q j"
  "idx_at (q\<lparr>m_pushIndex := w\<rparr>) j = idx_at q j"
  "cycle (q\<lparr>m_states := x\<rparr>) = cycle q" "cycle (q\<lparr>m_popIndex := w\<rparr>) = cycle q"
  "cycle (q\<lparr>m_pushIndex := w\<rparr>) = cycle q"
  "qm_wf (q\<lparr>m_popIndex := w\<rparr>) = qm_wf q" "qm_wf (q\<lparr>m_pushIndex := w\<rparr>) = qm_wf q"
  "cell (q\<lparr>m_popIndex := w\<rparr>) i = cell q i" "cell (q\<lparr>m_pushIndex := w\<rparr>) i = cell q i"
  by (simp_all add: gen_at_def idx_at_def cycle_def qm_wf_def cell_def)

lemma set_cell_simps [simp]:
  "m_capacity (set_cell i v q) = m_capacity q" "m_popIndex (set_cell i v q) = m_popIndex q"
  "m_pushIndex (set_cell i v q) = m_pushIndex q"
  "m_maxCombinedIndex (set_cell i v q) = m_maxCombinedIndex q"
  "m_maxGeneration (set_cell i v q) = m_maxGeneration q"
  "gen_at (set_cell i v q) j = gen_at q j" "idx_at (set_cell i v q) j = idx_at q j"
  "cycle (set_cell i v q) = cycle q" "qm_wf (set_cell i v q) = qm_wf q"
  "nextCombinedIndex (set_cell i v q) w = nextCombinedIndex q w"
  "nextGeneration (set_cell i v q) w = nextGeneration q w"
  by (simp_all add: set_cell_def qm_wf_def cycle_def nextCombinedIndex_def nextGeneration_def)

lemma cell_set_cell:
  "qm_wf q \<Longrightarrow> cell (set_cell (idx_at q j) v q) i = (if i = idx_at q j then v else cell q i)"
  using qm_wfD(1,9)[of q]
  by (simp add: cell_def set_cell_def unat_idx_at nth_list_update word_unat_eq_iff)

lemma mod_add_window:
  fixes h k k' c :: nat
  assumes eq: "(h + k) mod c = (h + k') mod c" and "k < c" "k' < c"
  shows "k = k'"
proof -
  have *: "a = b" if "a \<le> b" "b < c" "(h + a) mod c = (h + b) mod c" for a b :: nat
  proof -
    have "c dvd (h + b) - (h + a)" using that by (subst mod_eq_dvd_iff_nat[symmetric]) simp_all
    then show ?thesis using that by (auto dest: dvd_imp_le)
  qed
  show ?thesis
    using *[of k k'] *[of k' k] assms by (cases "k \<le> k'") simp_all
qed

lemma idx_at_inj:
  assumes wf: "qm_wf q" and "k < m_capacity q" "k' < m_capacity q"
  shows "idx_at q (h + k) = idx_at q (h + k') \<longleftrightarrow> k = k'"
proof -
  have "idx_at q (h + k) = idx_at q (h + k') \<longleftrightarrow> (h + k) mod m_capacity q = (h + k') mod m_capacity q"
    using wf by (simp add: word_unat_eq_iff unat_idx_at)
  also have "\<dots> \<longleftrightarrow> k = k'"
    using mod_add_window[of h k "m_capacity q" k'] assms(2,3) by auto
  finally show ?thesis .
qed

lemma ring_set_cell:
  assumes r: "ring q h p m st" and k: "k < m_capacity q"
  shows "ring (set_cell (idx_at q (h + k)) (encodeElement (gen_at q (h + k)) s) q) h p m (st(k := s))"
  using r k by (auto simp: ring_def cell_set_cell idx_at_inj)


lemma discard_enabled: "enabled q \<Longrightarrow> discardDisabledFlag (m_pushIndex q) = m_pushIndex q"
  by (simp add: enabled_def disabled_iff word_unat_eq_iff unat_discard)

lemma cycle_pos: "qm_wf q \<Longrightarrow> 0 < cycle q"
  using qm_wfD(1,6)[of q] by linarith

lemma below_cycle_enabled: "qm_wf q \<Longrightarrow> unat w = j mod cycle q \<Longrightarrow> unat w < 2 ^ 31"
  using qm_wfD(5)[of q] cycle_pos[of q] mod_less_divisor[of "cycle q" j] by linarith

lemma ring_push_index:
  assumes r: "ring q h p m st" and en: "enabled q"
  shows "ring (q\<lparr>m_pushIndex := nextCombinedIndex q (m_pushIndex q)\<rparr>) h p (Suc m) st"
    and "enabled (q\<lparr>m_pushIndex := nextCombinedIndex q (m_pushIndex q)\<rparr>)"
proof -
  note wf = ringD(1)[OF r]
  have "unat (m_pushIndex q) = (h + m) mod cycle q"
    using ringD(3)[OF r] discard_enabled[OF en] by simp
  then have n: "unat (nextCombinedIndex q (m_pushIndex q)) = Suc (h + m) mod cycle q"
    by (rule nextCombinedIndex_at[OF wf])
  then have small: "unat (nextCombinedIndex q (m_pushIndex q)) < 2 ^ 31"
    by (rule below_cycle_enabled[OF wf])
  then show "enabled (q\<lparr>m_pushIndex := nextCombinedIndex q (m_pushIndex q)\<rparr>)"
    by (simp add: enabled_def disabled_iff)
  show "ring (q\<lparr>m_pushIndex := nextCombinedIndex q (m_pushIndex q)\<rparr>) h p (Suc m) st"
    using r n small by (simp add: ring_def unat_discard)
qed

lemma ring_pop_index:
  assumes r: "ring q h p m st"
  shows "ring (q\<lparr>m_popIndex := nextCombinedIndex q (m_popIndex q)\<rparr>) h (Suc p) m st"
  using r nextCombinedIndex_at[OF ringD(1)[OF r] ringD(2)[OF r]] by (simp add: ring_def)

lemma run_pc_ret: "ret pc = Some r \<Longrightarrow> run_pc step ret n q pc = Inr (r, q)"
  by (cases n) simp_all

lemma run_pc_step:
  "ret pc = None \<Longrightarrow> step q pc = (q', pc') \<Longrightarrow> run_pc step ret (Suc n) q pc = run_pc step ret n q' pc'"
  by simp

lemma enabled_set_cell [simp]: "enabled (set_cell i v q) = enabled q"
  by (simp add: enabled_def)

lemma push_try_takes:
  assumes r: "ring q h p m st" and en: "enabled q" and m: "m < m_capacity q" and e: "st m = Empty"
  shows "push_try q (m_pushIndex q) saved =
     (set_cell (idx_at q (h + m)) (encodeElement (gen_at q (h + m)) Writing) q,
      PushGot (m_pushIndex q) (gen_at q (h + m)) (idx_at q (h + m)))"
proof -
  have d: "discardDisabledFlag (m_pushIndex q) = m_pushIndex q" using en by (rule discard_enabled)
  then have "gen_of q (m_pushIndex q) = gen_at q (h + m)" "idx_of q (m_pushIndex q) = idx_at q (h + m)"
    using ringD(3)[OF r] by (simp_all add: gen_of_at idx_of_at)
  then show ?thesis
    using en ringD(4)[OF r m] e d by (simp add: push_try_def enabled_def Let_def)
qed

lemma reservePushIndex_takes:
  assumes r: "ring q h p m st" and en: "enabled q" and m: "m < m_capacity q" and e: "st m = Empty"
  obtains q' where
    "reservePushIndex q = Inr ((Success, gen_at q (h + m), idx_at q (h + m)), q')"
    "ring q' h p (Suc m) (st(m := Writing))" "enabled q'" "m_capacity q' = m_capacity q"
proof -
  let ?q1 = "set_cell (idx_at q (h + m)) (encodeElement (gen_at q (h + m)) Writing) q"
  let ?q2 = "?q1\<lparr>m_pushIndex := nextCombinedIndex ?q1 (m_pushIndex ?q1)\<rparr>"
  have r1: "ring ?q1 h p m (st(m := Writing))" using r m by (rule ring_set_cell)
  have "reservePushIndex q = Inr ((Success, gen_at q (h + m), idx_at q (h + m)), ?q2)"
    by (simp add: reservePushIndex_def spin_fuel_def eval_nat_numeral push_try_takes[OF assms] cas_push_def)
  moreover have "ring ?q2 h p (Suc m) (st(m := Writing))" "enabled ?q2"
    using ring_push_index[OF r1] en by simp_all
  ultimately show ?thesis by (rule that[of ?q2]) simp
qed

lemma decode_cell:
  assumes r: "ring q h p m st" and k: "k < m_capacity q"
  shows "decodeGenerationFromElementState (cell q (idx_at q (h + k))) = gen_at q (h + k)"
    "decodeStateFromElementState (cell q (idx_at q (h + k))) = st k"
  using ringD(4)[OF r k] gen_at_less_30[OF ringD(1)[OF r]] by simp_all

lemma idx_at_cap: "qm_wf q \<Longrightarrow> idx_at q (j + m_capacity q) = idx_at q j"
  by (simp add: idx_at_def)

lemma gen_at_cap_neq: "qm_wf q \<Longrightarrow> gen_at q (j + m_capacity q) \<noteq> gen_at q j"
  using generation_behind[of q j] sint_maxGeneration(2)[of q] by auto

lemma push_try_full:
  assumes r: "ring q h p (m_capacity q) st" and en: "enabled q" and f: "st 0 = Full"
  shows "push_try q (m_pushIndex q) saved =
     (q, if saved \<noteq> m_pushIndex q then PushLoad (m_pushIndex q) else PushDone QueueFull 0 0)"
proof -
  note wf = ringD(1)[OF r]
  have c: "0 < m_capacity q" using wf by (rule qm_wfD)
  have d: "discardDisabledFlag (m_pushIndex q) = m_pushIndex q" using en by (rule discard_enabled)
  then have gi: "gen_of q (m_pushIndex q) = gen_at q (h + m_capacity q)"
    "idx_of q (m_pushIndex q) = idx_at q h"
    using ringD(3)[OF r] idx_at_cap[OF wf, of h] by (simp_all add: gen_of_at idx_of_at)
  have "cell q (idx_at q h) = encodeElement (gen_at q h) Full" using ringD(4)[OF r c] f by simp
  moreover have "encodeElement (gen_at q h) Full \<noteq> encodeElement (gen_at q (h + m_capacity q)) Empty"
    using gen_at_less_30[OF wf] by (simp add: encode_inj)
  ultimately show ?thesis
    using en d gi gen_at_less_30[OF wf, of h] generation_behind[OF wf, of h]
    by (simp add: push_try_def enabled_def Let_def)
qed

lemma small_not_minus_1: "unat (w :: u32) < 2 ^ 31 \<Longrightarrow> w \<noteq> - 1"
  by (auto simp: unsigned_minus_1_eq_mask mask_eq_exp_minus_1)

lemma reservePushIndex_full:
  assumes r: "ring q h p (m_capacity q) st" and en: "enabled q" and f: "st 0 = Full"
  shows "reservePushIndex q = Inr ((QueueFull, 0, 0), q)"
proof -
  have "unat (m_pushIndex q) < 2 ^ 31" using en by (simp add: enabled_def disabled_iff)
  then have "m_pushIndex q \<noteq> - 1" by (rule small_not_minus_1)
  then show ?thesis
    by (simp add: reservePushIndex_def spin_fuel_def eval_nat_numeral push_try_full[OF assms])
qed

lemma reservePushIndex_disabled:
  "\<not> enabled q \<Longrightarrow> reservePushIndex q = Inr ((QueueDisabled, 0, 0), q)"
  by (simp add: reservePushIndex_def spin_fuel_def eval_nat_numeral push_try_def enabled_def)


lemma pop_indexes:
  assumes r: "ring q h 0 m st"
  shows "gen_of q (m_popIndex q) = gen_at q h" "idx_of q (m_popIndex q) = idx_at q h"
  using ringD(2)[OF r] by (simp_all add: gen_of_at idx_of_at)

lemma reservePopIndex_takes:
  assumes r: "ring q h 0 m st" and f: "st 0 = Full"
  obtains q' where
    "reservePopIndex q = Inr ((Success, gen_at q h, idx_at q h), q')"
    "ring q' h 1 m (st(0 := Reading))" "m_pushIndex q' = m_pushIndex q" "m_capacity q' = m_capacity q"
proof -
  have c: "0 < m_capacity q" using ringD(1)[OF r] by (rule qm_wfD)
  let ?q1 = "set_cell (idx_at q (h + 0)) (encodeElement (gen_at q (h + 0)) Reading) q"
  let ?q2 = "?q1\<lparr>m_popIndex := nextCombinedIndex ?q1 (m_popIndex ?q1)\<rparr>"
  have r1: "ring ?q1 h 0 m (st(0 := Reading))" using r c by (rule ring_set_cell)
  have "pop_try q (m_popIndex q) (- 1) = (?q1, PopGot (m_popIndex q) (gen_at q h) (idx_at q h))"
    using ringD(4)[OF r c] f by (simp add: pop_try_def pop_indexes[OF r] Let_def)
  then have "reservePopIndex q = Inr ((Success, gen_at q h, idx_at q h), ?q2)"
    by (simp add: reservePopIndex_def spin_fuel_def eval_nat_numeral cas_pop_def)
  moreover have "ring ?q2 h 1 m (st(0 := Reading))"
    using ring_pop_index[OF r1] by simp
  ultimately show ?thesis by (rule that[of ?q2]) simp_all
qed

lemma reservePopIndex_empty:
  assumes r: "ring q h 0 m st" and e: "st 0 = Empty"
  shows "reservePopIndex q = Inr ((QueueEmpty, 0, 0), q)"
proof -
  note wf = ringD(1)[OF r]
  have c: "0 < m_capacity q" using wf by (rule qm_wfD)
  have cell: "cell q (idx_at q h) = encodeElement (gen_at q h) Empty" using ringD(4)[OF r c] e by simp
  have "unat (m_popIndex q) < 2 ^ 31" using wf ringD(2)[OF r] by (rule below_cycle_enabled)
  then have "m_popIndex q \<noteq> - 1" by (rule small_not_minus_1)
  moreover have "pop_try q (m_popIndex q) saved =
      (q, if saved \<noteq> m_popIndex q then PopLoad (m_popIndex q) else PopDone QueueEmpty 0 0)" for saved
    using cell sint_maxGeneration(2)[OF wf] gen_at_less_30[OF wf, of h]
    by (simp add: pop_try_def pop_indexes[OF r] encode_inj Let_def)
  ultimately show ?thesis
    by (simp add: reservePopIndex_def spin_fuel_def eval_nat_numeral)
qed

lemma commitPushIndex_ring:
  assumes "ring q h p m st" and "k < m_capacity q"
  shows "ring (commitPushIndex (gen_at q (h + k)) (idx_at q (h + k)) q) h p m (st(k := Full))"
  unfolding commitPushIndex_def by (rule ring_set_cell[OF assms])

definition shift_states :: "nat \<Rightarrow> (nat \<Rightarrow> ElementState) \<Rightarrow> nat \<Rightarrow> ElementState" where
  "shift_states c st k = (if Suc k = c then Empty else st (Suc k))"

lemma commitPopIndex_ring:
  assumes r: "ring q h 1 (Suc m) st"
  shows "ring (commitPopIndex (gen_at q h) (idx_at q h) q) (Suc h) 0 m (shift_states (m_capacity q) st)"
proof -
  note wf = ringD(1)[OF r]
  have "cell (commitPopIndex (gen_at q h) (idx_at q h) q) (idx_at q (Suc h + k)) =
      encodeElement (gen_at q (Suc h + k)) (shift_states (m_capacity q) st k)"
    if k: "k < m_capacity q" for k
  proof (cases "Suc k = m_capacity q")
    case True
    then have "Suc h + k = h + m_capacity q" by simp
    then show ?thesis
      using True wf
      by (simp only: commitPopIndex_def cell_set_cell idx_at_cap nextGeneration_at shift_states_def) simp
  next
    case False
    then have "idx_at q (h + Suc k) \<noteq> idx_at q (h + 0)"
      using k wf qm_wfD(1)[OF wf] by (subst idx_at_inj) simp_all
    then show ?thesis
      using False k wf ringD(4)[OF r, of "Suc k"]
      by (simp add: commitPopIndex_def cell_set_cell shift_states_def)
  qed
  then show ?thesis
    using r by (simp add: ring_def commitPopIndex_def)
qed

lemma uint_of_unat: "unat w = n \<Longrightarrow> uint w = int n"
  by auto

lemma mod_add_wrap:
  fixes h m N :: nat
  assumes "m < N"
  shows "(h + m) mod N = (if h mod N + m < N then h mod N + m else h mod N + m - N)"
proof -
  have "(h + m) mod N = (h mod N + m) mod N" by (simp add: mod_add_left_eq)
  moreover have "h mod N < N" using assms by simp
  then have "h mod N + m - N < N" using assms by linarith
  ultimately show ?thesis by (simp add: mod_if[of "h mod N + m"])
qed

lemma qm_size_ring:
  assumes r: "ring q h 0 m st" and m: "m \<le> m_capacity q"
  shows "qm_size q = m"
proof -
  note wf = ringD(1)[OF r]
  let ?N = "cycle q" and ?P = "discardDisabledFlag (m_pushIndex q)" and ?Q = "m_popIndex q"
  have N: "2 * m_capacity q \<le> ?N" "?N \<le> 2 ^ 31" "0 < m_capacity q" "m_capacity q \<le> 2 ^ 30"
    using qm_wfD[OF wf] by simp_all
  have P: "unat ?P = (h + m) mod ?N" and Q: "unat ?Q = h mod ?N" using ringD(2,3)[OF r] by simp_all
  have "uint ?P < 2 ^ 31" "uint ?Q < 2 ^ 31"
    using below_cycle_enabled[OF wf P] below_cycle_enabled[OF wf Q] by (simp_all add: uint_less_numeral)
  then have d: "sint (?P - ?Q) = uint ?P - uint ?Q" by (rule sint_diff)
  have uP: "uint ?P = (if h mod ?N + m < ?N then uint ?Q + int m else uint ?Q + int m - int ?N)"
    using uint_of_unat[OF P] uint_of_unat[OF Q] mod_add_wrap[of m ?N h] m N(1,3) by (simp add: of_nat_diff)
  have cap: "sint (of_nat (m_capacity q) :: u32) = int (m_capacity q)"
    using N by (intro sint_eqI) simp_all
  have "unat (m_maxCombinedIndex q) = ?N - 1" using qm_wfD(8)[OF wf] by simp
  then have mc: "uint (m_maxCombinedIndex q) = int ?N - 1" using uint_of_unat N(1,3) by fastforce
  have half: "sint (m_maxCombinedIndex q div 2) = (int ?N - 1) div 2"
    using mc N(2) by (subst sint_less) (simp_all add: uint_div)
  show ?thesis
  proof (cases "h mod ?N + m < ?N")
    case True
    then show ?thesis using m cap d uP by (simp add: qm_size_def Let_def)
  next
    case False
    have "?P - ?Q + (m_maxCombinedIndex q + 1) = word_of_int (uint ?P - uint ?Q + (int ?N - 1 + 1))"
      by (simp flip: mc)
    then have "sint (?P - ?Q + (m_maxCombinedIndex q + 1)) = int m"
      using False uP m N by (intro sint_eqI) simp_all
    moreover have "int m - int ?N < - ((int ?N - 1) div 2)" "int m - int ?N < 0" 
      using m N by linarith+
    ultimately show ?thesis using False m N d uP half by (simp add: qm_size_def Let_def)
  qed
qed


lemma disable_ring:
  assumes r: "ring q h p m st"
  obtains q' where "disable q = Inr ((), q')" "ring q' h p m st" "\<not> enabled q'"
    "m_capacity q' = m_capacity q"
proof (cases "enabled q")
  case True
  let ?q = "q\<lparr>m_pushIndex := m_pushIndex q OR DISABLED_STATE_MASK\<rparr>"
  have f: "isDisabledFlagSet (m_pushIndex q OR DISABLED_STATE_MASK)"
    by (simp add: isDisabledFlagSet_def DISABLED_STATE_MASK_def bit.conj_disj_distrib2 or_eq_0_iff)
  have "discardDisabledFlag (m_pushIndex q OR DISABLED_STATE_MASK) = discardDisabledFlag (m_pushIndex q)"
    by (simp add: discardDisabledFlag_def bit.conj_disj_distrib2)
  then have "ring ?q h p m st" using r by (simp add: ring_def)
  moreover have "disable q = Inr ((), ?q)"
    using True by (simp add: disable_def spin_fuel_def eval_nat_numeral enabled_def)
  ultimately show ?thesis using that[of ?q] f by (simp add: enabled_def)
next
  case False
  then have "disable q = Inr ((), q)"
    by (simp add: disable_def spin_fuel_def eval_nat_numeral enabled_def)
  then show ?thesis using that[of q] r False by simp
qed

lemma enable_ring:
  assumes r: "ring q h p m st"
  obtains q' where "enable q = Inr ((), q')" "ring q' h p m st" "enabled q'"
    "m_capacity q' = m_capacity q"
proof (cases "enabled q")
  case True
  then have "enable q = Inr ((), q)"
    by (simp add: enable_def spin_fuel_def eval_nat_numeral enabled_def)
  then show ?thesis using that[of q] r True by simp
next
  case False
  let ?w = "m_pushIndex q AND NOT DISABLED_STATE_MASK" let ?q = "q\<lparr>m_pushIndex := ?w\<rparr>"
  have "\<not> isDisabledFlagSet ?w"
    by (simp add: isDisabledFlagSet_def and.assoc)
  moreover have "discardDisabledFlag ?w = discardDisabledFlag (m_pushIndex q)"
    by (simp add: discardDisabledFlag_def and.assoc)
  then have "ring ?q h p m st" using r by (simp add: ring_def)
  moreover have "enable q = Inr ((), ?q)"
    using False by (simp add: enable_def spin_fuel_def eval_nat_numeral enabled_def)
  ultimately show ?thesis using that[of ?q] by (simp add: enabled_def)
qed

lemma combined_at:
  assumes wf: "qm_wf q"
  shows "unat (gen_at q j * of_nat (m_capacity q) + idx_at q j) = j mod cycle q"
proof -
  let ?c = "m_capacity q" and ?g = "gens (m_capacity q)"
  have c: "unat (of_nat ?c :: u32) = ?c"
    using qm_wfD(2)[OF wf] by (simp add: unat_of_nat take_bit_eq_mod)
  have eq: "(j div ?c mod ?g) * ?c + j mod ?c = j mod cycle q"
    by (simp add: cycle_def mult.commute[of ?g] mod_mult2_eq mult.commute)
  have "j mod cycle q < 2 ^ 31" using cycle_pos[OF wf] qm_wfD(5)[OF wf] mod_less_divisor[of "cycle q" j] by linarith
  then show ?thesis
    using wf eq by (simp add: unat_word_ariths c unat_gen_at unat_idx_at)
qed

lemma circularDifference_0_iff:
  assumes "uint m \<le> 2 ^ 31" "uint a < uint m" "uint b < uint m"
  shows "circularDifference a b m = 0 \<longleftrightarrow> a = b"
proof -
  have "uint a - uint b - uint m \<noteq> 0" "uint a - uint b + uint m \<noteq> 0"
    using assms uint_nonnegative[of a] uint_nonnegative[of b] by linarith+
  then show ?thesis using assms by (auto simp: circularDifference_spec Let_def word_uint_eq_iff)
qed

lemma clear_end_iff:
  assumes r: "ring q h 0 m st" and n: "n < cycle q"
  shows "circularDifference (gen_at q (h + n) * of_nat (m_capacity q) + idx_at q (h + n)) (m_popIndex q)
           (m_maxCombinedIndex q + 1) = 0 \<longleftrightarrow> n = 0"
proof -
  note wf = ringD(1)[OF r]
  let ?e = "gen_at q (h + n) * of_nat (m_capacity q) + idx_at q (h + n)"
  have e: "unat ?e = (h + n) mod cycle q" using wf by (rule combined_at)
  have p: "unat (m_popIndex q) = h mod cycle q" using ringD(2)[OF r] by simp
  have "unat (m_maxCombinedIndex q) < 2 ^ 31" using qm_wfD(5,8)[OF wf] by linarith
  then have m: "unat (m_maxCombinedIndex q + 1) = cycle q" using qm_wfD(8)[OF wf] by (simp add: unat_add_1_less)
  have "circularDifference ?e (m_popIndex q) (m_maxCombinedIndex q + 1) = 0 \<longleftrightarrow> ?e = m_popIndex q"
    using qm_wfD(5)[OF wf] cycle_pos[OF wf]
    by (intro circularDifference_0_iff) (simp_all only: uint_of_unat[OF e] uint_of_unat[OF p] uint_of_unat[OF m], simp_all)
  also have "\<dots> \<longleftrightarrow> n = 0"
    using mod_add_window[of h n "cycle q" 0] n by (auto simp: word_unat_eq_iff e p)
  finally show ?thesis .
qed

lemma reservePopForClear_takes:
  assumes r: "ring q h 0 m st" and f: "st 0 = Full" and n: "0 < n" "n < m_capacity q"
  obtains q' where
    "reservePopForClear (gen_at q (h + n)) (idx_at q (h + n)) q = Inr ((True, gen_at q h, idx_at q h), q')"
    "ring q' h 1 m (st(0 := Reading))" "m_pushIndex q' = m_pushIndex q" "m_capacity q' = m_capacity q"
proof -
  note wf = ringD(1)[OF r]
  have c: "0 < m_capacity q" and "n < cycle q" using qm_wfD(1,6)[OF wf] n by simp_all
  let ?q1 = "set_cell (idx_at q (h + 0)) (encodeElement (gen_at q (h + 0)) Reading) q"
  let ?q2 = "?q1\<lparr>m_popIndex := nextCombinedIndex ?q1 (m_popIndex ?q1)\<rparr>"
  have r1: "ring ?q1 h 0 m (st(0 := Reading))" using r c by (rule ring_set_cell)
  have "clear_try (gen_at q (h + n)) (idx_at q (h + n)) q (m_popIndex q) =
      (?q1, ClearGot (m_popIndex q) (gen_at q h) (idx_at q h))"
    using ringD(4)[OF r c] f clear_end_iff[OF r \<open>n < cycle q\<close>] n
    by (simp add: clear_try_def pop_indexes[OF r] Let_def)
  then have "reservePopForClear (gen_at q (h + n)) (idx_at q (h + n)) q = Inr ((True, gen_at q h, idx_at q h), ?q2)"
    by (simp add: reservePopForClear_def spin_fuel_def eval_nat_numeral cas_pop_def)
  moreover have "ring ?q2 h 1 m (st(0 := Reading))"
    using ring_pop_index[OF r1] by simp
  ultimately show ?thesis by (rule that[of ?q2]) simp_all
qed

lemma reservePopForClear_stops:
  assumes r: "ring q h 0 m st"
  shows "reservePopForClear (gen_at q h) (idx_at q h) q = Inr ((False, 0, 0), q)"
  using clear_end_iff[OF r, of 0] cycle_pos[OF ringD(1)[OF r]]
  by (simp add: reservePopForClear_def spin_fuel_def eval_nat_numeral clear_try_def)

lemma abortPushIndexReservation_ring:
  assumes r: "ring q h 0 (Suc m) st"
  shows "ring (abortPushIndexReservation (gen_at q h) (idx_at q h) q) (Suc h) 0 m
           (shift_states (m_capacity q) (st(0 := Reading)))"
proof -
  have c: "0 < m_capacity q" using ringD(1)[OF r] by (rule qm_wfD)
  let ?q1 = "set_cell (idx_at q (h + 0)) (encodeElement (gen_at q (h + 0)) Reading) q"
  let ?q2 = "?q1\<lparr>m_popIndex := nextCombinedIndex ?q1 (m_popIndex ?q1)\<rparr>"
  have r1: "ring ?q1 h 0 (Suc m) (st(0 := Reading))" using r c by (rule ring_set_cell)
  have "ring ?q2 h 1 (Suc m) (st(0 := Reading))" using ring_pop_index[OF r1] by simp
  from commitPopIndex_ring[OF this] show ?thesis
    by (simp add: abortPushIndexReservation_def commitPopIndex_def cas_pop_def nextGeneration_def Let_def)
qed

end
