(* ===== verification/Queue.thy ===== *)
theory Queue
  imports Queue_Manager_Facts
begin

text \<open>
  The fixed-size queue (\<open>util/thread/queue.hpp\<close>) over the index manager, as seen by a thread that
  runs alone, and its refinement to a bounded first-in-first-out list.

  A slot of \<open>m_data\<close> is \<open>None\<close> while it is raw memory.  Reading raw memory is the fault
  \<open>Out_Of_Bounds\<close>.  The semaphores are counters; waiting on a semaphore that is zero blocks.
\<close>

section \<open>The class\<close>

record 'a queue =
  m_data :: "'a option list"
  m_manager :: qm
  m_waitingPoppers :: u32
  m_popSemaphore :: nat
  m_waitingPushers :: u32
  m_pushSemaphore :: nat

definition new_queue :: "nat \<Rightarrow> 'a queue" where
  "new_queue capacity =
     \<lparr>m_data = replicate capacity None, m_manager = new_manager capacity,
      m_waitingPoppers = 0, m_popSemaphore = 0, m_waitingPushers = 0, m_pushSemaphore = 0\<rparr>"

definition queue_capacity :: "'a queue \<Rightarrow> nat" where
  "queue_capacity q = m_capacity (m_manager q)"

definition queue_size :: "'a queue \<Rightarrow> nat" where
  "queue_size q = qm_size (m_manager q)"

definition queue_enabled :: "'a queue \<Rightarrow> bool" where
  "queue_enabled q = enabled (m_manager q)"

definition queue_full :: "'a queue \<Rightarrow> bool" where
  "queue_full q = (queue_capacity q \<le> queue_size q)"

definition queue_empty :: "'a queue \<Rightarrow> bool" where
  "queue_empty q = (0 \<ge> queue_size q)"

definition set_slot :: "u32 \<Rightarrow> 'a option \<Rightarrow> 'a queue \<Rightarrow> 'a queue" where
  "set_slot index v q = q\<lparr>m_data := (m_data q)[unat index := v]\<rparr>"

subsection \<open>Guards\<close>

text \<open>
  The destructor of an unreleased \<open>QueuePushGuard\<close>: every element in front of the reserved cell is
  destroyed, the reservation is dropped, and one waiting pusher is woken per freed cell.
\<close>

fun push_guard_loop :: "nat \<Rightarrow> u32 \<Rightarrow> u32 \<Rightarrow> nat \<Rightarrow> 'a queue \<Rightarrow> (nat \<times> 'a queue) result" where
  "push_guard_loop 0 m_generation m_index poppedItems q = Inl Out_Of_Fuel"
| "push_guard_loop (Suc n) m_generation m_index poppedItems q =
     bindE (reservePopForClear m_generation m_index (m_manager q)) (\<lambda>((more, generation, index), mgr).
       if more
       then push_guard_loop n m_generation m_index (Suc poppedItems)
              ((set_slot index None q)\<lparr>m_manager := commitPopIndex generation index mgr\<rparr>)
       else Inr (poppedItems, q\<lparr>m_manager := mgr\<rparr>))"

definition push_guard_destroy :: "u32 \<Rightarrow> u32 \<Rightarrow> 'a queue \<Rightarrow> 'a queue result" where
  "push_guard_destroy m_generation m_index q =
     bindE (push_guard_loop (Suc (queue_capacity q)) m_generation m_index 1 q) (\<lambda>(poppedItems, q1).
       Inr (q1\<lparr>m_manager := abortPushIndexReservation m_generation m_index (m_manager q1),
               m_pushSemaphore := m_pushSemaphore q1 + poppedItems\<rparr>))"

definition pop_guard_destroy :: "u32 \<Rightarrow> u32 \<Rightarrow> 'a queue \<Rightarrow> 'a queue" where
  "pop_guard_destroy m_generation m_index q =
     (let q1 = (set_slot m_index None q)
                 \<lparr>m_manager := commitPopIndex m_generation m_index (m_manager q)\<rparr>
      in if m_waitingPushers q1 > 0 then q1\<lparr>m_pushSemaphore := Suc (m_pushSemaphore q1)\<rparr> else q1)"

subsection \<open>Operations that do not block\<close>

text \<open>
  \<open>throws\<close> says that the copy constructor of the element throws; the result \<open>None\<close> is that exception
  leaving \<open>tryPushBack\<close>.
\<close>

definition tryPushBack :: "bool \<Rightarrow> 'a \<Rightarrow> 'a queue \<Rightarrow> (QueueReturn option \<times> 'a queue) result" where
  "tryPushBack throws value q =
     bindE (reservePushIndex (m_manager q)) (\<lambda>((retVal, generation, index), mgr).
       let q1 = q\<lparr>m_manager := mgr\<rparr>
       in if retVal \<noteq> Success then Inr (Some retVal, q1)
          else if throws then bindE (push_guard_destroy generation index q1) (\<lambda>q2. Inr (None, q2))
          else
            let q2 = (set_slot index (Some value) q1)\<lparr>m_manager := commitPushIndex generation index mgr\<rparr>
            in Inr (Some Success,
                    if m_waitingPoppers q2 > 0 then q2\<lparr>m_popSemaphore := Suc (m_popSemaphore q2)\<rparr> else q2))"

definition take_front :: "u32 \<Rightarrow> u32 \<Rightarrow> 'a queue \<Rightarrow> ('a \<times> 'a queue) result" where
  "take_front generation index q =
     (case m_data q ! unat index of
        None \<Rightarrow> Inl Out_Of_Bounds
      | Some v \<Rightarrow> Inr (v, pop_guard_destroy generation index q))"

definition tryPopFront :: "'a queue \<Rightarrow> ('a option \<times> 'a queue) result" where
  "tryPopFront q =
     bindE (reservePopIndex (m_manager q)) (\<lambda>((retVal, generation, index), mgr).
       let q1 = q\<lparr>m_manager := mgr\<rparr>
       in if retVal \<noteq> Success then Inr (None, q1)
          else bindE (take_front generation index q1) (\<lambda>(v, q2). Inr (Some v, q2)))"

text \<open>\<open>poppedItems\<close> is also incremented by the test that ends the loop of \<open>removeAll\<close>.\<close>

fun removeAll_loop :: "nat \<Rightarrow> nat \<Rightarrow> 'a queue \<Rightarrow> (nat \<times> 'a queue) result" where
  "removeAll_loop 0 poppedItems q = Inr (Suc poppedItems, q)"
| "removeAll_loop (Suc left) poppedItems q =
     bindE (reservePopIndex (m_manager q)) (\<lambda>((retVal, generation, index), mgr).
       if retVal \<noteq> Success then Inr (Suc poppedItems, q\<lparr>m_manager := mgr\<rparr>)
       else removeAll_loop left (Suc poppedItems)
              ((set_slot index None q)\<lparr>m_manager := commitPopIndex generation index mgr\<rparr>))"

definition removeAll :: "'a queue \<Rightarrow> 'a queue result" where
  "removeAll q =
     bindE (removeAll_loop (queue_size q) 0 q) (\<lambda>(poppedItems, q1).
       Inr (q1\<lparr>m_pushSemaphore :=
             m_pushSemaphore q1 + min poppedItems (unat (m_waitingPushers q1))\<rparr>))"

definition queue_disable :: "'a queue \<Rightarrow> 'a queue result" where
  "queue_disable q =
     bindE (disable (m_manager q)) (\<lambda>(_, mgr).
       Inr (q\<lparr>m_manager := mgr, m_pushSemaphore := m_pushSemaphore q + unat (m_waitingPushers q)\<rparr>))"

definition queue_enable :: "'a queue \<Rightarrow> 'a queue result" where
  "queue_enable q = bindE (enable (m_manager q)) (\<lambda>(_, mgr). Inr (q\<lparr>m_manager := mgr\<rparr>))"

subsection \<open>Operations that may block\<close>

datatype 'r waits = Returns 'r | Blocks

fun pushBack_loop :: "nat \<Rightarrow> bool \<Rightarrow> 'a \<Rightarrow> 'a queue \<Rightarrow> (QueueReturn option waits \<times> 'a queue) result" where
  "pushBack_loop 0 throws value q = Inl Out_Of_Fuel"
| "pushBack_loop (Suc n) throws value q =
     bindE (tryPushBack throws value q) (\<lambda>(retVal, q1).
       if retVal \<in> {None, Some QueueDisabled, Some Success} then Inr (Returns retVal, q1)
       else
         let q2 = q1\<lparr>m_waitingPushers := m_waitingPushers q1 + 1\<rparr>
         in if queue_full q2 \<and> queue_enabled q2
            then if m_pushSemaphore q2 = 0 then Inr (Blocks, q2)
                 else pushBack_loop n throws value
                        (q2\<lparr>m_pushSemaphore := m_pushSemaphore q2 - 1,
                            m_waitingPushers := m_waitingPushers q2 - 1\<rparr>)
            else pushBack_loop n throws value (q2\<lparr>m_waitingPushers := m_waitingPushers q2 - 1\<rparr>))"

fun popFront_loop :: "nat \<Rightarrow> 'a queue \<Rightarrow> ('a waits \<times> 'a queue) result" where
  "popFront_loop 0 q = Inl Out_Of_Fuel"
| "popFront_loop (Suc n) q =
     bindE (reservePopIndex (m_manager q)) (\<lambda>((retVal, generation, index), mgr).
       let q1 = q\<lparr>m_manager := mgr\<rparr>
       in if retVal = Success
          then bindE (take_front generation index q1) (\<lambda>(v, q2). Inr (Returns v, q2))
          else
            let q2 = q1\<lparr>m_waitingPoppers := m_waitingPoppers q1 + 1\<rparr>
            in if queue_empty q2
               then if m_popSemaphore q2 = 0 then Inr (Blocks, q2)
                    else popFront_loop n (q2\<lparr>m_popSemaphore := m_popSemaphore q2 - 1,
                                             m_waitingPoppers := m_waitingPoppers q2 - 1\<rparr>)
               else popFront_loop n (q2\<lparr>m_waitingPoppers := m_waitingPoppers q2 - 1\<rparr>))"

text \<open>
  \<open>popFrontWithTimeout\<close> for a thread that runs alone: a wait on an empty semaphore runs into the
  timeout, and at most one wait is made.
\<close>

fun popFrontWithTimeout_loop :: "nat \<Rightarrow> bool \<Rightarrow> 'a queue \<Rightarrow> ('a option \<times> 'a queue) result" where
  "popFrontWithTimeout_loop 0 secondTry q = Inl Out_Of_Fuel"
| "popFrontWithTimeout_loop (Suc n) secondTry q =
     bindE (reservePopIndex (m_manager q)) (\<lambda>((retVal, generation, index), mgr).
       let q1 = q\<lparr>m_manager := mgr\<rparr>
       in if retVal = Success
          then bindE (take_front generation index q1) (\<lambda>(v, q2). Inr (Some v, q2))
          else if secondTry then Inr (None, q1)
          else
            let q2 = q1\<lparr>m_waitingPoppers := m_waitingPoppers q1 + 1\<rparr>
            in if queue_empty q2
               then popFrontWithTimeout_loop n True
                      (q2\<lparr>m_popSemaphore := m_popSemaphore q2 - 1,
                          m_waitingPoppers := m_waitingPoppers q2 - 1\<rparr>)
               else popFrontWithTimeout_loop n secondTry
                      (q2\<lparr>m_waitingPoppers := m_waitingPoppers q2 - 1\<rparr>))"

text \<open>
  Every pass of the two loops that does not return uses up a token of the semaphore, so their number
  bounds the passes; \<open>popFrontWithTimeout\<close> makes at most two.
\<close>

definition pushBack :: "bool \<Rightarrow> 'a \<Rightarrow> 'a queue \<Rightarrow> (QueueReturn option waits \<times> 'a queue) result" where
  "pushBack throws value q = pushBack_loop (Suc (m_pushSemaphore q)) throws value q"

definition popFront :: "'a queue \<Rightarrow> ('a waits \<times> 'a queue) result" where
  "popFront q = popFront_loop (Suc (m_popSemaphore q)) q"

definition popFrontWithTimeout :: "'a queue \<Rightarrow> ('a option \<times> 'a queue) result" where
  "popFrontWithTimeout q = popFrontWithTimeout_loop 2 False q"

end
