(* ===== verification/Queue_Refinement.thy ===== *)
theory Queue_Refinement
  imports Queue
begin

text \<open>
  The queue refines a bounded list: whatever sequence of calls one thread makes on a new queue, the
  results are those of the list, across every wrap of the combined indexes.
\<close>

section \<open>Slots and cells of a list\<close>

definition filled :: "nat \<Rightarrow> nat \<Rightarrow> ElementState" where
  "filled n k = (if k < n then Full else Empty)"

definition item :: "'a list \<Rightarrow> nat \<Rightarrow> 'a option" where
  "item xs k = (if k < length xs then Some (xs ! k) else None)"

definition slots_at :: "nat \<Rightarrow> 'a option list \<Rightarrow> nat \<Rightarrow> (nat \<Rightarrow> 'a option) \<Rightarrow> bool" where
  "slots_at c d h f \<longleftrightarrow> length d = c \<and> (\<forall>k<c. d ! ((h + k) mod c) = f k)"

lemma slots_at_set:
  assumes "slots_at c d h f" "k < c"
  shows "slots_at c (d[(h + k) mod c := v]) h (f(k := v))"
  using assms mod_add_window[of h _ c k] by (auto simp: slots_at_def nth_list_update)

lemma slots_atD: "slots_at c d h f \<Longrightarrow> k < c \<Longrightarrow> d ! ((h + k) mod c) = f k"
  by (simp add: slots_at_def)

lemma slots_at_shift:
  assumes s: "slots_at c d h f" and c: "0 < c"
  shows "slots_at c d (Suc h) (\<lambda>k. if Suc k = c then f 0 else f (Suc k))"
proof -
  have "d ! ((Suc h + k) mod c) = (if Suc k = c then f 0 else f (Suc k))" if "k < c" for k
  proof (cases "Suc k = c")
    case True
    then have "(Suc h + k) mod c = (h + 0) mod c" by (metis add.commute add.right_neutral add_Suc_shift mod_add_self2)
    then show ?thesis using True slots_atD[OF s c] by simp
  next
    case False
    then show ?thesis using slots_atD[OF s, of "Suc k"] that by simp
  qed
  then show ?thesis using s by (simp add: slots_at_def)
qed

lemma slots_at_cong: "slots_at c d h f \<Longrightarrow> (\<And>k. k < c \<Longrightarrow> f k = g k) \<Longrightarrow> slots_at c d h g"
  by (simp add: slots_at_def)

lemma slots_at_pop:
  assumes "slots_at c d h (item (x # xs))" "length (x # xs) \<le> c"
  shows "slots_at c (d[h mod c := None]) (Suc h) (item xs)"
proof -
  have "0 < c" using assms(2) by simp
  then have "slots_at c (d[(h + 0) mod c := None]) h ((item (x # xs))(0 := None))"
    using assms(1) by (intro slots_at_set)
  then have "slots_at c (d[h mod c := None]) h ((item (x # xs))(0 := None))" by simp
  from slots_at_shift[OF this \<open>0 < c\<close>] show ?thesis
    using assms(2) by (elim slots_at_cong) (auto simp: item_def)
qed

lemma ring_cong:
  "ring q h p m st \<Longrightarrow> (\<And>k. k < m_capacity q \<Longrightarrow> st k = st' k) \<Longrightarrow> ring q h p m st'"
  by (simp add: ring_def)

lemma position_cong:
  "m_capacity q = m_capacity q' \<Longrightarrow> gen_at q = gen_at q'" "m_capacity q = m_capacity q' \<Longrightarrow> idx_at q = idx_at q'"
  by (auto simp: gen_at_def idx_at_def)

section \<open>The abstract queue\<close>

type_synonym 'a fifo = "nat \<times> bool \<times> 'a list"

fun represents :: "'a queue \<Rightarrow> 'a fifo \<Rightarrow> bool" where
  "represents q (c, en, xs) \<longleftrightarrow>
     queue_capacity q = c \<and> length xs \<le> c \<and> queue_enabled q = en \<and>
     (\<exists>h. ring (m_manager q) h 0 (length xs) (filled (length xs)) \<and> slots_at c (m_data q) h (item xs))"

lemma new_queue_represents:
  assumes "0 < c" "c \<le> MAX_CAPACITY"
  shows "represents (new_queue c) (c, True, [])"
proof -
  have wf: "qm_wf (new_manager c)" using assms by (rule new_manager_wf)
  have "gen_at (new_manager c) k = 0" "idx_at (new_manager c) k = of_nat k" if "k < c" for k
    using that by (simp_all add: gen_at_def idx_at_def new_manager_def)
  moreover have "unat (of_nat k :: u32) < c" if "k < c" for k
    using unat_idx_at[OF wf, of k] that assms by (simp add: new_manager_def idx_at_def)
  ultimately have "ring (new_manager c) 0 0 0 (filled 0)"
    using wf by (simp add: ring_def new_manager_def cell_def filled_def encode_add discardDisabledFlag_def)
  then show ?thesis using assms
    by (auto simp: new_queue_def queue_capacity_def queue_enabled_def enabled_def slots_at_def item_def
        new_manager_def isDisabledFlagSet_def)
qed


lemma filled_shift: "Suc n \<le> c \<Longrightarrow> k < c \<Longrightarrow> shift_states c ((filled (Suc n))(0 := Reading)) k = filled n k"
  by (auto simp: shift_states_def filled_def)

lemma tryPushBack_success:
  assumes r: "represents q (c, True, xs)" and l: "length xs < c"
  shows "\<exists>q'. tryPushBack False v q = Inr (Some Success, q') \<and> represents q' (c, True, xs @ [v])"
proof -
  obtain h where h: "ring (m_manager q) h 0 (length xs) (filled (length xs))"
    "slots_at c (m_data q) h (item xs)" and c: "m_capacity (m_manager q) = c" and en: "enabled (m_manager q)"
    using r by (auto simp: queue_capacity_def queue_enabled_def)
  let ?n = "length xs" and ?m = "m_manager q"
  have n: "?n < m_capacity ?m" using l c by simp
  have f: "filled ?n ?n = Empty" by (simp add: filled_def)
  obtain m' where m': "reservePushIndex ?m = Inr ((Success, gen_at ?m (h + ?n), idx_at ?m (h + ?n)), m')"
    "ring m' h 0 (Suc ?n) ((filled ?n)(?n := Writing))" "enabled m'" "m_capacity m' = m_capacity ?m"
    using reservePushIndex_takes[OF h(1) en n f] by blast
  let ?m2 = "commitPushIndex (gen_at ?m (h + ?n)) (idx_at ?m (h + ?n)) m'"
  have "ring ?m2 h 0 (Suc ?n) ((filled ?n)(?n := Writing, ?n := Full))"
    using commitPushIndex_ring[OF m'(2), of ?n] n m'(4) position_cong[OF m'(4)] by simp
  then have "ring ?m2 h 0 (Suc ?n) (filled (Suc ?n))"
    by (rule ring_cong) (auto simp: filled_def)
  moreover have "slots_at c ((m_data q)[(h + ?n) mod c := Some v]) h ((item xs)(?n := Some v))"
    using h(2) l by (rule slots_at_set)
  then have "slots_at c ((m_data q)[(h + ?n) mod c := Some v]) h (item (xs @ [v]))"
    by (rule slots_at_cong) (auto simp: item_def nth_append)
  moreover have "unat (idx_at ?m (h + ?n)) = (h + ?n) mod c"
    using ringD(1)[OF h(1)] c by (simp add: unat_idx_at)
  moreover have "enabled ?m2" "m_capacity ?m2 = c" using m'(3,4) c by (simp_all add: commitPushIndex_def)
  ultimately show ?thesis
    using l m'(1)
    by (auto simp: tryPushBack_def Let_def set_slot_def queue_capacity_def queue_enabled_def)
qed

lemma tryPushBack_full:
  assumes r: "represents q (c, True, xs)" and l: "length xs = c"
  shows "\<exists>q'. tryPushBack t v q = Inr (Some QueueFull, q') \<and> represents q' (c, True, xs)"
proof -
  obtain h where h: "ring (m_manager q) h 0 (m_capacity (m_manager q)) (filled (length xs))"
    and c: "m_capacity (m_manager q) = c" and en: "enabled (m_manager q)"
    using r l by (auto simp: queue_capacity_def queue_enabled_def)
  have "0 < c" using qm_wfD(1)[OF ringD(1)[OF h]] c by simp
  then have "filled (length xs) 0 = Full" using l by (simp add: filled_def)
  then have "reservePushIndex (m_manager q) = Inr ((QueueFull, 0, 0), m_manager q)"
    by (rule reservePushIndex_full[OF h en])
  then show ?thesis using r by (simp add: tryPushBack_def)
qed

lemma tryPushBack_disabled:
  assumes r: "represents q (c, False, xs)"
  shows "\<exists>q'. tryPushBack t v q = Inr (Some QueueDisabled, q') \<and> represents q' (c, False, xs)"
  using r by (simp add: tryPushBack_def reservePushIndex_disabled queue_enabled_def)

text \<open>One cell is taken from the front: the common part of every way of removing an element.\<close>

lemma pop_cell:
  assumes h: "ring m h 0 (Suc k) st" and m': "ring m' h 1 (Suc k) st'" "m_capacity m' = m_capacity m"
    and st: "\<And>k. k < m_capacity m \<Longrightarrow> shift_states (m_capacity m) st' k = st'' k"
  shows "ring (commitPopIndex (gen_at m h) (idx_at m h) m') (Suc h) 0 k st''"
proof (rule ring_cong)
  show "ring (commitPopIndex (gen_at m h) (idx_at m h) m') (Suc h) 0 k (shift_states (m_capacity m') st')"
    using commitPopIndex_ring[OF m'(1)] position_cong[OF m'(2)] by simp
  fix j
  assume "j < m_capacity (commitPopIndex (gen_at m h) (idx_at m h) m')"
  then show "shift_states (m_capacity m') st' j = st'' j"
    using st m'(2) by (simp add: commitPopIndex_def)
qed

lemma reservePop_front:
  assumes r: "represents q (c, en, x # xs)"
  obtains g i m' where "reservePopIndex (m_manager q) = Inr ((Success, g, i), m')"
    "m_data q ! unat i = Some x"
    "represents ((set_slot i None q)\<lparr>m_manager := commitPopIndex g i m'\<rparr>) (c, en, xs)"
proof -
  let ?m = "m_manager q"
  obtain h where h: "ring ?m h 0 (Suc (length xs)) (filled (Suc (length xs)))"
    "slots_at c (m_data q) h (item (x # xs))" and c: "m_capacity ?m = c" and en: "enabled ?m = en"
    and l: "length (x # xs) \<le> c"
    using r by (auto simp: queue_capacity_def queue_enabled_def)
  have "filled (Suc (length xs)) 0 = Full" by (simp add: filled_def)
  then obtain m' where m': "reservePopIndex ?m = Inr ((Success, gen_at ?m h, idx_at ?m h), m')"
    "ring m' h 1 (Suc (length xs)) ((filled (Suc (length xs)))(0 := Reading))"
    "m_pushIndex m' = m_pushIndex ?m" "m_capacity m' = m_capacity ?m"
    using reservePopIndex_takes[OF h(1)] by blast
  have i: "unat (idx_at ?m h) = h mod c" using ringD(1)[OF h(1)] c by (simp add: unat_idx_at)
  have "ring (commitPopIndex (gen_at ?m h) (idx_at ?m h) m') (Suc h) 0 (length xs) (filled (length xs))"
    using h(1) m'(2,4) by (rule pop_cell) (use l c in \<open>simp add: filled_shift\<close>)
  moreover have "slots_at c ((m_data q)[h mod c := None]) (Suc h) (item xs)"
    using h(2) l by (rule slots_at_pop)
  moreover have "m_data q ! ((h + 0) mod c) = Some x"
    using slots_atD[OF h(2), of 0] l by (simp add: item_def)
  ultimately show ?thesis
    using m'(3,4) c en l i
    by (intro that[OF m'(1)]) (auto simp: set_slot_def queue_capacity_def queue_enabled_def commitPopIndex_def enabled_def)
qed

lemma reservePop_empty:
  assumes r: "represents q (c, en, [])"
  shows "reservePopIndex (m_manager q) = Inr ((QueueEmpty, 0, 0), m_manager q)"
proof -
  obtain h where "ring (m_manager q) h 0 0 (filled 0)" using r by auto
  then show ?thesis by (rule reservePopIndex_empty) (simp add: filled_def)
qed


lemma represents_pop_guard:
  assumes "represents ((set_slot i None q)\<lparr>m_manager := commitPopIndex g i m'\<rparr>) a"
  shows "represents (pop_guard_destroy g i (q\<lparr>m_manager := m'\<rparr>)) a"
  using assms
  by (cases a) (auto simp: pop_guard_destroy_def Let_def set_slot_def queue_capacity_def queue_enabled_def)

lemma tryPopFront_front:
  assumes r: "represents q (c, en, x # xs)"
  shows "\<exists>q'. tryPopFront q = Inr (Some x, q') \<and> represents q' (c, en, xs)"
proof -
  obtain g i m' where *: "reservePopIndex (m_manager q) = Inr ((Success, g, i), m')"
    "m_data q ! unat i = Some x"
    "represents ((set_slot i None q)\<lparr>m_manager := commitPopIndex g i m'\<rparr>) (c, en, xs)"
    using reservePop_front[OF r] by blast
  then show ?thesis
    using represents_pop_guard[OF *(3)] by (simp add: tryPopFront_def take_front_def Let_def)
qed

lemma tryPopFront_empty:
  assumes r: "represents q (c, en, [])"
  shows "\<exists>q'. tryPopFront q = Inr (None, q') \<and> represents q' (c, en, [])"
  using r reservePop_empty[OF r] by (simp add: tryPopFront_def)

lemma queue_size_represents: "represents q (c, en, xs) \<Longrightarrow> queue_size q = length xs"
  by (auto simp: queue_size_def queue_capacity_def qm_size_ring)

lemma removeAll_loop_represents:
  assumes "represents q (c, en, xs)"
  shows "\<exists>n q'. removeAll_loop (length xs) p q = Inr (n, q') \<and> represents q' (c, en, [])"
  using assms
proof (induction xs arbitrary: q p)
  case Nil
  then show ?case by auto
next
  case (Cons x xs)
  obtain g i m' where *: "reservePopIndex (m_manager q) = Inr ((Success, g, i), m')"
    "represents ((set_slot i None q)\<lparr>m_manager := commitPopIndex g i m'\<rparr>) (c, en, xs)"
    using reservePop_front[OF Cons.prems] by blast
  then show ?case using Cons.IH[OF *(2)] by (auto simp del: represents.simps)
qed

lemma represents_semaphore [simp]:
  "represents (q\<lparr>m_pushSemaphore := n\<rparr>) a = represents q a"
  by (cases a) (simp add: queue_capacity_def queue_enabled_def)

lemma removeAll_represents:
  assumes r: "represents q (c, en, xs)"
  shows "\<exists>q'. removeAll q = Inr q' \<and> represents q' (c, en, [])"
  using removeAll_loop_represents[OF r, of 0] queue_size_represents[OF r]
  by (auto simp: removeAll_def simp del: represents.simps)

lemma queue_disable_represents:
  assumes r: "represents q (c, en, xs)"
  shows "\<exists>q'. queue_disable q = Inr q' \<and> represents q' (c, False, xs)"
proof -
  obtain h where h: "ring (m_manager q) h 0 (length xs) (filled (length xs))"
    "slots_at c (m_data q) h (item xs)" using r by auto
  obtain m' where "disable (m_manager q) = Inr ((), m')" "ring m' h 0 (length xs) (filled (length xs))"
    "\<not> enabled m'" "m_capacity m' = m_capacity (m_manager q)"
    using disable_ring[OF h(1)] by blast
  then show ?thesis using r h(2) by (auto simp: queue_disable_def queue_capacity_def queue_enabled_def)
qed

lemma queue_enable_represents:
  assumes r: "represents q (c, en, xs)"
  shows "\<exists>q'. queue_enable q = Inr q' \<and> represents q' (c, True, xs)"
proof -
  obtain h where h: "ring (m_manager q) h 0 (length xs) (filled (length xs))"
    "slots_at c (m_data q) h (item xs)" using r by auto
  obtain m' where "enable (m_manager q) = Inr ((), m')" "ring m' h 0 (length xs) (filled (length xs))"
    "enabled m'" "m_capacity m' = m_capacity (m_manager q)"
    using enable_ring[OF h(1)] by blast
  then show ?thesis using r h(2) by (auto simp: queue_enable_def queue_capacity_def queue_enabled_def)
qed

section \<open>A constructor that throws\<close>

definition clearing :: "nat \<Rightarrow> nat \<Rightarrow> ElementState" where
  "clearing n = (filled n)(n := Writing)"

lemma clearing_shift:
  "Suc n < c \<Longrightarrow> k < c \<Longrightarrow> shift_states c ((clearing (Suc n))(0 := Reading)) k = clearing n k"
  by (auto simp: shift_states_def filled_def clearing_def)

lemma push_guard_loop_clears:
  assumes "ring (m_manager q) h 0 (Suc (length xs)) (clearing (length xs))"
    "slots_at c (m_data q) h (item xs)" "length xs < c" "m_capacity (m_manager q) = c" "length xs < fuel"
  shows "\<exists>n q'. push_guard_loop fuel (gen_at (m_manager q) (h + length xs)) (idx_at (m_manager q) (h + length xs)) p q
           = Inr (n, q') \<and> ring (m_manager q') (h + length xs) 0 1 (clearing 0) \<and>
           slots_at c (m_data q') (h + length xs) (item []) \<and>
           m_pushIndex (m_manager q') = m_pushIndex (m_manager q) \<and> m_capacity (m_manager q') = c"
  using assms
proof (induction xs arbitrary: q h p fuel)
  case Nil
  obtain f where "fuel = Suc f" using Nil.prems(5) by (cases fuel) auto
  then show ?case
    using Nil.prems reservePopForClear_stops[OF Nil.prems(1)] by auto
next
  case (Cons x xs)
  let ?m = "m_manager q" and ?n = "length (x # xs)"
  obtain f where fuel: "fuel = Suc f" "length xs < f" using Cons.prems(5) by (cases fuel) auto
  have full: "clearing ?n 0 = Full" by (simp add: clearing_def filled_def)
  have n: "0 < ?n" "?n < m_capacity ?m" using Cons.prems by simp_all
  obtain m' where m': "reservePopForClear (gen_at ?m (h + ?n)) (idx_at ?m (h + ?n)) ?m = Inr ((True, gen_at ?m h, idx_at ?m h), m')"
    "ring m' h 1 (Suc ?n) ((clearing ?n)(0 := Reading))"
    "m_pushIndex m' = m_pushIndex ?m" "m_capacity m' = m_capacity ?m"
    using reservePopForClear_takes[OF Cons.prems(1) full n] by blast
  let ?m2 = "commitPopIndex (gen_at ?m h) (idx_at ?m h) m'"
  let ?q2 = "(set_slot (idx_at ?m h) None q)\<lparr>m_manager := ?m2\<rparr>"
  have c2: "m_capacity ?m2 = c" "m_pushIndex ?m2 = m_pushIndex ?m"
    using m'(3,4) Cons.prems(4) by (simp_all add: commitPopIndex_def)
  have r2: "ring ?m2 (Suc h) 0 ?n (clearing (length xs))"
    using Cons.prems(1) m'(2,4) by (rule pop_cell) (use Cons.prems in \<open>simp add: clearing_shift\<close>)
  have "unat (idx_at ?m h) = h mod c"
    using ringD(1)[OF Cons.prems(1)] Cons.prems(4) by (simp add: unat_idx_at)
  then have s2: "slots_at c (m_data ?q2) (Suc h) (item xs)"
    using slots_at_pop[OF Cons.prems(2)] Cons.prems(3) by (simp add: set_slot_def)
  have pos: "gen_at ?m2 = gen_at ?m" "idx_at ?m2 = idx_at ?m"
    using position_cong[of ?m2 ?m] c2(1) Cons.prems(4) by simp_all
  have "push_guard_loop fuel (gen_at ?m (h + ?n)) (idx_at ?m (h + ?n)) p q =
      push_guard_loop f (gen_at ?m2 (Suc h + length xs)) (idx_at ?m2 (Suc h + length xs)) (Suc p) ?q2"
    using fuel m'(1) pos by simp
  then show ?case
    using Cons.IH[of ?q2 "Suc h" f "Suc p"] r2 s2 c2 Cons.prems(3) fuel(2) by simp
qed

lemma tryPushBack_throws:
  assumes r: "represents q (c, True, xs)" and l: "length xs < c"
  shows "\<exists>q'. tryPushBack True v q = Inr (None, q') \<and> represents q' (c, True, [])"
proof -
  obtain h where h: "ring (m_manager q) h 0 (length xs) (filled (length xs))"
    "slots_at c (m_data q) h (item xs)" and c: "m_capacity (m_manager q) = c" and en: "enabled (m_manager q)"
    using r by (auto simp: queue_capacity_def queue_enabled_def)
  let ?n = "length xs" and ?m = "m_manager q"
  have n: "?n < m_capacity ?m" using l c by simp
  have f: "filled ?n ?n = Empty" by (simp add: filled_def)
  obtain m' where m': "reservePushIndex ?m = Inr ((Success, gen_at ?m (h + ?n), idx_at ?m (h + ?n)), m')"
    "ring m' h 0 (Suc ?n) (clearing ?n)" "enabled m'" "m_capacity m' = m_capacity ?m"
    using reservePushIndex_takes[OF h(1) en n f] unfolding clearing_def by blast
  let ?q1 = "q\<lparr>m_manager := m'\<rparr>"
  obtain k q2 where q2: "push_guard_loop (Suc c) (gen_at m' (h + ?n)) (idx_at m' (h + ?n)) 1 ?q1 = Inr (k, q2)"
    "ring (m_manager q2) (h + ?n) 0 1 (clearing 0)" "slots_at c (m_data q2) (h + ?n) (item [])"
    "m_pushIndex (m_manager q2) = m_pushIndex m'" "m_capacity (m_manager q2) = c"
    using push_guard_loop_clears[of ?q1 h xs c "Suc c" 1] m'(2,4) h(2) l c by auto
  let ?m3 = "abortPushIndexReservation (gen_at (m_manager q2) (h + ?n)) (idx_at (m_manager q2) (h + ?n)) (m_manager q2)"
  have pos: "gen_at (m_manager q2) = gen_at ?m" "idx_at (m_manager q2) = idx_at ?m" "gen_at m' = gen_at ?m" "idx_at m' = idx_at ?m"
    using position_cong[of "m_manager q2" ?m] position_cong[of m' ?m] q2(5) m'(4) c by simp_all
  have "ring ?m3 (Suc (h + ?n)) 0 0 (shift_states (m_capacity (m_manager q2)) ((clearing 0)(0 := Reading)))"
    using q2(2) by (intro abortPushIndexReservation_ring) simp
  then have "ring ?m3 (Suc (h + ?n)) 0 0 (filled 0)"
    by (rule ring_cong) (simp add: shift_states_def filled_def clearing_def)
  moreover have "slots_at c (m_data q2) (Suc (h + ?n)) (item [])"
    by (rule slots_at_cong[OF slots_at_shift[OF q2(3)]]) (use l in \<open>simp_all add: item_def\<close>)
  moreover have "enabled ?m3" "m_capacity ?m3 = c"
    using m'(3) q2(4,5) by (simp_all add: abortPushIndexReservation_def cas_pop_def enabled_def Let_def)
  ultimately have "represents (q2\<lparr>m_manager := ?m3, m_pushSemaphore := m_pushSemaphore q2 + k\<rparr>) (c, True, [])"
    by (auto simp: queue_capacity_def queue_enabled_def)
  moreover have "push_guard_destroy (gen_at ?m (h + ?n)) (idx_at ?m (h + ?n)) ?q1 =
      Inr (q2\<lparr>m_manager := ?m3, m_pushSemaphore := m_pushSemaphore q2 + k\<rparr>)"
    using q2(1) m'(4) c unfolding pos
    by (simp add: push_guard_destroy_def queue_capacity_def del: push_guard_loop.simps)
  ultimately show ?thesis
    using m'(1) by (simp add: tryPushBack_def Let_def del: represents.simps)
qed

section \<open>Sequences of calls\<close>

datatype 'a queue_op =
    TryPush 'a | TryPushThrowing 'a | TryPop | RemoveAll | Disable | Enable | Size | IsFull | IsEmpty

datatype 'a queue_out = Pushed "QueueReturn option" | Popped "'a option" | Sized nat | Answer bool | Unit

fun queue_call :: "'a queue_op \<Rightarrow> 'a queue \<Rightarrow> ('a queue_out \<times> 'a queue) result" where
  "queue_call (TryPush v) q = bindE (tryPushBack False v q) (\<lambda>(r, q'). Inr (Pushed r, q'))"
| "queue_call (TryPushThrowing v) q = bindE (tryPushBack True v q) (\<lambda>(r, q'). Inr (Pushed r, q'))"
| "queue_call TryPop q = bindE (tryPopFront q) (\<lambda>(r, q'). Inr (Popped r, q'))"
| "queue_call RemoveAll q = bindE (removeAll q) (\<lambda>q'. Inr (Unit, q'))"
| "queue_call Disable q = bindE (queue_disable q) (\<lambda>q'. Inr (Unit, q'))"
| "queue_call Enable q = bindE (queue_enable q) (\<lambda>q'. Inr (Unit, q'))"
| "queue_call Size q = Inr (Sized (queue_size q), q)"
| "queue_call IsFull q = Inr (Answer (queue_full q), q)"
| "queue_call IsEmpty q = Inr (Answer (queue_empty q), q)"

fun fifo_call :: "'a queue_op \<Rightarrow> 'a fifo \<Rightarrow> 'a queue_out \<times> 'a fifo" where
  "fifo_call (TryPush v) (c, en, xs) =
     (if \<not> en then (Pushed (Some QueueDisabled), (c, en, xs))
      else if length xs < c then (Pushed (Some Success), (c, en, xs @ [v]))
      else (Pushed (Some QueueFull), (c, en, xs)))"
| "fifo_call (TryPushThrowing v) (c, en, xs) =
     (if \<not> en then (Pushed (Some QueueDisabled), (c, en, xs))
      else if length xs < c then (Pushed None, (c, en, []))
      else (Pushed (Some QueueFull), (c, en, xs)))"
| "fifo_call TryPop (c, en, xs) =
     (case xs of [] \<Rightarrow> (Popped None, (c, en, [])) | x # xs' \<Rightarrow> (Popped (Some x), (c, en, xs')))"
| "fifo_call RemoveAll (c, en, xs) = (Unit, (c, en, []))"
| "fifo_call Disable (c, en, xs) = (Unit, (c, False, xs))"
| "fifo_call Enable (c, en, xs) = (Unit, (c, True, xs))"
| "fifo_call Size (c, en, xs) = (Sized (length xs), (c, en, xs))"
| "fifo_call IsFull (c, en, xs) = (Answer (length xs = c), (c, en, xs))"
| "fifo_call IsEmpty (c, en, xs) = (Answer (xs = []), (c, en, xs))"

lemma queue_call_simulates:
  assumes r: "represents q s"
  shows "\<exists>q'. queue_call op q = Inr (fst (fifo_call op s), q') \<and> represents q' (snd (fifo_call op s))"
proof -
  obtain c en xs where s: "s = (c, en, xs)" by (cases s)
  note r = r[unfolded s]
  have le: "length xs \<le> c" and cap: "queue_capacity q = c" using r by simp_all
  note sz = queue_size_represents[OF r]
  show ?thesis
  proof (cases op)
    case (TryPush v)
    then show ?thesis
      using r le tryPushBack_success[of q c xs v] tryPushBack_full[of q c xs False v]
        tryPushBack_disabled[of q c xs False v]
      by (cases en) (auto simp: s simp del: represents.simps)
  next
    case (TryPushThrowing v)
    then show ?thesis
      using r le tryPushBack_throws[of q c xs v] tryPushBack_full[of q c xs True v]
        tryPushBack_disabled[of q c xs True v]
      by (cases en) (auto simp: s simp del: represents.simps)
  next
    case TryPop
    then show ?thesis
      using r tryPopFront_front[of q c en] tryPopFront_empty[of q c en]
      by (cases xs) (fastforce simp: s simp del: represents.simps)+
  next
    case RemoveAll
    then show ?thesis using removeAll_represents[OF r] by (auto simp: s simp del: represents.simps)
  next
    case Disable
    then show ?thesis using queue_disable_represents[OF r] by (auto simp: s simp del: represents.simps)
  next
    case Enable
    then show ?thesis using queue_enable_represents[OF r] by (auto simp: s simp del: represents.simps)
  qed (use r le sz cap in \<open>auto simp: s queue_full_def queue_empty_def simp del: represents.simps\<close>)
qed

interpretation fifo_queue: simulation queue_call fifo_call represents "\<lambda>_. True"
  by unfold_locales (rule queue_call_simulates)

text \<open>
  Claim C8. Every sequence of non-blocking calls of one thread on a new queue of an allowed capacity
  runs without a fault and without running out of steps, and returns what a bounded
  first-in-first-out list returns, however often the 31-bit combined indexes wrap; a push whose copy
  constructor throws leaves the queue empty.
\<close>

theorem queue_refines_fifo:
  assumes "0 < c" "c \<le> MAX_CAPACITY"
  shows "\<exists>q. run_ops queue_call ops (new_queue c) = Inr (fst (run_spec fifo_call ops (c, True, [])), q)
             \<and> represents q (snd (run_spec fifo_call ops (c, True, [])))"
  by (rule fifo_queue.run_simulates[OF new_queue_represents[OF assms]]) (simp add: list_all_iff)

theorem queue_refines_fifo_witness:
  "\<exists>q. run_ops queue_call [TryPush (7 :: nat), TryPush 8, TryPush 9, TryPop, TryPush 9, Size, TryPop] (new_queue 2)
         = Inr ([Pushed (Some Success), Pushed (Some Success), Pushed (Some QueueFull), Popped (Some 7),
                 Pushed (Some Success), Sized 2, Popped (Some 8)], q)"
  using queue_refines_fifo[of 2 "[TryPush (7 :: nat), TryPush 8, TryPush 9, TryPop, TryPush 9, Size, TryPop]"]
  by (auto simp: MAX_CAPACITY_def)

section \<open>Blocking calls\<close>

lemma represents_counters [simp]:
  "represents (q\<lparr>m_popSemaphore := n\<rparr>) a = represents q a"
  "represents (q\<lparr>m_waitingPushers := w\<rparr>) a = represents q a"
  "represents (q\<lparr>m_waitingPoppers := w\<rparr>) a = represents q a"
  by (cases a, simp add: queue_capacity_def queue_enabled_def)+

lemma tryPushBack_full_eq:
  assumes r: "represents q (c, True, xs)" and l: "length xs = c"
  shows "tryPushBack t v q = Inr (Some QueueFull, q)"
proof -
  obtain h where h: "ring (m_manager q) h 0 (m_capacity (m_manager q)) (filled (length xs))"
    and c: "m_capacity (m_manager q) = c" and en: "enabled (m_manager q)"
    using r l by (auto simp: queue_capacity_def queue_enabled_def)
  have "0 < c" using qm_wfD(1)[OF ringD(1)[OF h]] c by simp
  then have "filled (length xs) 0 = Full" using l by (simp add: filled_def)
  then have "reservePushIndex (m_manager q) = Inr ((QueueFull, 0, 0), m_manager q)"
    by (rule reservePushIndex_full[OF h en])
  then show ?thesis by (simp add: tryPushBack_def)
qed

lemma pushBack_loop_blocks:
  assumes "represents q (c, True, xs)" "length xs = c" "m_pushSemaphore q = n"
  shows "\<exists>q'. pushBack_loop (Suc n) t v q = Inr (Blocks, q') \<and> represents q' (c, True, xs) \<and>
           m_pushSemaphore q' = 0 \<and> m_waitingPushers q' = m_waitingPushers q + 1"
  using assms
proof (induction n arbitrary: q)
  case 0
  let ?q = "q\<lparr>m_waitingPushers := m_waitingPushers q + 1\<rparr>"
  have r: "represents ?q (c, True, xs)" using 0(1) by (simp del: represents.simps)
  have "queue_full ?q" "queue_enabled ?q"
    using queue_size_represents[OF r] 0(2) r by (simp_all add: queue_full_def)
  then show ?case using tryPushBack_full_eq[OF 0(1,2)] r 0(3) by (simp del: represents.simps)
next
  case (Suc n)
  let ?q = "q\<lparr>m_waitingPushers := m_waitingPushers q + 1\<rparr>"
  let ?q2 = "?q\<lparr>m_pushSemaphore := m_pushSemaphore ?q - 1, m_waitingPushers := m_waitingPushers ?q - 1\<rparr>"
  have r: "represents ?q (c, True, xs)" using Suc.prems(1) by (simp del: represents.simps)
  have "queue_full ?q" "queue_enabled ?q"
    using queue_size_represents[OF r] Suc.prems(2) r by (simp_all add: queue_full_def)
  then have "pushBack_loop (Suc (Suc n)) t v q = pushBack_loop (Suc n) t v ?q2"
    using tryPushBack_full_eq[OF Suc.prems(1,2)] Suc.prems(3)
    by (simp del: represents.simps pushBack_loop.simps add: pushBack_loop.simps(2)[of "Suc n"])
  moreover have "represents ?q2 (c, True, xs)" using Suc.prems(1) by (simp del: represents.simps)
  ultimately show ?case using Suc.IH[of ?q2] Suc.prems(2,3) by simp
qed

lemma popFront_loop_blocks:
  assumes "represents q (c, en, [])" "m_popSemaphore q = n"
  shows "\<exists>q'. popFront_loop (Suc n) q = Inr (Blocks, q') \<and> represents q' (c, en, []) \<and>
           m_popSemaphore q' = 0 \<and> m_waitingPoppers q' = m_waitingPoppers q + 1"
  using assms
proof (induction n arbitrary: q)
  case 0
  let ?q = "q\<lparr>m_waitingPoppers := m_waitingPoppers q + 1\<rparr>"
  have r: "represents ?q (c, en, [])" using 0(1) by (simp del: represents.simps)
  have "queue_empty ?q" using queue_size_represents[OF r] by (simp add: queue_empty_def)
  then show ?case using reservePop_empty[OF 0(1)] r 0(2) by (simp del: represents.simps)
next
  case (Suc n)
  let ?q = "q\<lparr>m_waitingPoppers := m_waitingPoppers q + 1\<rparr>"
  let ?q2 = "?q\<lparr>m_popSemaphore := m_popSemaphore ?q - 1, m_waitingPoppers := m_waitingPoppers ?q - 1\<rparr>"
  have r: "represents ?q (c, en, [])" using Suc.prems(1) by (simp del: represents.simps)
  have "queue_empty ?q" using queue_size_represents[OF r] by (simp add: queue_empty_def)
  then have "popFront_loop (Suc (Suc n)) q = popFront_loop (Suc n) ?q2"
    using reservePop_empty[OF Suc.prems(1)] Suc.prems(2)
    by (simp del: represents.simps popFront_loop.simps add: popFront_loop.simps(2)[of "Suc n"])
  moreover have "represents ?q2 (c, en, [])" using Suc.prems(1) by (simp del: represents.simps)
  ultimately show ?case using Suc.IH[of ?q2] Suc.prems(2) by simp
qed

text \<open>
  Claim C11. The blocking push returns at once when the queue is disabled or has room, and otherwise
  blocks with an unchanged queue after consuming the stale tokens of its semaphore, counted as one
  waiting pusher; it never runs out of steps.
\<close>

theorem pushBack_outcome:
  assumes r: "represents q (c, en, xs)"
  shows "\<exists>q'. pushBack False v q =
      Inr (if \<not> en then Returns (Some QueueDisabled) else if length xs < c then Returns (Some Success) else Blocks, q')
    \<and> represents q' (c, en, if en \<and> length xs < c then xs @ [v] else xs)
    \<and> (en \<and> length xs = c \<longrightarrow> m_pushSemaphore q' = 0 \<and> m_waitingPushers q' = m_waitingPushers q + 1)"
proof (cases "en \<and> length xs = c")
  case True
  then show ?thesis using pushBack_loop_blocks[of q c xs] r by (auto simp: pushBack_def simp del: represents.simps)
next
  case False
  have le: "length xs \<le> c" using r by simp
  show ?thesis
    using r le False tryPushBack_success[of q c xs v] tryPushBack_disabled[of q c xs False v]
    by (cases en) (auto simp: pushBack_def simp del: represents.simps)
qed

theorem pushBack_outcome_witness:
  "\<exists>q'. pushBack False (5 :: nat) (new_queue 1) = Inr (Returns (Some Success), q') \<and> represents q' (1, True, [5])"
  using pushBack_outcome[OF new_queue_represents[of 1], of 5] by (auto simp: MAX_CAPACITY_def simp del: represents.simps)

text \<open>
  Claim C12. The blocking pop returns the oldest element of a queue that has one and blocks on an empty
  queue after consuming the stale tokens of its semaphore; the pop with a timeout returns the oldest
  element or nothing.
\<close>

theorem popFront_outcome:
  assumes r: "represents q (c, en, xs)"
  shows "(\<exists>q'. popFront q = Inr (case xs of [] \<Rightarrow> Blocks | x # _ \<Rightarrow> Returns x, q') \<and> represents q' (c, en, tl xs))
       \<and> (\<exists>q'. popFrontWithTimeout q = Inr (case xs of [] \<Rightarrow> None | x # _ \<Rightarrow> Some x, q') \<and> represents q' (c, en, tl xs))"
proof (cases xs)
  case Nil
  let ?q = "q\<lparr>m_waitingPoppers := m_waitingPoppers q + 1\<rparr>"
  let ?q2 = "?q\<lparr>m_popSemaphore := m_popSemaphore ?q - 1, m_waitingPoppers := m_waitingPoppers ?q - 1\<rparr>"
  have r0: "represents q (c, en, [])" "represents ?q (c, en, [])" "represents ?q2 (c, en, [])"
    using r Nil by (simp_all del: represents.simps)
  have "queue_empty ?q" using queue_size_represents[OF r0(2)] by (simp add: queue_empty_def)
  then have "popFrontWithTimeout q = Inr (None, ?q2)"
    using reservePop_empty[OF r0(1)] reservePop_empty[OF r0(3)]
    by (simp add: popFrontWithTimeout_def numeral_2_eq_2 del: represents.simps)
  then show ?thesis
    using r0(1,3) popFront_loop_blocks[OF r0(1)] Nil by (auto simp: popFront_def simp del: represents.simps)
next
  case (Cons x xs')
  obtain g i m' where *: "reservePopIndex (m_manager q) = Inr ((Success, g, i), m')"
    "m_data q ! unat i = Some x"
    "represents ((set_slot i None q)\<lparr>m_manager := commitPopIndex g i m'\<rparr>) (c, en, xs')"
    using reservePop_front[OF r[unfolded Cons]] by blast
  then show ?thesis
    using represents_pop_guard[OF *(3)] Cons
    by (simp add: popFront_def popFrontWithTimeout_def numeral_2_eq_2 take_front_def Let_def del: represents.simps)
qed

theorem popFront_outcome_witness:
  "(\<exists>q'. popFront (new_queue 1 :: nat queue) = Inr (Blocks, q')) \<and>
   (\<exists>q'. popFrontWithTimeout (new_queue 1 :: nat queue) = Inr (None, q'))"
  using popFront_outcome[OF new_queue_represents[of 1], where 'a = nat] by (auto simp: MAX_CAPACITY_def simp del: represents.simps)

end
