(* ===== verification/Queue_Threads.thy ===== *)
theory Queue_Threads
  imports Queue "HOL-Library.Multiset"
begin

text \<open>
  The queue shared by any number of threads, under sequential consistency.  Each thread executes the
  step functions of the index manager one atomic access at a time, and the threads interleave
  freely.  Construction of an element in its slot and its move out of the slot are steps of their
  own, between the reservation of the cell and its commit.
\<close>

section \<open>Threads\<close>

text \<open>
  A thread is between calls, inside \<open>tryPushBack\<close> up to the return of \<open>reservePushIndex\<close>, past the
  construction of its element, inside \<open>tryPopFront\<close> up to the return of \<open>reservePopIndex\<close>, past the
  move out of the element, or switching the queue off or on.
\<close>

datatype 'a thread =
    Idle
  | Pushing 'a push_pc
  | Constructed u32 u32
  | Popping pop_pc
  | MovedOut u32 u32
  | Disabling flag_pc
  | Enabling flag_pc

text \<open>\<open>pushed\<close> and \<open>popped\<close> record what was constructed in and moved out of the queue so far.\<close>

record 'a shared =
  mgr :: qm
  slots :: "'a option list"
  pushed :: "'a multiset"
  popped :: "'a multiset"

type_synonym 'a conf = "'a shared \<times> (nat \<Rightarrow> 'a thread)"

inductive thread_step :: "'a shared \<Rightarrow> 'a thread \<Rightarrow> 'a shared \<Rightarrow> 'a thread \<Rightarrow> bool" where
  start_push: "thread_step s Idle s (Pushing v (PushLoad (- 1)))"
| push: "push_returned pc = None \<Longrightarrow> step_push (mgr s) pc = (m', pc') \<Longrightarrow>
    thread_step s (Pushing v pc) (s\<lparr>mgr := m'\<rparr>) (Pushing v pc')"
| push_fails: "r \<noteq> Success \<Longrightarrow> thread_step s (Pushing v (PushDone r g i)) s Idle"
| construct: "thread_step s (Pushing v (PushDone Success g i))
    (s\<lparr>slots := (slots s)[unat i := Some v], pushed := add_mset v (pushed s)\<rparr>) (Constructed g i)"
| commit_push: "thread_step s (Constructed g i) (s\<lparr>mgr := commitPushIndex g i (mgr s)\<rparr>) Idle"
| start_pop: "thread_step s Idle s (Popping (PopLoad (- 1)))"
| pop: "pop_returned pc = None \<Longrightarrow> step_pop (mgr s) pc = (m', pc') \<Longrightarrow>
    thread_step s (Popping pc) (s\<lparr>mgr := m'\<rparr>) (Popping pc')"
| pop_fails: "r \<noteq> Success \<Longrightarrow> thread_step s (Popping (PopDone r g i)) s Idle"
| move_out: "slots s ! unat i = Some v \<Longrightarrow> thread_step s (Popping (PopDone Success g i))
    (s\<lparr>slots := (slots s)[unat i := None], popped := add_mset v (popped s)\<rparr>) (MovedOut g i)"
| commit_pop: "thread_step s (MovedOut g i) (s\<lparr>mgr := commitPopIndex g i (mgr s)\<rparr>) Idle"
| start_disable: "thread_step s Idle s (Disabling FlagLoad)"
| disabling: "step_disable (mgr s) pc = (m', pc') \<Longrightarrow>
    thread_step s (Disabling pc) (s\<lparr>mgr := m'\<rparr>) (if pc' = FlagDone then Idle else Disabling pc')"
| start_enable: "thread_step s Idle s (Enabling FlagLoad)"
| enabling: "step_enable (mgr s) pc = (m', pc') \<Longrightarrow>
    thread_step s (Enabling pc) (s\<lparr>mgr := m'\<rparr>) (if pc' = FlagDone then Idle else Enabling pc')"

inductive conf_step :: "'a conf \<Rightarrow> 'a conf \<Rightarrow> bool" where
  "thread_step s (th t) s' x \<Longrightarrow> conf_step (s, th) (s', th(t := x))"

definition start_conf :: "nat \<Rightarrow> 'a conf" where
  "start_conf c =
     (\<lparr>mgr = new_manager c, slots = replicate c None, pushed = {#}, popped = {#}\<rparr>, \<lambda>_. Idle)"

inductive reachable :: "nat \<Rightarrow> 'a conf \<Rightarrow> bool" for c where
  start: "reachable c (start_conf c)"
| step: "reachable c x \<Longrightarrow> conf_step x y \<Longrightarrow> reachable c y"

section \<open>Ownership of cells\<close>

text \<open>
  The cell a thread has reserved: the state it gave it, the generation, the index, and whether the
  slot holds an element.
\<close>

fun owner :: "'a thread \<Rightarrow> (ElementState \<times> u32 \<times> u32 \<times> bool) option" where
  "owner (Pushing v (PushGot w g i)) = Some (Writing, g, i, False)"
| "owner (Pushing v (PushDone Success g i)) = Some (Writing, g, i, False)"
| "owner (Constructed g i) = Some (Writing, g, i, True)"
| "owner (Popping (PopGot w g i)) = Some (Reading, g, i, True)"
| "owner (Popping (PopDone Success g i)) = Some (Reading, g, i, True)"
| "owner (MovedOut g i) = Some (Reading, g, i, False)"
| "owner _ = None"

definition owns :: "'a thread \<Rightarrow> u32 \<Rightarrow> bool" where
  "owns x i \<longleftrightarrow> (\<exists>st g b. owner x = Some (st, g, i, b))"

fun in_range :: "qm \<Rightarrow> 'a thread \<Rightarrow> bool" where
  "in_range m (Pushing v (PushTry w s)) \<longleftrightarrow> unat (discardDisabledFlag w) < cycle m"
| "in_range m (Pushing v (PushHelp w s)) \<longleftrightarrow> unat w < cycle m"
| "in_range m (Pushing v (PushGot w g i)) \<longleftrightarrow> unat w < cycle m"
| "in_range m (Popping (PopTry w s)) \<longleftrightarrow> unat w < cycle m"
| "in_range m (Popping (PopHelp w s)) \<longleftrightarrow> unat w < cycle m"
| "in_range m (Popping (PopGot w g i)) \<longleftrightarrow> unat w < cycle m"
| "in_range m (Disabling (FlagCas w)) \<longleftrightarrow> unat (discardDisabledFlag w) < cycle m"
| "in_range m (Enabling (FlagCas w)) \<longleftrightarrow> unat (discardDisabledFlag w) < cycle m"
| "in_range m _ \<longleftrightarrow> True"

definition indexes_ok :: "qm \<Rightarrow> bool" where
  "indexes_ok m \<longleftrightarrow> qm_wf m \<and> unat (m_popIndex m) < cycle m \<and>
     unat (discardDisabledFlag (m_pushIndex m)) < cycle m"

definition cell_is :: "'a shared \<Rightarrow> u32 \<Rightarrow> u32 \<Rightarrow> ElementState \<Rightarrow> bool \<Rightarrow> bool" where
  "cell_is s i g st b \<longleftrightarrow> unat i < m_capacity (mgr s) \<and> unat g < gens (m_capacity (mgr s)) \<and>
     cell (mgr s) i = encodeElement g st \<and> (slots s ! unat i \<noteq> None) = b"

fun consistent :: "'a conf \<Rightarrow> bool" where
  "consistent (s, th) \<longleftrightarrow> indexes_ok (mgr s) \<and> length (slots s) = m_capacity (mgr s) \<and>
     (\<forall>t. in_range (mgr s) (th t)) \<and>
     (\<forall>t st g i b. owner (th t) = Some (st, g, i, b) \<longrightarrow> cell_is s i g st b) \<and>
     (\<forall>t t' i. owns (th t) i \<longrightarrow> owns (th t') i \<longrightarrow> t = t') \<and>
     (\<forall>i. unat i < m_capacity (mgr s) \<longrightarrow> (\<forall>t. \<not> owns (th t) i) \<longrightarrow>
        (\<exists>g. cell_is s i g Empty False \<or> cell_is s i g Full True))"


lemma in_range_cong: "cycle m = cycle m' \<Longrightarrow> in_range m x = in_range m' x"
  by (cases "(m, x)" rule: in_range.cases) simp_all

lemma consistent_quiet:
  fixes s :: "'a shared"
  assumes c: "consistent (s, th)" and ok: "indexes_ok (mgr s')"
    and same: "m_states (mgr s') = m_states (mgr s)" "m_capacity (mgr s') = m_capacity (mgr s)" "slots s' = slots s"
    and x: "owner x = owner (th t)" "in_range (mgr s') x"
  shows "consistent (s', th(t := x))"
proof -
  have "cell_is s' = cell_is s" by (intro ext) (simp add: cell_is_def cell_def same)
  moreover have "in_range (mgr s') y = in_range (mgr s) y" for y :: "'a thread"
    using same(2) by (intro in_range_cong) (simp add: cycle_def)
  moreover have "owns (if t' = t then x else th t') = owns (th t')" for t'
    using x(1) by (auto simp: owns_def fun_eq_iff)
  ultimately show ?thesis using c ok same x by (auto simp: fun_upd_apply)
qed

lemma consistent_local:
  fixes s :: "'a shared"
  assumes c: "consistent (s, th)" and ok: "indexes_ok (mgr s')"
    and same: "m_capacity (mgr s') = m_capacity (mgr s)" "length (slots s') = length (slots s)"
    and elsewhere: "\<And>j g st b. j \<noteq> i \<Longrightarrow> cell_is s' j g st b = cell_is s j g st b"
    and before: "owner (th t) = None \<or> owns (th t) i" and others: "\<And>t'. owns (th t') i \<Longrightarrow> t' = t"
    and x: "in_range (mgr s') x" "\<And>st g j b. owner x = Some (st, g, j, b) \<Longrightarrow> j = i \<and> cell_is s' i g st b"
      "owner x = None \<Longrightarrow> \<exists>g. cell_is s' i g Empty False \<or> cell_is s' i g Full True"
  shows "consistent (s', th(t := x))"
proof -
  have range: "in_range (mgr s') y = in_range (mgr s) y" for y :: "'a thread"
    using same(1) by (intro in_range_cong) (simp add: cycle_def)
  have only: "owns x j \<Longrightarrow> j = i" for j using x(2) by (auto simp: owns_def)
  have other: "t' \<noteq> t \<Longrightarrow> owns (th t') j \<Longrightarrow> j \<noteq> i" for t' j using others by blast
  have cells: "cell_is s' j g st b" if "owner ((th(t := x)) t') = Some (st, g, j, b)" for t' st g j b
  proof (cases "t' = t")
    case True
    then show ?thesis using that x(2) by simp
  next
    case False
    then have "owner (th t') = Some (st, g, j, b)" "j \<noteq> i"
      using that other[of t' j] by (auto simp: owns_def)
    then show ?thesis using c elsewhere by simp
  qed
  have single: "t1 = t2" if "owns ((th(t := x)) t1) j" "owns ((th(t := x)) t2) j" for t1 t2 j
    using that only other c by (auto simp: fun_upd_apply split: if_splits)
  have free: "\<exists>g. cell_is s' j g Empty False \<or> cell_is s' j g Full True"
    if j: "unat j < m_capacity (mgr s')" and unowned: "\<forall>t'. \<not> owns ((th(t := x)) t') j" for j
  proof (cases "j = i")
    case True
    have "owner x = None" using unowned[rule_format, of t] x(2) True by (cases "owner x") (auto simp: owns_def)
    then show ?thesis using x(3) True by simp
  next
    case False
    have "\<not> owns (th t) j" using before False c by (auto simp: owns_def)
    then have "\<forall>t'. \<not> owns (th t') j" using unowned by (auto simp: fun_upd_apply split: if_splits)
    then show ?thesis using c j same(1) elsewhere[OF False] by simp
  qed
  show ?thesis unfolding consistent.simps
  proof (intro conjI allI impI)
    show "length (slots s') = m_capacity (mgr s')" using c same by simp
    show "in_range (mgr s') ((th(t := x)) t')" for t' using c x(1) range by simp
  qed (use ok in \<open>blast intro: cells single free\<close>)+
qed


section \<open>Every step keeps the configuration consistent\<close>

lemma owner_state: "owner x = Some (st, g, i, b) \<Longrightarrow> st = Writing \<or> st = Reading"
  by (cases x rule: owner.cases) simp_all

lemma gens_less_30: "qm_wf m \<Longrightarrow> unat g < gens (m_capacity m) \<Longrightarrow> unat (g :: u32) < 2 ^ 30"
  using gens_le[of "m_capacity m"] by linarith

lemma cell_is_unique:
  assumes "qm_wf (mgr s)" "cell_is s i g st b" "cell_is s i g' st' b'"
  shows "g = g'" "st = st'" "b = b'"
  using assms gens_less_30[OF assms(1), of g] gens_less_30[OF assms(1), of g']
  by (auto simp: cell_is_def encode_inj)

lemma unowned_cell:
  assumes c: "consistent (s, th)" and i: "cell_is s i g st b" "st = Empty \<or> st = Full"
  shows "\<not> owns (th t) i"
proof
  assume "owns (th t) i"
  then obtain st' g' b' where o: "owner (th t) = Some (st', g', i, b')" by (auto simp: owns_def)
  then have "cell_is s i g' st' b'" using c by simp
  moreover have "qm_wf (mgr s)" using c by (simp add: indexes_ok_def)
  ultimately have "st' = st" using cell_is_unique(2) i(1) by blast
  then show False using owner_state[OF o] i(2) by auto
qed

lemma position_bounds:
  assumes "qm_wf m" "unat w < cycle m"
  shows "unat (gen_of m w) < gens (m_capacity m)" "unat (idx_of m w) < m_capacity m"
proof -
  have w: "unat w = unat w mod cycle m" using assms(2) by simp
  show "unat (gen_of m w) < gens (m_capacity m)"
    using gen_of_at[OF w] gen_at_less[OF assms(1)] by simp
  show "unat (idx_of m w) < m_capacity m"
    using idx_of_at[OF w] unat_idx_at[OF assms(1)] qm_wfD(1)[OF assms(1)] by simp
qed

lemma nextCombinedIndex_bound:
  assumes "qm_wf m" "unat w < cycle m"
  shows "unat (nextCombinedIndex m w) < cycle m"
  using nextCombinedIndex_at[OF assms(1), of w "unat w"] assms cycle_pos[OF assms(1)] by simp

lemma discard_below_cycle:
  "qm_wf m \<Longrightarrow> unat w < cycle m \<Longrightarrow> unat (discardDisabledFlag w) < cycle m"
  using mod_less_eq_dividend[of "unat w" "2 ^ 31"] by (simp only: unat_discard)

lemma cas_push_keeps:
  assumes "indexes_ok m" "unat w < cycle m"
  shows "indexes_ok (snd (cas_push w m))" "m_states (snd (cas_push w m)) = m_states m"
    "m_capacity (snd (cas_push w m)) = m_capacity m" "unat (discardDisabledFlag (fst (cas_push w m))) < cycle m"
  using assms nextCombinedIndex_bound[of m w]
  by (auto simp: cas_push_def indexes_ok_def discard_below_cycle)

lemma cas_pop_keeps:
  assumes "indexes_ok m" "unat w < cycle m"
  shows "indexes_ok (snd (cas_pop w m))" "m_states (snd (cas_pop w m)) = m_states m"
    "m_capacity (snd (cas_pop w m)) = m_capacity m" "unat (fst (cas_pop w m)) < cycle m"
  using assms nextCombinedIndex_bound[of m w] by (auto simp: cas_pop_def indexes_ok_def)

lemma cycle_cong: "m_capacity m = m_capacity m' \<Longrightarrow> cycle m = cycle m'"
  by (simp add: cycle_def)

definition quiet :: "qm \<Rightarrow> qm \<Rightarrow> 'a thread \<Rightarrow> 'a thread \<Rightarrow> bool" where
  "quiet m m' x x' \<longleftrightarrow> indexes_ok m' \<and> m_states m' = m_states m \<and> m_capacity m' = m_capacity m \<and>
     owner x' = owner x \<and> in_range m' x'"

definition acquires :: "ElementState \<Rightarrow> ElementState \<Rightarrow> qm \<Rightarrow> qm \<Rightarrow> bool \<Rightarrow> 'a thread \<Rightarrow> 'a thread \<Rightarrow> bool" where
  "acquires st st' m m' b x x' \<longleftrightarrow> (\<exists>g i. owner x = None \<and> owner x' = Some (st', g, i, b) \<and> in_range m' x' \<and>
     unat i < m_capacity m \<and> unat g < gens (m_capacity m) \<and> cell m i = encodeElement g st \<and>
     m' = set_cell i (encodeElement g st') m)"

lemma step_push_cases:
  assumes ok: "indexes_ok m" and r: "in_range m (Pushing v pc)" and pc: "push_returned pc = None"
    and st: "step_push m pc = (m', pc')"
  shows "quiet m m' (Pushing v pc) (Pushing v pc') \<or>
         acquires Empty Writing m m' False (Pushing v pc) (Pushing v pc')"
proof (cases pc)
  case (PushLoad sv)
  then show ?thesis using ok st by (auto simp: quiet_def indexes_ok_def)
next
  case (PushTry w sv)
  then have w: "unat (discardDisabledFlag w) < cycle m" using r by simp
  have wf: "qm_wf m" using ok by (simp add: indexes_ok_def)
  note b = position_bounds[OF wf w]
  show ?thesis
  proof (cases "isDisabledFlagSet w \<or> cell m (idx_of m (discardDisabledFlag w)) \<noteq> encodeElement (gen_of m (discardDisabledFlag w)) Empty")
    case True
    then have "quiet m m' (Pushing v pc) (Pushing v pc')"
      using st PushTry ok w by (auto simp: quiet_def push_try_def Let_def split: if_splits)
    then show ?thesis ..
  next
    case False
    then have "acquires Empty Writing m m' False (Pushing v pc) (Pushing v pc')"
      using st PushTry b w by (auto simp: acquires_def push_try_def Let_def)
    then show ?thesis ..
  qed
next
  case (PushHelp w sv)
  then have w: "unat w < cycle m" using r by simp
  then have "quiet m m' (Pushing v pc) (Pushing v pc')"
    using st PushHelp cas_push_keeps[OF ok w] by (auto simp: quiet_def case_prod_beta Let_def cycle_cong[of "snd (cas_push w m)" m])
  then show ?thesis ..
next
  case (PushGot w g i)
  then have w: "unat w < cycle m" using r by simp
  then have "quiet m m' (Pushing v pc) (Pushing v pc')"
    using st PushGot cas_push_keeps[OF ok w] by (auto simp: quiet_def)
  then show ?thesis ..
qed (use pc in simp)

lemma step_pop_cases:
  assumes ok: "indexes_ok m" and r: "in_range m (Popping pc)" and pc: "pop_returned pc = None"
    and st: "step_pop m pc = (m', pc')"
  shows "quiet m m' (Popping pc) (Popping pc') \<or> acquires Full Reading m m' True (Popping pc) (Popping pc')"
proof (cases pc)
  case (PopLoad sv)
  then show ?thesis using ok st by (auto simp: quiet_def indexes_ok_def)
next
  case (PopTry w sv)
  then have w: "unat w < cycle m" using r by simp
  have wf: "qm_wf m" using ok by (simp add: indexes_ok_def)
  note b = position_bounds[OF wf w]
  show ?thesis
  proof (cases "cell m (idx_of m w) = encodeElement (gen_of m w) Full")
    case True
    then have "acquires Full Reading m m' True (Popping pc) (Popping pc')"
      using st PopTry b w by (auto simp: acquires_def pop_try_def Let_def)
    then show ?thesis ..
  next
    case False
    then have "quiet m m' (Popping pc) (Popping pc')"
      using st PopTry ok w by (auto simp: quiet_def pop_try_def Let_def split: if_splits)
    then show ?thesis ..
  qed
next
  case (PopHelp w sv)
  then have w: "unat w < cycle m" using r by simp
  then have "quiet m m' (Popping pc) (Popping pc')"
    using st PopHelp cas_pop_keeps[OF ok w] by (auto simp: quiet_def case_prod_beta Let_def cycle_cong[of "snd (cas_pop w m)" m])
  then show ?thesis ..
next
  case (PopGot w g i)
  then have w: "unat w < cycle m" using r by simp
  then have "quiet m m' (Popping pc) (Popping pc')"
    using st PopGot cas_pop_keeps[OF ok w] by (auto simp: quiet_def)
  then show ?thesis ..
qed (use pc in simp)


lemma indexes_ok_set_cell [simp]: "indexes_ok (set_cell i v m) = indexes_ok m"
  by (simp add: indexes_ok_def)

lemma cell_is_set_cell:
  "j \<noteq> i \<Longrightarrow> cell_is (s\<lparr>mgr := set_cell i v (mgr s)\<rparr>) j g st b = cell_is s j g st b"
  "qm_wf (mgr s) \<Longrightarrow> unat i < m_capacity (mgr s) \<Longrightarrow>
   cell_is (s\<lparr>mgr := set_cell i (encodeElement g st) (mgr s)\<rparr>) i g st b \<longleftrightarrow>
   unat g < gens (m_capacity (mgr s)) \<and> (slots s ! unat i \<noteq> None) = b"
  using qm_wfD(9)[of "mgr s"]
  by (auto simp: cell_is_def cell_def set_cell_def nth_list_update word_unat_eq_iff)

lemma consistentD:
  assumes "consistent (s, th)"
  shows "indexes_ok (mgr s)" "qm_wf (mgr s)" "length (slots s) = m_capacity (mgr s)" "in_range (mgr s) (th t)"
    "owner (th t) = Some (st, g, i, b) \<Longrightarrow> cell_is s i g st b"
    "owns (th t) i \<Longrightarrow> owns (th t') i \<Longrightarrow> t' = t"
    "unat i < m_capacity (mgr s) \<Longrightarrow> (\<And>t. \<not> owns (th t) i) \<Longrightarrow>
       \<exists>g. cell_is s i g Empty False \<or> cell_is s i g Full True"
  using assms by (auto simp: indexes_ok_def)

declare consistent.simps [simp del]

lemma consistent_acquire:
  assumes c: "consistent (s, th)" and a: "acquires st st' (mgr s) m' b (th t) x"
    and st: "st = Empty \<and> \<not> b \<or> st = Full \<and> b"
  shows "consistent (s\<lparr>mgr := m'\<rparr>, th(t := x))"
proof -
  obtain g i where o: "owner (th t) = None" "owner x = Some (st', g, i, b)" "in_range m' x"
    and i: "unat i < m_capacity (mgr s)" "unat g < gens (m_capacity (mgr s))" "cell (mgr s) i = encodeElement g st"
    and m': "m' = set_cell i (encodeElement g st') (mgr s)"
    using a by (auto simp: acquires_def)
  note wf = consistentD(2)[OF c]
  have ci: "cell_is s i g st (slots s ! unat i \<noteq> None)" using i by (simp add: cell_is_def)
  then have free: "\<not> owns (th t') i" for t' using unowned_cell[OF c] st by blast
  then obtain g' where "cell_is s i g' Empty False \<or> cell_is s i g' Full True"
    using consistentD(7)[OF c i(1)] by blast
  then have "(slots s ! unat i \<noteq> None) = b"
    using cell_is_unique[OF wf ci] st by blast
  then have "cell_is (s\<lparr>mgr := m'\<rparr>) i g st' b" using i wf by (simp add: m' cell_is_set_cell)
  then show ?thesis
    using c o free consistentD(1)[OF c] m'
    by (intro consistent_local[OF c, where i = i]) (auto simp: cell_is_set_cell)
qed

lemma consistent_release:
  assumes c: "consistent (s, th)" and o: "owner (th t) = Some (st, g, i, b)" "owner x = None" "in_range (mgr s) x"
    and g': "unat g' < gens (m_capacity (mgr s))" and st': "st' = Empty \<and> \<not> b \<or> st' = Full \<and> b"
  shows "consistent (s\<lparr>mgr := set_cell i (encodeElement g' st') (mgr s)\<rparr>, th(t := x))"
proof -
  note wf = consistentD(2)[OF c]
  have ci: "cell_is s i g st b" using consistentD(5)[OF c o(1)] .
  then have "cell_is (s\<lparr>mgr := set_cell i (encodeElement g' st') (mgr s)\<rparr>) i g' st' b"
    using wf g' by (simp add: cell_is_set_cell cell_is_def[of s])
  moreover have "owns (th t) i" using o(1) by (auto simp: owns_def)
  moreover have "in_range (set_cell i (encodeElement g' st') (mgr s)) x"
    using o(3) in_range_cong[of "set_cell i (encodeElement g' st') (mgr s)" "mgr s" x] by simp
  ultimately show ?thesis
    using o st' consistentD(1)[OF c] consistentD(6)[OF c]
    by (intro consistent_local[OF c, where i = i]) (auto simp: cell_is_set_cell)
qed

lemma consistent_slot:
  assumes c: "consistent (s, th)" and o: "owner (th t) = Some (st, g, i, b)" "owner x = Some (st, g, i, b')"
    and x: "in_range (mgr s) x" and v: "(v \<noteq> None) = b'"
    and s': "mgr s' = mgr s" "slots s' = (slots s)[unat i := v]"
  shows "consistent (s', th(t := x))"
proof -
  have "cell_is s i g st b" using consistentD(5)[OF c o(1)] .
  then have "cell_is s' i g st b'" using s' v consistentD(3)[OF c] by (simp add: cell_is_def)
  moreover have "owns (th t) i" using o(1) by (auto simp: owns_def)
  moreover have "cell_is s' j g st b = cell_is s j g st b" if "j \<noteq> i" for j g st b
    using that s' by (auto simp: cell_is_def word_unat_eq_iff)
  ultimately show ?thesis
    using o x s' consistentD(1)[OF c] consistentD(6)[OF c]
    by (intro consistent_local[OF c, where i = i]) auto
qed

lemma nextGeneration_bound:
  assumes wf: "qm_wf m" and g: "unat g < gens (m_capacity m)"
  shows "unat (nextGeneration m g) < gens (m_capacity m)"
proof (cases "m_maxGeneration m = g")
  case True
  then show ?thesis using qm_wfD(3)[OF wf] by (simp add: nextGeneration_def)
next
  case False
  then have "unat g \<noteq> unat (m_maxGeneration m)" by (simp add: word_unat_eq_iff)
  then have "Suc (unat g) < gens (m_capacity m)" using g qm_wfD(7)[OF wf] by linarith
  moreover have "unat (g + 1) = Suc (unat g)"
    using gens_less_30[OF wf g] by (simp add: unat_add_1_less)
  ultimately show ?thesis using False by (simp add: nextGeneration_def)
qed


lemma discard_or_mask: "discardDisabledFlag (w OR DISABLED_STATE_MASK) = discardDisabledFlag w"
  by (simp add: discardDisabledFlag_def bit.conj_disj_distrib2)

lemma discard_discard: "discardDisabledFlag (w AND NOT DISABLED_STATE_MASK) = discardDisabledFlag w"
  by (simp add: discardDisabledFlag_def and.assoc)

lemma step_flag_quiet:
  assumes "indexes_ok m"
  shows "in_range m (Disabling pc) \<Longrightarrow> step_disable m pc = (m', pc') \<Longrightarrow>
      quiet m m' (Disabling pc) (if pc' = FlagDone then Idle else Disabling pc')"
    and "in_range m (Enabling pc) \<Longrightarrow> step_enable m pc = (m', pc') \<Longrightarrow>
      quiet m m' (Enabling pc) (if pc' = FlagDone then Idle else Enabling pc')"
  using assms
  by (cases pc; auto simp: quiet_def indexes_ok_def discard_or_mask discard_discard split: if_splits)+

lemma consistent_quiet_step:
  assumes "consistent (s, th)" "quiet (mgr s) m' (th t) x"
  shows "consistent (s\<lparr>mgr := m'\<rparr>, th(t := x))"
  using assms(2) by (intro consistent_quiet[OF assms(1)]) (auto simp: quiet_def)

lemma thread_step_consistent:
  assumes step: "thread_step s x s' x'" and c: "consistent (s, th)" and t: "th t = x"
  shows "consistent (s', th(t := x'))"
proof -
  note ok = consistentD(1)[OF c]
  have r: "in_range (mgr s) x" using consistentD(4)[OF c, of t] t by simp
  have same: "consistent (s, th(t := y))" if "owner y = owner x" "in_range (mgr s) y" for y
    using consistent_quiet[OF c ok] that t by simp
  show ?thesis
    using step
  proof cases
    case (push pc m' pc' v)
    then show ?thesis
      using step_push_cases[OF ok r[unfolded push(1)] push(4,5)]
        consistent_quiet_step[OF c, of m' t x'] consistent_acquire[OF c, of Empty Writing m' False t x'] t by auto
  next
    case (pop pc m' pc')
    then show ?thesis
      using step_pop_cases[OF ok r[unfolded pop(1)] pop(4,5)]
        consistent_quiet_step[OF c, of m' t x'] consistent_acquire[OF c, of Full Reading m' True t x'] t by auto
  next
    case (construct v g i)
    then show ?thesis
      using t by (intro consistent_slot[OF c, where t = t and v = "Some v" and i = i]) auto
  next
    case (move_out i v g)
    then show ?thesis
      using t by (intro consistent_slot[OF c, where t = t and v = None and i = i]) auto
  next
    case (commit_push g i)
    then have o: "owner (th t) = Some (Writing, g, i, True)" using t by simp
    then have "unat g < gens (m_capacity (mgr s))" using consistentD(5)[OF c] by (auto simp: cell_is_def)
    then show ?thesis
      using commit_push consistent_release[OF c o, of Idle g Full] by (simp add: commitPushIndex_def)
  next
    case (commit_pop g i)
    then have o: "owner (th t) = Some (Reading, g, i, False)" using t by simp
    then have "unat g < gens (m_capacity (mgr s))" using consistentD(5)[OF c] by (auto simp: cell_is_def)
    then have "unat (nextGeneration (mgr s) g) < gens (m_capacity (mgr s))"
      by (rule nextGeneration_bound[OF consistentD(2)[OF c]])
    then show ?thesis
      using commit_pop consistent_release[OF c o, of Idle _ Empty] by (simp add: commitPopIndex_def)
  next
    case (disabling pc m' pc')
    then show ?thesis using step_flag_quiet(1)[OF ok r[unfolded disabling(1)] disabling(4)]
        consistent_quiet_step[OF c, of m' t x'] t by auto
  next
    case (enabling pc m' pc')
    then show ?thesis using step_flag_quiet(2)[OF ok r[unfolded enabling(1)] enabling(4)]
        consistent_quiet_step[OF c, of m' t x'] t by auto
  next
    case (push_fails r v g i)
    then show ?thesis using same[of Idle] by (cases r) simp_all
  next
    case (pop_fails r g i)
    then show ?thesis using same[of Idle] by (cases r) simp_all
  qed (use same in simp_all)
qed

section \<open>Elements are neither lost nor duplicated\<close>

definition contents :: "'a option list \<Rightarrow> 'a multiset" where
  "contents d = mset (List.map_filter (\<lambda>x. x) d)"

lemma contents_Cons [simp]:
  "contents [] = {#}" "contents (None # d) = contents d" "contents (Some v # d) = add_mset v (contents d)"
  by (simp_all add: contents_def map_filter_simps)

lemma contents_store: "i < length d \<Longrightarrow> d ! i = None \<Longrightarrow> contents (d[i := Some v]) = add_mset v (contents d)"
proof (induction d arbitrary: i)
  case (Cons x d)
  then show ?case by (cases i; cases x) simp_all
qed simp

lemma contents_clear: "i < length d \<Longrightarrow> d ! i = Some v \<Longrightarrow> add_mset v (contents (d[i := None])) = contents d"
proof (induction d arbitrary: i)
  case (Cons x d)
  then show ?case by (cases i; cases x) (auto simp: add_mset_commute)
qed simp

definition conserved :: "'a shared \<Rightarrow> bool" where
  "conserved s \<longleftrightarrow> pushed s = popped s + contents (slots s)"

lemma thread_step_conserved:
  assumes step: "thread_step s x s' x'" and c: "consistent (s, th)" and t: "th t = x" and k: "conserved s"
  shows "conserved s'"
  using step
proof cases
  case (construct v g i)
  then have "cell_is s i g Writing False" using consistentD(5)[OF c, of t Writing g i False] t by simp
  then show ?thesis
    using construct k consistentD(3)[OF c] contents_store[of "unat i" "slots s" v] by (simp add: conserved_def cell_is_def)
next
  case (move_out i v g)
  then have "cell_is s i g Reading True" using consistentD(5)[OF c, of t Reading g i True] t by simp
  then show ?thesis
    using move_out k consistentD(3)[OF c] contents_clear[of "unat i" "slots s" v]
    by (simp add: conserved_def cell_is_def)
qed (use k in \<open>simp_all add: conserved_def\<close>)

lemma start_conf_consistent:
  assumes "0 < c" "c \<le> MAX_CAPACITY"
  shows "consistent (start_conf c)" "conserved (fst (start_conf c))"
proof -
  have wf: "qm_wf (new_manager c)" using assms by (rule new_manager_wf)
  then have "indexes_ok (new_manager c)"
    using cycle_pos[OF wf] by (simp add: indexes_ok_def new_manager_def discardDisabledFlag_def)
  moreover have "2 \<le> gens c" using gens_ge_2[OF assms] .
  ultimately show "consistent (start_conf c)"
    by (auto simp: start_conf_def consistent.simps owns_def cell_is_def cell_def new_manager_def encode_add
        intro!: exI[of _ 0])
  have "contents (replicate c None) = {#}" by (induction c) simp_all
  then show "conserved (fst (start_conf c))" by (simp add: start_conf_def conserved_def)
qed

lemma reachable_consistent:
  assumes "reachable c x" and cap: "0 < c" "c \<le> MAX_CAPACITY"
  shows "consistent x \<and> conserved (fst x)"
  using assms(1)
proof induction
  case start
  then show ?case using start_conf_consistent[OF cap] by simp
next
  case (step x y)
  from step.hyps(2) obtain s th t s' z where "x = (s, th)" "y = (s', th(t := z))" "thread_step s (th t) s' z"
    by (auto elim: conf_step.cases)
  then show ?case
    using step.IH thread_step_consistent thread_step_conserved by fastforce
qed

lemma thread_step_capacity: "thread_step s x s' x' \<Longrightarrow> m_capacity (mgr s') = m_capacity (mgr s)"
proof (induction rule: thread_step.induct)
  case (push pc s m' pc' v)
  then show ?case
    by (cases pc) (auto simp: push_try_def cas_push_def Let_def split: if_splits)
next
  case (pop pc s m' pc')
  then show ?case
    by (cases pc) (auto simp: pop_try_def cas_pop_def Let_def split: if_splits)
next
  case (disabling s pc m' pc')
  then show ?case by (cases pc) (auto split: if_splits)
next
  case (enabling s pc m' pc')
  then show ?case by (cases pc) (auto split: if_splits)
qed (simp_all add: commitPushIndex_def commitPopIndex_def)

lemma reachable_capacity: "reachable c x \<Longrightarrow> m_capacity (mgr (fst x)) = c"
proof (induction rule: reachable.induct)
  case start
  then show ?case by (simp add: start_conf_def new_manager_def)
next
  case (step x y)
  from step.hyps(2) show ?case
  proof cases
    case (1 s th t s' z)
    then show ?thesis using step.IH thread_step_capacity[OF 1(3)] by simp
  qed
qed

lemma reachable_step: "reachable c (s, th) \<Longrightarrow> thread_step s (th t) s' x \<Longrightarrow> reachable c (s', th(t := x))"
  by (rule reachable.step, assumption, rule conf_step.intros)

text \<open>A run of one thread up to the construction of its element.\<close>

lemma constructed_reachable:
  "\<exists>s. reachable 1 (s, (\<lambda>_. Idle)(0 := Constructed 0 0)) \<and> pushed s = {#7 :: nat#}"
proof -
  let ?s = "\<lparr>mgr = new_manager 1, slots = [None], pushed = {#}, popped = {#}\<rparr> :: nat shared"
  let ?th = "\<lambda>x :: nat thread. (\<lambda>_ :: nat. Idle)(0 := x)"
  let ?m1 = "set_cell 0 1 (new_manager 1)"
  let ?m2 = "?m1\<lparr>m_pushIndex := 1\<rparr>"
  have go: "reachable 1 (s', ?th x')" if "reachable 1 (s, ?th x)" "thread_step s x s' x'" for s s' x x'
  proof -
    have "thread_step s (?th x 0) s' x'" using that(2) by simp
    from reachable_step[OF that(1) this] show ?thesis by (simp only: fun_upd_upd)
  qed
  have st: "start_conf 1 = (?s, ?th Idle)" by (simp add: start_conf_def fun_eq_iff)
  have "reachable 1 (?s, ?th Idle)" using reachable.start[of 1, where 'a = nat] unfolding st .
  then have "reachable 1 (?s, ?th (Pushing 7 (PushLoad (- 1))))"
    by (rule go) (rule start_push)
  then have "reachable 1 (?s, ?th (Pushing 7 (PushTry 0 (- 1))))"
    by (rule go) (use thread_step.push[of "PushLoad (- 1)" ?s "new_manager 1" "PushTry 0 (- 1)" 7] in \<open>simp add: new_manager_def\<close>)
  then have "reachable 1 (?s\<lparr>mgr := ?m1\<rparr>, ?th (Pushing 7 (PushGot 0 0 0)))"
  proof (rule go)
    have "step_push (mgr ?s) (PushTry 0 (- 1)) = (?m1, PushGot 0 0 0)"
      by (simp add: push_try_def new_manager_def isDisabledFlagSet_def discardDisabledFlag_def gen_of_def idx_of_def
          cell_def encode_add)
    then show "thread_step ?s (Pushing 7 (PushTry 0 (- 1))) (?s\<lparr>mgr := ?m1\<rparr>) (Pushing 7 (PushGot 0 0 0))"
      by (intro thread_step.push) simp_all
  qed
  then have "reachable 1 (?s\<lparr>mgr := ?m2\<rparr>, ?th (Pushing 7 (PushDone Success 0 0)))"
  proof (rule go)
    have "step_push ?m1 (PushGot 0 0 0) = (?m2, PushDone Success 0 0)"
      by (simp add: cas_push_def nextCombinedIndex_def new_manager_def numGenerations_def NUM_COMBINED_INDEXES_def NUM_ELEMENT_GENERATIONS_def)
    then show "thread_step (?s\<lparr>mgr := ?m1\<rparr>) (Pushing 7 (PushGot 0 0 0)) (?s\<lparr>mgr := ?m2\<rparr>) (Pushing 7 (PushDone Success 0 0))"
      using thread_step.push[of "PushGot 0 0 0" "?s\<lparr>mgr := ?m1\<rparr>" ?m2 "PushDone Success 0 0" 7] by simp
  qed
  from go[OF this thread_step.construct] show ?thesis by fastforce
qed

text \<open>
  Claim C9. However many threads share the queue and however their atomic accesses interleave, two
  threads never hold the same cell; a thread about to commit finds its cell in exactly the state and
  generation it reserved, which are the assertions of \<open>commitPushIndex\<close> and \<open>commitPopIndex\<close>; a
  thread about to construct finds raw memory; and a thread about to move an element out finds one.
\<close>

theorem queue_cells_exclusive:
  assumes "reachable c (s, th)" "0 < c" "c \<le> MAX_CAPACITY"
  shows "(\<forall>t t' i. owns (th t) i \<and> owns (th t') i \<longrightarrow> t = t') \<and>
    (\<forall>t g i. th t = Constructed g i \<longrightarrow>
       decodeStateFromElementState (cell (mgr s) i) = Writing \<and>
       decodeGenerationFromElementState (cell (mgr s) i) = g \<and> unat i < c) \<and>
    (\<forall>t g i. th t = MovedOut g i \<longrightarrow>
       decodeStateFromElementState (cell (mgr s) i) = Reading \<and>
       decodeGenerationFromElementState (cell (mgr s) i) = g \<and> unat i < c) \<and>
    (\<forall>t v g i. th t = Pushing v (PushDone Success g i) \<longrightarrow> slots s ! unat i = None) \<and>
    (\<forall>t g i. th t = Popping (PopDone Success g i) \<longrightarrow> slots s ! unat i \<noteq> None)"
proof -
  have c: "consistent (s, th)" using reachable_consistent[OF assms] by simp
  have cap: "m_capacity (mgr s) = c" using reachable_capacity[OF assms(1)] by simp
  have cell: "decodeStateFromElementState (cell (mgr s) i) = st \<and>
      decodeGenerationFromElementState (cell (mgr s) i) = g \<and> unat i < c \<and> (slots s ! unat i \<noteq> None) = b"
    if "owner (th t) = Some (st, g, i, b)" for t st g i b
    using consistentD(5)[OF c that] gens_less_30[OF consistentD(2)[OF c], of g] cap by (auto simp: cell_is_def)
  have "t = t'" if "owns (th t) i \<and> owns (th t') i" for t t' i
    using consistentD(6)[OF c, of t' i t] that by simp
  moreover have "decodeStateFromElementState (cell (mgr s) i) = Writing \<and>
      decodeGenerationFromElementState (cell (mgr s) i) = g \<and> unat i < c" if "th t = Constructed g i" for t g i
    using cell[of t Writing g i True] that by simp
  moreover have "decodeStateFromElementState (cell (mgr s) i) = Reading \<and>
      decodeGenerationFromElementState (cell (mgr s) i) = g \<and> unat i < c" if "th t = MovedOut g i" for t g i
    using cell[of t Reading g i False] that by simp
  moreover have "slots s ! unat i = None" if "th t = Pushing v (PushDone Success g i)" for t v g i
    using cell[of t Writing g i False] that by simp
  moreover have "slots s ! unat i \<noteq> None" if "th t = Popping (PopDone Success g i)" for t g i
    using cell[of t Reading g i True] that by simp
  ultimately show ?thesis by blast
qed

theorem queue_cells_exclusive_witness:
  "\<exists>s :: nat shared. decodeStateFromElementState (cell (mgr s) 0) = Writing \<and> pushed s = {#7#}"
proof -
  obtain s :: "nat shared" where s: "reachable 1 (s, (\<lambda>_. Idle)(0 := Constructed 0 0))" "pushed s = {#7#}"
    using constructed_reachable by blast
  have "decodeStateFromElementState (cell (mgr s) 0) = Writing"
    using queue_cells_exclusive[OF s(1), THEN conjunct2, THEN conjunct1, THEN spec, of 0]
    by (simp add: MAX_CAPACITY_def)
  then show ?thesis using s(2) by blast
qed

text \<open>
  Claim C10. Under every interleaving the elements constructed in the queue are exactly the elements
  moved out of it together with those still in its slots: no element is lost, duplicated or made up.
\<close>

theorem queue_conserves_elements:
  assumes "reachable c (s, th)" "0 < c" "c \<le> MAX_CAPACITY"
  shows "pushed s = popped s + contents (slots s)"
  using reachable_consistent[OF assms] by (simp add: conserved_def)

theorem queue_conserves_elements_witness:
  "\<exists>s :: nat shared. pushed s = {#7#} \<and> pushed s = popped s + contents (slots s)"
proof -
  obtain s :: "nat shared" where s: "reachable 1 (s, (\<lambda>_. Idle)(0 := Constructed 0 0))" "pushed s = {#7#}"
    using constructed_reachable by blast
  have "pushed s = popped s + contents (slots s)"
    by (rule queue_conserves_elements[OF s(1)]) (simp_all add: MAX_CAPACITY_def)
  then show ?thesis using s(2) by blast
qed

end
