(* ===== verification/Spec2Isabelle.thy ===== *)
theory Spec2Isabelle
  imports Dht_Context Dht_Message_Types Queue_Refinement Queue_Threads
begin

text \<open>
  A verification development for \<^emph>\<open>llarp\<close>, the onion router of the sources under \<open>src/llarp\<close>.

  \<^bold>\<open>The program.\<close>  A router keeps a signed description of itself, its router contact, and a database of
  the contacts of others.  Routers talk over sessions in bencoded messages; a distributed hash table
  (DHT) finds contacts and the introduction sets of hidden services.  Threads hand work to each other
  through a bounded queue.  Addresses and address ranges are 128 bit numbers.

  \<^bold>\<open>Theories, from the bottom up.\<close>

  \<^item> \<open>Llarp_Prelude\<close>: machine types, the ways an operation can end (\<open>result\<close>: a value, an access outside
    of memory, an exception, out of fuel), simulation of an abstract machine (locale \<open>simulation\<close>).
    \<open>Ordered_Map\<close> and \<open>Hash_Map\<close> are \<open>std::map\<close> and \<open>std::unordered_map\<close>.
  \<^item> \<open>CLib\<close>, \<open>Buffer\<close>, \<open>Bencode\<close>, \<open>Bencode_Facts\<close>, \<open>Bencode_Values\<close>: \<open>llarp_buffer_t\<close>
    (\<open>util/buffer\<close>) and the bencode reader and writer (\<open>util/bencode\<close>, \<open>util/aligned.hpp\<close>).  Shown are
    round trips, that \<open>bencode_discard\<close> skips one value and always ends, and two faults: a reader that
    leaves the buffer and a writer that reports success for a truncated string.
  \<^item> \<open>Dict_Codec\<close>, \<open>Tagged_Codec\<close>, \<open>Typed_Codec\<close>: what the message classes share.  \<open>writes\<close> and
    \<open>decodes\<close> describe the two halves of a codec; the locales \<open>bencodable\<close>, \<open>message_codec\<close> and
    \<open>tagged_codec\<close> are its interface and are interpreted for every class; the collections \<open>writers\<close>,
    \<open>fields\<close>, \<open>safe\<close> and \<open>typed\<close> carry the proofs.
  \<^item> \<open>Queue_Manager\<close>, \<open>Queue_Manager_Facts\<close>, \<open>Queue\<close>, \<open>Queue_Refinement\<close>, \<open>Queue_Threads\<close>:
    \<open>util/thread/queue_manager\<close> and \<open>queue.hpp\<close>.  A sequential refinement of a bounded FIFO list, and a
    step relation for threads in which every access to shared memory is one step: cells are held by one
    thread at a time and elements are neither lost nor duplicated.
  \<^item> \<open>Uint128\<close>, \<open>Net_Addr\<close>, \<open>IP_Range\<close>: \<open>net/uint128.hpp\<close>, \<open>net_int\<close>, \<open>net_bits.hpp\<close>, \<open>ip_range\<close>,
    \<open>ip_range_map.hpp\<close>.  The 128 bit numbers in two halves are those of \<open>128 word\<close>; masks, ranges and
    the search for a private range are correct; one fault of \<open>UnmapExitRange\<close>.
  \<^item> \<open>Dht_Key\<close>, \<open>Dht_Bucket\<close>: keys under the XOR metric and the buckets ordered by it
    (\<open>dht/key.hpp\<close>, \<open>kademlia.hpp\<close>, \<open>bucket.hpp\<close>), which refine a map and find the nearest nodes.
  \<^item> \<open>Intro_Set\<close>, \<open>Router_Contact\<close>, \<open>Router_Contact_Facts\<close>: the two signed objects
    (\<open>service/intro_set\<close>, \<open>router_contact\<close>).  What was signed and sent is decoded and accepted.
  \<^item> \<open>Dht_Messages\<close>, \<open>Dht_Messages_Facts\<close>, \<open>Dht_Message_Types\<close>: the seven messages of the DHT and the
    decoder that tells them apart (\<open>dht/message\<close>, \<open>dht/messages\<close>).  A list of messages survives the
    wire; whatever is decoded is well formed; the decoder ends on every input.
  \<^item> \<open>Node_DB\<close>, \<open>Node_DB_Facts\<close>: the database of contacts (\<open>nodedb\<close>) in memory and on disk.

  \<^bold>\<open>How the code is represented.\<close>  A class is a record, an enumeration a datatype, an integer a word of
  its width, a time an integer.  An operation takes the object and returns it changed; what the C++
  function returns comes first.  References and pointers that are outputs are results.  \<open>randint\<close>, the
  clock, the order of iteration of a hash map, shuffles, and code outside of \<open>src\<close> are arguments: the
  signature functions, \<open>inet_ntop\<close> and \<open>inet_pton\<close>, \<open>oxenc\<close>.  Theorems that rely on them name the law
  as a hypothesis (\<open>signature_scheme\<close>, \<open>inet_text\<close>, \<open>bt_serializes\<close>, \<open>names_ok\<close>) and have a witness
  with a concrete instance.

  \<^bold>\<open>Fuel.\<close>  The loops of the bencode reader take the number of bytes left in the buffer plus one: every
  round consumes a byte.  The loop that destroys an unreleased guard takes one more round than the queue
  has cells.  The blocking operations take one more round than there are signals in the semaphore.  In
  each case it is proved that the fuel is enough.

  \<^bold>\<open>Not modelled.\<close>  The event loop, sockets and platform code (\<open>ev\<close>, \<open>vpn\<close>, \<open>net/posix.cpp\<close>, \<open>win32\<close>) are calls into
  the operating system.  The cryptographic primitives are calls into a library.  The parser of the
  configuration, the RPC server, the tooling hooks and logging have no state that the modelled parts
  depend on.  Sessions, links, paths, hidden service endpoints and the packet handlers drive callbacks
  over the event loop and are only modelled where the list above says so.
\<close>

end
